(* ===== verification/Phasor_Prelude.thy ===== *)
theory Phasor_Prelude
  imports Main "HOL-Library.Word"
begin

text \<open>
  The vocabulary the component theories share: Rust slices with checked access, little-endian
  byte fields, and the wrapping and saturating forms of 32-bit arithmetic.

  A \<^typ>\<open>'a list\<close> stands for a slice. \<open>subrange xs a b\<close> is Rust's \<open>xs.get(a..b)\<close>,
  \<open>get_at xs i\<close> is \<open>xs.get(i)\<close>, and \<open>put_at xs i ys\<close> writes \<open>ys\<close> at \<open>i\<close> where the
  field is there and leaves the slice alone where it is not, as the source's
  \<open>if let Some(field) = out.get_mut(..)\<close> does. Sizes and indices are \<^typ>\<open>nat\<close>;
  where the source's width matters the wrap or the saturation is written out.
\<close>

named_theorems slice_simps \<open>facts about checked slice access\<close>
named_theorems le_simps \<open>facts about little-endian fields\<close>

type_synonym byte = "8 word"

abbreviation u32_max :: nat where
  "u32_max \<equiv> 4294967295"

abbreviation u64_max :: nat where
  "u64_max \<equiv> 18446744073709551615"

subsection \<open>Fixed-width arithmetic on naturals\<close>

definition wadd32 :: "nat \<Rightarrow> nat \<Rightarrow> nat" where
  "wadd32 a b = (a + b) mod 2 ^ 32"

definition sadd32 :: "nat \<Rightarrow> nat \<Rightarrow> nat" where
  "sadd32 a b = min (a + b) u32_max"

definition checked_add32 :: "nat \<Rightarrow> nat \<Rightarrow> nat option" where
  "checked_add32 a b = (if a + b \<le> u32_max then Some (a + b) else None)"

definition sadd64 :: "nat \<Rightarrow> nat \<Rightarrow> nat" where
  "sadd64 a b = min (a + b) u64_max"

lemma wadd32_exact [simp]: "a + b \<le> u32_max \<Longrightarrow> wadd32 a b = a + b"
  by (simp add: wadd32_def)

lemma sadd32_exact [simp]: "a + b \<le> u32_max \<Longrightarrow> sadd32 a b = a + b"
  by (simp add: sadd32_def)

lemma sadd32_le: "sadd32 a b \<le> u32_max"
  by (simp add: sadd32_def)

lemma checked_add32_Some [simp]:
  "checked_add32 a b = Some c \<longleftrightarrow> c = a + b \<and> a + b \<le> u32_max"
  by (auto simp: checked_add32_def)

lemma checked_add32_None [simp]: "checked_add32 a b = None \<longleftrightarrow> u32_max < a + b"
  by (auto simp: checked_add32_def)

subsection \<open>Fallible results\<close>

text \<open>\<open>and_then\<close> is the source's \<open>?\<close>: an error ends the computation, a value goes on.\<close>

definition and_then :: "'e + 'a \<Rightarrow> ('a \<Rightarrow> 'e + 'b) \<Rightarrow> 'e + 'b" where
  "and_then r f = (case r of Inl e \<Rightarrow> Inl e | Inr x \<Rightarrow> f x)"

lemma and_then_simps [simp]: "and_then (Inl e) f = Inl e" "and_then (Inr x) f = f x"
  by (simp_all add: and_then_def)

lemma and_then_Inr: "and_then r f = Inr y \<longleftrightarrow> (\<exists>x. r = Inr x \<and> f x = Inr y)"
  by (cases r) auto

lemma and_then_Inl: "and_then r f = Inl e \<longleftrightarrow> r = Inl e \<or> (\<exists>x. r = Inr x \<and> f x = Inl e)"
  by (cases r) auto

definition ok_or :: "'e \<Rightarrow> 'a option \<Rightarrow> 'e + 'a" where
  "ok_or e r = (case r of None \<Rightarrow> Inl e | Some x \<Rightarrow> Inr x)"

lemma ok_or_simps [simp]: "ok_or e None = Inl e" "ok_or e (Some x) = Inr x"
  by (simp_all add: ok_or_def)

lemma ok_or_Inr [simp]: "ok_or e r = Inr x \<longleftrightarrow> r = Some x"
  by (cases r) auto

subsection \<open>Checked slices\<close>

definition get_at :: "'a list \<Rightarrow> nat \<Rightarrow> 'a option" where
  "get_at xs i = (if i < length xs then Some (xs ! i) else None)"

definition subrange :: "'a list \<Rightarrow> nat \<Rightarrow> nat \<Rightarrow> 'a list option" where
  "subrange xs a b = (if a \<le> b \<and> b \<le> length xs then Some (take (b - a) (drop a xs)) else None)"

definition put_at :: "'a list \<Rightarrow> nat \<Rightarrow> 'a list \<Rightarrow> 'a list" where
  "put_at xs i ys =
     (if i + length ys \<le> length xs then take i xs @ ys @ drop (i + length ys) xs else xs)"

lemma get_at_Some [slice_simps]: "get_at xs i = Some x \<longleftrightarrow> i < length xs \<and> xs ! i = x"
  by (auto simp: get_at_def)

lemma get_at_None [slice_simps]: "get_at xs i = None \<longleftrightarrow> length xs \<le> i"
  by (auto simp: get_at_def)

lemma subrange_Some [slice_simps]:
  "subrange xs a b = Some ys \<longleftrightarrow> a \<le> b \<and> b \<le> length xs \<and> ys = take (b - a) (drop a xs)"
  by (auto simp: subrange_def)

lemma subrange_None [slice_simps]: "subrange xs a b = None \<longleftrightarrow> b < a \<or> length xs < b"
  by (auto simp: subrange_def)

lemma length_subrange: "subrange xs a b = Some ys \<Longrightarrow> length ys = b - a"
  by (auto simp: subrange_Some)

lemma subrange_nth: "subrange xs a b = Some ys \<Longrightarrow> i < b - a \<Longrightarrow> ys ! i = xs ! (a + i)"
  by (auto simp: subrange_Some)

lemma length_put_at [simp]: "length (put_at xs i ys) = length xs"
  by (simp add: put_at_def)

lemma put_at_nth:
  assumes "i + length ys \<le> length xs" "j < length xs"
  shows "put_at xs i ys ! j = (if i \<le> j \<and> j < i + length ys then ys ! (j - i) else xs ! j)"
  using assms by (auto simp: put_at_def nth_append)

lemma put_at_Nil [simp]: "put_at xs i [] = xs"
  by (simp add: put_at_def)

lemma put_at_append:
  assumes "i + length ys + length zs \<le> length xs"
  shows "put_at (put_at xs i ys) (i + length ys) zs = put_at xs i (ys @ zs)"
  using assms by (simp add: put_at_def add_ac)

lemma take_put_at:
  "i + length ys \<le> length xs \<Longrightarrow> take (i + length ys) (put_at xs i ys) = take i xs @ ys"
  by (simp add: put_at_def)

lemma subrange_append1 [simp]: "b \<le> length xs \<Longrightarrow> subrange (xs @ ys) a b = subrange xs a b"
  by (auto simp: subrange_def)

lemma subrange_append2:
  "length xs \<le> a \<Longrightarrow> a \<le> b \<Longrightarrow> subrange (xs @ ys) a b = subrange ys (a - length xs) (b - length xs)"
  by (auto simp: subrange_def)

lemma subrange_put_same:
  assumes "i + length ys \<le> length xs"
  shows "subrange (put_at xs i ys) i (i + length ys) = Some ys"
  using assms by (simp add: subrange_def put_at_def)

lemma subrange_put_other:
  assumes "b \<le> i \<or> i + length ys \<le> a"
  shows "subrange (put_at xs i ys) a b = subrange xs a b"
proof (cases "i + length ys \<le> length xs \<and> a \<le> b \<and> b \<le> length xs")
  case True
  have "take (b - a) (drop a (put_at xs i ys)) = take (b - a) (drop a xs)"
    by (rule nth_equalityI) (use True assms in \<open>auto simp: put_at_nth\<close>)
  then show ?thesis by (simp add: subrange_def)
next
  case False
  then show ?thesis by (auto simp: subrange_def put_at_def)
qed

lemma subrange_put_at_within:
  assumes "i + length ys \<le> length xs" "i \<le> a" "a \<le> b" "b \<le> i + length ys"
  shows "subrange (put_at xs i ys) a b = subrange ys (a - i) (b - i)"
proof -
  have "take (b - a) (drop a (put_at xs i ys)) = take (b - a) (drop (a - i) ys)"
    by (rule nth_equalityI) (use assms in \<open>auto simp: put_at_nth\<close>)
  with assms show ?thesis by (auto simp: subrange_def)
qed

lemma get_at_put_at_within:
  assumes "i + length ys \<le> length xs" "i \<le> a" "a < i + length ys"
  shows "get_at (put_at xs i ys) a = get_at ys (a - i)"
  using assms by (auto simp: get_at_def put_at_nth)

lemma subrange_full [simp]: "subrange xs 0 (length xs) = Some xs"
  by (simp add: subrange_def)

lemma subrange_Cons_Suc: "subrange (x # xs) (Suc a) (Suc b) = subrange xs a b"
  by (simp add: subrange_def)

subsection \<open>Little-endian fields\<close>

primrec le_bytes :: "nat \<Rightarrow> nat \<Rightarrow> byte list" where
  "le_bytes 0 x = []"
| "le_bytes (Suc n) x = of_nat (x mod 256) # le_bytes n (x div 256)"

primrec of_le :: "byte list \<Rightarrow> nat" where
  "of_le [] = 0"
| "of_le (b # bs) = unat b + 256 * of_le bs"

lemma length_le_bytes [simp]: "length (le_bytes n x) = n"
  by (induction n arbitrary: x) auto

lemma unat_bound: "unat (w :: 'a::len word) < 2 ^ LENGTH('a)"
  by (rule unsigned_less)

lemma unat_of_nat_byte [simp]: "unat (of_nat (x mod 256) :: byte) = x mod 256"
  by (simp add: unat_of_nat)

lemma of_le_le_bytes [le_simps]: "of_le (le_bytes n x) = x mod 256 ^ n"
proof (induction n arbitrary: x)
  case (Suc n)
  then show ?case
    by (simp add: mod_mult2_eq mult.commute)
qed simp

lemma of_le_bound: "of_le bs < 256 ^ length bs"
proof (induction bs)
  case (Cons b bs)
  have "unat b < 256" using unat_bound [of b] by simp
  with Cons show ?case by simp
qed simp

lemma le_bytes_of_le [le_simps]: "le_bytes (length bs) (of_le bs) = bs"
proof (induction bs)
  case (Cons b bs)
  have "unat b < 256" using unat_bound [of b] by simp
  then have "(unat b + 256 * of_le bs) mod 256 = unat b"
    and "(unat b + 256 * of_le bs) div 256 = of_le bs" by auto
  with Cons show ?case by simp
qed simp

lemma of_le_append: "of_le (xs @ ys) = of_le xs + 256 ^ length xs * of_le ys"
  by (induction xs) (simp_all add: algebra_simps)

lemma le_bytes_split: "le_bytes (m + n) x = le_bytes m x @ le_bytes n (x div 256 ^ m)"
proof (induction m arbitrary: x)
  case (Suc m)
  have "x div 256 div 256 ^ m = x div 256 ^ Suc m"
    by (simp add: div_mult2_eq)
  with Suc show ?case by simp
qed simp

text \<open>\<open>u32::from_le_bytes\<close> over a checked four-byte field.\<close>

definition read_le32 :: "byte list \<Rightarrow> nat \<Rightarrow> nat option" where
  "read_le32 bytes at = map_option of_le (subrange bytes at (at + 4))"

lemma read_le32_bound: "read_le32 bytes at = Some v \<Longrightarrow> v \<le> u32_max"
proof -
  assume "read_le32 bytes at = Some v"
  then obtain ys where "subrange bytes at (at + 4) = Some ys" "v = of_le ys"
    by (auto simp: read_le32_def)
  then have "length ys = 4" "v < 256 ^ length ys"
    using of_le_bound [of ys] by (auto dest: length_subrange)
  then show ?thesis by simp
qed

lemma read_le32_None: "read_le32 bytes at = None \<longleftrightarrow> length bytes < at + 4"
  by (auto simp: read_le32_def subrange_None)

lemma read_le32_le_bytes:
  assumes "subrange bytes at (at + 4) = Some (le_bytes 4 v)" "v \<le> u32_max"
  shows "read_le32 bytes at = Some v"
  using assms by (simp add: read_le32_def of_le_le_bytes)

end
