(* ===== verification/Js_Value.thy ===== *)
theory Js_Value
  imports Phasor_Prelude
begin

text \<open>
  Tagged values and generation-checked handles, from \<^verbatim>\<open>modules/common/value.rs\<close>: the value
  representation, its constructors and tests, and the long and short byte encodings a heap cell
  holds values in. A binary64 is its 64 bits, which is what the source stores; the payload of a
  reference is the handle packed into one word.
\<close>

unbundle bit_operations_syntax

type_synonym f64 = "64 word"

subsection \<open>Tags and handles\<close>

datatype tag = Undefined | Null | Boolean | Number | String | Symbol | BigInt | Object

record handle =
  h_index :: "32 word"
  h_generation :: "32 word"

definition handle_new :: "32 word \<Rightarrow> 32 word \<Rightarrow> handle" where
  "handle_new index generation = \<lparr>h_index = index, h_generation = generation\<rparr>"

definition handle_pack :: "handle \<Rightarrow> 64 word" where
  "handle_pack h = (push_bit 32 (ucast (h_generation h))) OR ucast (h_index h)"

definition handle_unpack :: "64 word \<Rightarrow> handle" where
  "handle_unpack bits =
     \<lparr>h_index = ucast (bits AND 0xFFFFFFFF), h_generation = ucast (drop_bit 32 bits)\<rparr>"

subsection \<open>Values\<close>

record jsvalue =
  v_tag :: tag
  v_payload :: "64 word"

definition v_undefined :: jsvalue where
  "v_undefined = \<lparr>v_tag = Undefined, v_payload = 0\<rparr>"

definition v_null :: jsvalue where
  "v_null = \<lparr>v_tag = Null, v_payload = 0\<rparr>"

definition v_true :: jsvalue where
  "v_true = \<lparr>v_tag = Boolean, v_payload = 1\<rparr>"

definition v_false :: jsvalue where
  "v_false = \<lparr>v_tag = Boolean, v_payload = 0\<rparr>"

definition v_boolean :: "bool \<Rightarrow> jsvalue" where
  "v_boolean b = (if b then v_true else v_false)"

text \<open>\<open>f64::is_nan\<close> on the bits: an all-ones exponent and a non-zero fraction.\<close>

definition f64_is_nan :: "f64 \<Rightarrow> bool" where
  "f64_is_nan bits \<longleftrightarrow> bits AND 0x7FF0000000000000 = 0x7FF0000000000000 \<and>
     bits AND 0x000FFFFFFFFFFFFF \<noteq> 0"

definition canonical_bits :: "f64 \<Rightarrow> 64 word" where
  "canonical_bits value = (if f64_is_nan value then 0x7FF8000000000000 else value)"

definition v_number :: "f64 \<Rightarrow> jsvalue" where
  "v_number value = \<lparr>v_tag = Number, v_payload = canonical_bits value\<rparr>"

definition v_string :: "handle \<Rightarrow> jsvalue" where
  "v_string h = \<lparr>v_tag = String, v_payload = handle_pack h\<rparr>"

definition v_symbol :: "handle \<Rightarrow> jsvalue" where
  "v_symbol h = \<lparr>v_tag = Symbol, v_payload = handle_pack h\<rparr>"

definition v_big_int :: "handle \<Rightarrow> jsvalue" where
  "v_big_int h = \<lparr>v_tag = BigInt, v_payload = handle_pack h\<rparr>"

definition v_object :: "handle \<Rightarrow> jsvalue" where
  "v_object h = \<lparr>v_tag = Object, v_payload = handle_pack h\<rparr>"

definition is_nullish :: "jsvalue \<Rightarrow> bool" where
  "is_nullish v \<longleftrightarrow> v_tag v = Undefined \<or> v_tag v = Null"

definition as_boolean :: "jsvalue \<Rightarrow> bool" where
  "as_boolean v \<longleftrightarrow> v_payload v \<noteq> 0"

definition as_number :: "jsvalue \<Rightarrow> f64" where
  "as_number v = (if v_tag v = Number then v_payload v else 0x7FF8000000000000)"

definition as_handle :: "jsvalue \<Rightarrow> handle" where
  "as_handle v = handle_unpack (v_payload v)"

text \<open>The tags whose payload is a handle: \<open>gc::holds_reference\<close>, which \<open>job::roots\<close> repeats.\<close>

definition holds_reference :: "jsvalue \<Rightarrow> bool" where
  "holds_reference v \<longleftrightarrow> v_tag v \<in> {String, Symbol, BigInt, Object}"

subsection \<open>Byte encodings\<close>

fun tag_byte :: "tag \<Rightarrow> byte" where
  "tag_byte Undefined = 0"
| "tag_byte Null = 1"
| "tag_byte Boolean = 2"
| "tag_byte Number = 3"
| "tag_byte String = 4"
| "tag_byte Symbol = 5"
| "tag_byte BigInt = 6"
| "tag_byte Object = 7"

definition field :: "nat \<Rightarrow> byte list \<Rightarrow> nat \<Rightarrow> byte list option" where
  "field n bytes at = subrange bytes at (at + n)"

definition none_index :: "32 word" where
  "none_index = 0xFFFFFFFF"

definition handle_write_at :: "handle \<Rightarrow> byte list \<Rightarrow> nat \<Rightarrow> byte list" where
  "handle_write_at h out at =
     put_at out at (le_bytes 4 (unat (h_index h)) @ le_bytes 4 (unat (h_generation h)))"

definition handle_write_none_at :: "byte list \<Rightarrow> nat \<Rightarrow> byte list" where
  "handle_write_none_at out at = put_at out at (le_bytes 4 (unat none_index) @ le_bytes 4 0)"

definition handle_read_at :: "byte list \<Rightarrow> nat \<Rightarrow> handle option" where
  "handle_read_at bytes at =
     (case field 8 bytes at of
        None \<Rightarrow> None
      | Some f \<Rightarrow>
          (let index = of_nat (of_le (take 4 f)) in
           if index = none_index then None
           else Some (handle_new index (of_nat (of_le (drop 4 f))))))"

definition encoded :: nat where
  "encoded = 9"

definition encoded_short :: nat where
  "encoded_short = 7"

definition encode_at :: "jsvalue \<Rightarrow> byte list \<Rightarrow> nat \<Rightarrow> byte list" where
  "encode_at v out at = put_at out at (tag_byte (v_tag v) # le_bytes 8 (unat (v_payload v)))"

definition decode_at :: "byte list \<Rightarrow> nat \<Rightarrow> jsvalue" where
  "decode_at bytes at =
     (case (get_at bytes at, field 8 bytes (at + 1)) of
        (Some tag, Some f) \<Rightarrow>
          (let payload = of_nat (of_le f); h = handle_unpack payload in
           if tag = 1 then v_null
           else if tag = 2 then v_boolean (payload \<noteq> 0)
           else if tag = 3 then v_number payload
           else if tag = 4 then v_string h
           else if tag = 5 then v_symbol h
           else if tag = 6 then v_big_int h
           else if tag = 7 then v_object h
           else v_undefined)
      | _ \<Rightarrow> v_undefined)"

definition encode_short_at :: "jsvalue \<Rightarrow> byte list \<Rightarrow> nat \<Rightarrow> byte list" where
  "encode_short_at v out at =
     (let h = as_handle v in
      put_at out at
        (tag_byte (v_tag v) # le_bytes 4 (unat (h_index h)) @
         le_bytes 2 (unat (ucast (h_generation h) :: 16 word))))"

definition decode_short_at :: "byte list \<Rightarrow> nat \<Rightarrow> jsvalue" where
  "decode_short_at bytes at =
     (case (get_at bytes at, field 4 bytes (at + 1), field 2 bytes (at + 5)) of
        (Some tag, Some index, Some generation) \<Rightarrow>
          (if tag \<noteq> tag_byte Object then v_undefined
           else v_object (handle_new (of_nat (of_le index)) (of_nat (of_le generation))))
      | _ \<Rightarrow> v_undefined)"

subsection \<open>Handles pack and unpack\<close>

lemma mask_32_eq: "(0xFFFFFFFF :: 64 word) = mask 32"
  by (simp add: mask_eq_exp_minus_1)

lemma handle_unpack_pack [simp]: "handle_unpack (handle_pack h) = h"
proof -
  have "ucast (handle_pack h AND 0xFFFFFFFF) = h_index h"
    unfolding handle_pack_def mask_32_eq by (rule bit_word_eqI) (auto simp: bit_simps)
  moreover have "ucast (drop_bit 32 (handle_pack h)) = h_generation h"
    unfolding handle_pack_def
    by (rule bit_word_eqI) (auto simp: bit_simps dest: bit_imp_le_length)
  ultimately show ?thesis by (simp add: handle_unpack_def)
qed

lemma handle_pack_unpack [simp]: "handle_pack (handle_unpack w) = w"
  unfolding handle_pack_def handle_unpack_def mask_32_eq
  by (rule bit_word_eqI) (auto simp: bit_simps)

lemma handle_pack_inject: "handle_pack h = handle_pack k \<longleftrightarrow> h = k"
  by (metis handle_unpack_pack)

lemma as_handle_ref [simp]:
  "as_handle (v_string h) = h" "as_handle (v_symbol h) = h"
  "as_handle (v_big_int h) = h" "as_handle (v_object h) = h"
  by (simp_all add: as_handle_def v_string_def v_symbol_def v_big_int_def v_object_def)

subsection \<open>Well-formed values\<close>

text \<open>
  What every constructor of \<open>Value\<close> guarantees: nothing but the tag in an \<open>undefined\<close> or a
  \<open>null\<close>, a Boolean payload of zero or one, and one NaN.
\<close>

definition value_wf :: "jsvalue \<Rightarrow> bool" where
  "value_wf v \<longleftrightarrow>
     (case v_tag v of
        Undefined \<Rightarrow> v_payload v = 0
      | Null \<Rightarrow> v_payload v = 0
      | Boolean \<Rightarrow> v_payload v \<in> {0, 1}
      | Number \<Rightarrow> canonical_bits (v_payload v) = v_payload v
      | _ \<Rightarrow> True)"

lemmas value_defs = v_undefined_def v_null_def v_true_def v_false_def v_boolean_def
  v_number_def v_string_def v_symbol_def v_big_int_def v_object_def

lemma canonical_bits_idem [simp]: "canonical_bits (canonical_bits b) = canonical_bits b"
  by (simp add: canonical_bits_def f64_is_nan_def)

lemma value_wf_constructors [simp]:
  "value_wf v_undefined" "value_wf v_null" "value_wf (v_boolean b)" "value_wf (v_number x)"
  "value_wf (v_string h)" "value_wf (v_symbol h)" "value_wf (v_big_int h)"
  "value_wf (v_object h)"
  by (simp_all add: value_wf_def value_defs)

lemma decode_at_wf: "value_wf (decode_at bytes at)"
  by (simp add: decode_at_def Let_def split: option.split)

lemma of_nat_unat_le64 [simp]: "of_nat (of_le (le_bytes 8 (unat (w :: 64 word)))) = w"
  using unat_bound [of w] by (simp add: of_le_le_bytes)

lemma of_nat_unat_le32 [simp]: "of_nat (of_le (le_bytes 4 (unat (w :: 32 word)))) = w"
  using unat_bound [of w] by (simp add: of_le_le_bytes)

lemma decode_encode_at:
  assumes "value_wf v" "at + encoded \<le> length out"
  shows "decode_at (encode_at v out at) at = v"
proof -
  let ?f = "tag_byte (v_tag v) # le_bytes 8 (unat (v_payload v))"
  have len: "at + length ?f \<le> length out" using assms by (simp add: encoded_def)
  have tag: "get_at (put_at out at ?f) at = Some (tag_byte (v_tag v))"
    using len by (subst get_at_put_at_within) (auto simp: get_at_def)
  have "field 8 (put_at out at ?f) (at + 1) = subrange ?f 1 9"
    unfolding field_def using len by (subst subrange_put_at_within) auto
  also have "subrange ?f 1 9 = Some (le_bytes 8 (unat (v_payload v)))"
    by (simp add: subrange_def)
  finally have fld:
    "field 8 (put_at out at ?f) (at + 1) = Some (le_bytes 8 (unat (v_payload v)))" .
  from assms(1) show ?thesis
    unfolding encode_at_def decode_at_def tag fld
    by (cases v; cases "v_tag v") (auto simp: value_wf_def value_defs Let_def)
qed

lemma encode_at_frame:
  assumes "b \<le> at \<or> at + encoded \<le> a"
  shows "subrange (encode_at v out at) a b = subrange out a b"
  using assms by (simp add: encode_at_def encoded_def subrange_put_other)

lemma handle_read_write_at:
  assumes "at + 8 \<le> length out" "h_index h \<noteq> none_index"
  shows "handle_read_at (handle_write_at h out at) at = Some h"
proof -
  let ?f = "le_bytes 4 (unat (h_index h)) @ le_bytes 4 (unat (h_generation h))"
  have "field 8 (put_at out at ?f) at = subrange ?f 0 8"
    unfolding field_def using assms by (subst subrange_put_at_within) auto
  also have "\<dots> = Some ?f" by (simp add: subrange_def)
  finally show ?thesis
    using assms by (simp add: handle_read_at_def handle_write_at_def handle_new_def Let_def)
qed

lemma handle_read_write_none_at: "handle_read_at (handle_write_none_at out at) at = None"
proof (cases "at + 8 \<le> length out")
  case True
  let ?f = "le_bytes 4 (unat none_index) @ le_bytes 4 0"
  have "field 8 (put_at out at ?f) at = subrange ?f 0 8"
    unfolding field_def using True by (subst subrange_put_at_within) auto
  also have "\<dots> = Some ?f" by (simp add: subrange_def)
  finally show ?thesis
    by (simp add: handle_read_at_def handle_write_none_at_def Let_def)
next
  case False
  then show ?thesis
    by (auto simp: handle_read_at_def handle_write_none_at_def field_def subrange_def)
qed

text \<open>
  The short form keeps the index and only the low sixteen bits of the generation, and only for
  an object: what comes back is the reference with its generation truncated.
\<close>

lemma decode_encode_short_at:
  assumes "v_tag v = Object" "at + encoded_short \<le> length out"
  shows "decode_short_at (encode_short_at v out at) at =
    v_object (handle_new (h_index (as_handle v)) (ucast (ucast (h_generation (as_handle v)) :: 16 word)))"
proof -
  let ?h = "as_handle v"
  let ?g = "ucast (h_generation ?h) :: 16 word"
  let ?f = "tag_byte (v_tag v) # le_bytes 4 (unat (h_index ?h)) @ le_bytes 2 (unat ?g)"
  have len: "at + length ?f \<le> length out" using assms by (simp add: encoded_short_def)
  have tag: "get_at (put_at out at ?f) at = Some (tag_byte (v_tag v))"
    using len by (subst get_at_put_at_within) (auto simp: get_at_def)
  have "field 4 (put_at out at ?f) (at + 1) = subrange ?f 1 5"
    unfolding field_def using len by (subst subrange_put_at_within) auto
  also have "\<dots> = Some (le_bytes 4 (unat (h_index ?h)))" by (simp add: subrange_def)
  finally have index: "field 4 (put_at out at ?f) (at + 1) = Some (le_bytes 4 (unat (h_index ?h)))" .
  have "field 2 (put_at out at ?f) (at + 5) = subrange ?f 5 7"
    unfolding field_def using len by (subst subrange_put_at_within) auto
  also have "\<dots> = Some (le_bytes 2 (unat ?g))" by (simp add: subrange_def)
  finally have generation: "field 2 (put_at out at ?f) (at + 5) = Some (le_bytes 2 (unat ?g))" .
  have "of_le (le_bytes 2 (unat ?g)) = unat ?g"
    using unat_bound [of ?g] by (simp add: of_le_le_bytes)
  then show ?thesis
    using assms(1) unfolding encode_short_at_def decode_short_at_def Let_def tag index generation
    by simp
qed

subsection \<open>Properties\<close>

text \<open>
  C28: a value survives its cell. Any value the constructors make, encoded at a place that has
  room, decodes to itself, and the bytes outside its nine are untouched.
\<close>

theorem value_cell_roundtrip:
  assumes "value_wf v" "at + encoded \<le> length out"
  shows "decode_at (encode_at v out at) at = v \<and>
    (\<forall>a b. b \<le> at \<or> at + encoded \<le> a \<longrightarrow> subrange (encode_at v out at) a b = subrange out a b)"
  using decode_encode_at [OF assms] encode_at_frame by blast

theorem value_cell_roundtrip_witness:
  "decode_at (encode_at v_true (replicate 12 0) 2) 2 = v_true \<and>
   subrange (encode_at v_true (replicate 12 0) 2) 11 12 = Some [0]"
proof -
  have "value_wf v_true" "2 + encoded \<le> length (replicate 12 (0 :: byte))"
    by (simp_all add: value_wf_def v_true_def encoded_def)
  note this = value_cell_roundtrip [OF this]
  moreover have "subrange (replicate 12 0) 11 12 = Some [0 :: byte]" by (simp add: subrange_def)
  ultimately show ?thesis by (auto simp: encoded_def)
qed

text \<open>
  C35: the short form of an accessor's setter keeps the reference exactly when its generation fits
  sixteen bits. From generation 65536 on it names another generation of the slot.
\<close>

theorem short_encoding_exact_iff:
  assumes "v = v_object h" "at + encoded_short \<le> length out"
  shows "decode_short_at (encode_short_at v out at) at = v \<longleftrightarrow> unat (h_generation h) < 65536"
proof -
  define low where "low = (ucast (h_generation h) :: 16 word)"
  let ?g = "ucast low :: 32 word"
  have "decode_short_at (encode_short_at v out at) at = v_object (handle_new (h_index h) ?g)"
    using decode_encode_short_at [of v at out] assms by (simp add: v_object_def as_handle_def low_def)
  moreover have "v_object (handle_new (h_index h) ?g) = v_object h \<longleftrightarrow> ?g = h_generation h"
    by (cases h) (auto simp: v_object_def handle_new_def handle_pack_inject)
  moreover have "?g = h_generation h \<longleftrightarrow> unat ?g = unat (h_generation h)"
    by (simp add: word_unat_eq_iff)
  moreover have "unat ?g = unat (h_generation h) mod 65536"
  proof -
    have "unat low = unat (h_generation h) mod 65536"
      unfolding low_def unsigned_ucast_eq by (simp add: take_bit_eq_mod)
    then show ?thesis unfolding unsigned_ucast_eq by (simp add: take_bit_eq_mod)
  qed
  ultimately show ?thesis
    using assms(1) by (metis mod_less mod_less_divisor zero_less_numeral)
qed

theorem short_encoding_exact_iff_witness:
  "decode_short_at (encode_short_at (v_object (handle_new 3 65536)) (replicate 7 0) 0) 0 =
     v_object (handle_new 3 65536) \<longleftrightarrow> unat (h_generation (handle_new 3 65536)) < 65536"
  by (rule short_encoding_exact_iff) (simp_all add: encoded_short_def)

end
