(* ===== verification/Job_Queue.thy ===== *)
theory Job_Queue
  imports Js_Value
begin

text \<open>
  The job queue of \<^verbatim>\<open>modules/common/job.rs\<close>: a bounded ring over caller-provided slots. The
  locale \<open>bounded_fifo\<close> is the contract a bounded first-in, first-out queue promises; its client
  lemmas (conservation and order over any interleaving of pushes and pops) are proved once there
  and reach the ring through the interpretation \<open>ring\<close>.
\<close>

subsection \<open>The contract of a bounded queue\<close>

datatype 'a queue_op = Push 'a | Pop

text \<open>
  A run of operations: the elements accepted, the elements taken out, and the queue at the end. A
  refused push changes nothing and a pop of an empty queue takes nothing.
\<close>

fun queue_run ::
  "('q \<Rightarrow> 'a \<Rightarrow> 'e + 'q) \<Rightarrow> ('q \<Rightarrow> ('a \<times> 'q) option) \<Rightarrow> 'q \<Rightarrow> 'a queue_op list \<Rightarrow>
   'a list \<times> 'a list \<times> 'q" where
  "queue_run push pop q [] = ([], [], q)"
| "queue_run push pop q (Push x # ops) =
     (case push q x of
        Inl _ \<Rightarrow> queue_run push pop q ops
      | Inr q' \<Rightarrow> (let (acc, out, r) = queue_run push pop q' ops in (x # acc, out, r)))"
| "queue_run push pop q (Pop # ops) =
     (case pop q of
        None \<Rightarrow> queue_run push pop q ops
      | Some (x, q') \<Rightarrow> (let (acc, out, r) = queue_run push pop q' ops in (acc, x # out, r)))"

locale bounded_fifo =
  fixes push :: "'q \<Rightarrow> 'a \<Rightarrow> 'e + 'q"
    and pop :: "'q \<Rightarrow> ('a \<times> 'q) option"
    and contents :: "'q \<Rightarrow> 'a list"
    and cap :: "'q \<Rightarrow> nat"
    and invar :: "'q \<Rightarrow> bool"
  assumes push_accepts: "invar q \<Longrightarrow> (\<exists>q'. push q x = Inr q') \<longleftrightarrow> length (contents q) < cap q"
    and push_contents: "invar q \<Longrightarrow> push q x = Inr q' \<Longrightarrow> contents q' = contents q @ [x]"
    and push_invar: "invar q \<Longrightarrow> push q x = Inr q' \<Longrightarrow> invar q' \<and> cap q' = cap q"
    and pop_none: "invar q \<Longrightarrow> pop q = None \<longleftrightarrow> contents q = []"
    and pop_some: "invar q \<Longrightarrow> pop q = Some (x, q') \<Longrightarrow> contents q = x # contents q'"
    and pop_invar: "invar q \<Longrightarrow> pop q = Some (x, q') \<Longrightarrow> invar q' \<and> cap q' = cap q"
begin

lemma run_conserves:
  assumes "invar q" "queue_run push pop q ops = (acc, out, r)"
  shows "contents q @ acc = out @ contents r \<and> invar r \<and> cap r = cap q"
  using assms
proof (induction ops arbitrary: q acc out r)
  case (Cons oper ops)
  show ?case
  proof (cases oper)
    case (Push x)
    show ?thesis
    proof (cases "push q x")
      case (Inr q')
      then obtain acc' where run: "queue_run push pop q' ops = (acc', out, r)" "acc = x # acc'"
        using Cons.prems Push by (auto split: prod.splits)
      show ?thesis
        using Cons.IH [OF _ run(1)] push_invar [OF Cons.prems(1) Inr]
          push_contents [OF Cons.prems(1) Inr] run(2) by simp
    qed (use Cons Push in auto)
  next
    case Pop
    show ?thesis
    proof (cases "pop q")
      case (Some p)
      obtain x q' where p: "p = (x, q')" by (cases p)
      then obtain out' where run: "queue_run push pop q' ops = (acc, out', r)" "out = x # out'"
        using Cons.prems Pop Some by (auto split: prod.splits)
      have popped: "pop q = Some (x, q')" using Some p by simp
      show ?thesis
        using Cons.IH [OF _ run(1)] pop_invar [OF Cons.prems(1) popped]
          pop_some [OF Cons.prems(1) popped] run(2) by simp
    qed (use Cons Pop in auto)
  qed
qed simp

end

subsection \<open>The ring\<close>

datatype job_kind = Reaction | Settle | Adopt

record job =
  j_kind :: job_kind
  j_target :: jsvalue
  j_argument :: jsvalue
  j_derived :: jsvalue

definition job_empty :: job where
  "job_empty =
     \<lparr>j_kind = Reaction, j_target = v_undefined, j_argument = v_undefined, j_derived = v_undefined\<rparr>"

datatype queue_error = Full

record queue_save =
  qs_head :: nat
  qs_length :: nat
  qs_enqueued :: nat

record queue =
  q_slots :: "job list"
  q_head :: nat
  q_length :: nat
  q_enqueued :: nat

definition queue_save_of :: "queue \<Rightarrow> queue_save" where
  "queue_save_of q =
     \<lparr>qs_head = q_head q, qs_length = q_length q, qs_enqueued = q_enqueued q\<rparr>"

definition queue_restore :: "queue \<Rightarrow> queue_save \<Rightarrow> queue" where
  "queue_restore q save =
     q\<lparr>q_head := qs_head save, q_length := qs_length save, q_enqueued := qs_enqueued save\<rparr>"

definition queue_new :: "job list \<Rightarrow> queue" where
  "queue_new slots = \<lparr>q_slots = slots, q_head = 0, q_length = 0, q_enqueued = 0\<rparr>"

definition queue_push :: "queue \<Rightarrow> job \<Rightarrow> queue_error + queue" where
  "queue_push q job =
     (if q_slots q = [] \<or> q_length q = length (q_slots q) then Inl Full
      else
        (let at = (q_head q + q_length q) mod length (q_slots q) in
         if at < length (q_slots q) then
           Inr (q\<lparr>q_slots := (q_slots q)[at := job], q_length := q_length q + 1,
                  q_enqueued := sadd64 (q_enqueued q) 1\<rparr>)
         else Inl Full))"

definition queue_pop :: "queue \<Rightarrow> (job \<times> queue) option" where
  "queue_pop q =
     (if q_length q = 0 then None
      else
        (case get_at (q_slots q) (q_head q) of
           None \<Rightarrow> None
         | Some job \<Rightarrow>
             Some (job, q\<lparr>q_head := (q_head q + 1) mod max (length (q_slots q)) 1,
                          q_length := q_length q - 1\<rparr>)))"

text \<open>
  \<open>roots\<close> writes the handles of every queued job into \<open>out\<close> and answers how many it wrote; a
  handle past the end of \<open>out\<close> is dropped.
\<close>

fun write_roots :: "jsvalue list \<Rightarrow> handle list \<Rightarrow> nat \<Rightarrow> handle list \<times> nat" where
  "write_roots [] out written = (out, written)"
| "write_roots (v # vs) out written =
     (if holds_reference v \<and> written < length out
      then write_roots vs (out[written := as_handle v]) (written + 1)
      else write_roots vs out written)"

function roots_loop :: "queue \<Rightarrow> nat \<Rightarrow> handle list \<Rightarrow> nat \<Rightarrow> handle list \<times> nat" where
  "roots_loop q index out written =
     (if index < q_length q then
        (case get_at (q_slots q) ((q_head q + index) mod max (length (q_slots q)) 1) of
           None \<Rightarrow> roots_loop q (index + 1) out written
         | Some job \<Rightarrow>
             (let (out', written') =
                write_roots [j_target job, j_argument job, j_derived job] out written
              in roots_loop q (index + 1) out' written'))
      else (out, written))"
  by pat_completeness auto
termination
  by (relation "measure (\<lambda>(q, index, _). q_length q - index)") auto

declare roots_loop.simps [simp del]

definition queue_roots :: "queue \<Rightarrow> handle list \<Rightarrow> handle list \<times> nat" where
  "queue_roots q out = roots_loop q 0 out 0"

subsection \<open>The ring is a bounded queue\<close>

definition queue_wf :: "queue \<Rightarrow> bool" where
  "queue_wf q \<longleftrightarrow> q_length q \<le> length (q_slots q) \<and>
     (if q_slots q = [] then q_head q = 0 else q_head q < length (q_slots q))"

definition queue_contents :: "queue \<Rightarrow> job list" where
  "queue_contents q =
     map (\<lambda>i. q_slots q ! ((q_head q + i) mod length (q_slots q))) [0..<q_length q]"

definition queue_capacity :: "queue \<Rightarrow> nat" where
  "queue_capacity q = length (q_slots q)"

lemma queue_new_wf: "queue_wf (queue_new slots) \<and> queue_contents (queue_new slots) = []"
  by (simp add: queue_wf_def queue_new_def queue_contents_def)

lemma ring_index_inj:
  assumes "(h :: nat) < n" "i < n" "j < n" "(h + i) mod n = (h + j) mod n"
  shows "i = j"
proof -
  have "(int h + int i) mod int n = (int h + int j) mod int n"
    using assms(4) by (metis of_nat_add of_nat_mod)
  then have "int i mod int n = int j mod int n"
    by (metis add_diff_cancel_left' mod_diff_left_eq)
  with assms show ?thesis by simp
qed

lemma queue_push_Inr:
  "queue_wf q \<Longrightarrow> q_length q < length (q_slots q) \<Longrightarrow>
   queue_push q job = Inr (q\<lparr>q_slots := (q_slots q)[(q_head q + q_length q) mod length (q_slots q) := job],
     q_length := q_length q + 1, q_enqueued := sadd64 (q_enqueued q) 1\<rparr>)"
  by (auto simp: queue_push_def Let_def)

lemma queue_push_contents:
  assumes "queue_wf q" "queue_push q job = Inr q'"
  shows "queue_contents q' = queue_contents q @ [job]"
proof -
  let ?n = "length (q_slots q)"
  have lt: "q_length q < ?n" "q_head q < ?n" and pos: "0 < ?n"
    using assms by (auto simp: queue_wf_def queue_push_def split: if_splits)
  have q': "q' = q\<lparr>q_slots := (q_slots q)[(q_head q + q_length q) mod ?n := job],
     q_length := q_length q + 1, q_enqueued := sadd64 (q_enqueued q) 1\<rparr>"
    using assms(2) queue_push_Inr [OF assms(1) lt(1)] by simp
  have ne: "(q_head q + q_length q) mod ?n \<noteq> (q_head q + i) mod ?n" if "i < q_length q" for i
    using ring_index_inj [OF lt(2), of "q_length q" i] that lt by auto
  have "map (\<lambda>i. (q_slots q)[(q_head q + q_length q) mod ?n := job] ! ((q_head q + i) mod ?n))
      [0..<q_length q] = queue_contents q"
    unfolding queue_contents_def by (rule map_cong) (simp_all add: nth_list_update_neq [OF ne])
  then show ?thesis
    unfolding q' using pos by (simp add: queue_contents_def)
qed

lemma queue_pop_Some:
  assumes "queue_wf q" "queue_pop q = Some (job, q')"
  shows "queue_contents q = job # queue_contents q' \<and> queue_wf q' \<and> q_slots q' = q_slots q"
proof -
  let ?n = "length (q_slots q)"
  have lt: "0 < q_length q" "q_head q < ?n" and job: "job = q_slots q ! q_head q"
    and q': "q' = q\<lparr>q_head := (q_head q + 1) mod max ?n 1, q_length := q_length q - 1\<rparr>"
    using assms by (auto simp: queue_wf_def queue_pop_def slice_simps split: if_splits option.splits)
  have n: "max ?n 1 = ?n" using lt(2) by linarith
  have shift: "(Suc (q_head q) mod ?n + i) mod ?n = Suc (q_head q + i) mod ?n" for i
    by (metis add_Suc mod_add_left_eq)
  have "[0..<q_length q] = 0 # map Suc [0..<q_length q - 1]"
    using lt(1) by (metis map_Suc_upt One_nat_def Suc_pred upt_conv_Cons)
  then have "queue_contents q = job # queue_contents q'"
    unfolding queue_contents_def q' n using lt by (simp add: job shift del: upt_Suc)
  moreover have "queue_wf q'"
    unfolding q' n using assms(1) lt by (auto simp: queue_wf_def intro!: mod_less_divisor)
  ultimately show ?thesis by (simp add: q')
qed

interpretation ring: bounded_fifo queue_push queue_pop queue_contents queue_capacity queue_wf
proof (unfold_locales, goal_cases)
  case (1 q x)
  then show ?case
    by (auto simp: queue_wf_def queue_push_def queue_contents_def queue_capacity_def Let_def)
next
  case (2 q x q')
  then show ?case by (rule queue_push_contents)
next
  case (3 q x q')
  then show ?case
    by (auto simp: queue_wf_def queue_push_def queue_capacity_def Let_def split: if_splits)
next
  case (4 q)
  then show ?case
    by (auto simp: queue_wf_def queue_pop_def queue_contents_def get_at_def split: if_splits)
next
  case (5 q x q')
  then show ?case by (blast dest: queue_pop_Some)
next
  case (6 q x q')
  then show ?case by (auto simp: queue_capacity_def dest: queue_pop_Some)
qed

subsection \<open>The roots a queue holds\<close>

definition reference_handles :: "jsvalue list \<Rightarrow> handle list" where
  "reference_handles vs = map as_handle (filter holds_reference vs)"

definition job_handles :: "job \<Rightarrow> handle list" where
  "job_handles job = reference_handles [j_target job, j_argument job, j_derived job]"

lemma write_roots_spec:
  assumes "written \<le> length out" "write_roots vs out written = (out', written')"
  shows "length out' = length out \<and> written' \<le> length out \<and>
    take written' out' = take written out @ take (length out - written) (reference_handles vs)"
  using assms
proof (induction vs arbitrary: out written)
  case (Cons v vs)
  show ?case
  proof (cases "holds_reference v \<and> written < length out")
    case True
    then have rec: "write_roots vs (out[written := as_handle v]) (written + 1) = (out', written')"
      using Cons.prems(2) by simp
    have "take (written + 1) (out[written := as_handle v]) = take written out @ [as_handle v]"
      using True by (simp add: take_Suc_conv_app_nth)
    moreover have "length out - written = Suc (length out - (written + 1))"
      using True by arith
    ultimately show ?thesis
      using Cons.IH [OF _ rec] True by (simp add: reference_handles_def)
  next
    case False
    then have rec: "write_roots vs out written = (out', written')" using Cons.prems(2) by auto
    have "take (length out - written) (reference_handles (v # vs)) =
        take (length out - written) (reference_handles vs)"
      using False Cons.prems(1) by (auto simp: reference_handles_def)
    then show ?thesis using Cons.IH [OF Cons.prems(1) rec] by simp
  qed
qed (auto simp: reference_handles_def)

lemma queue_contents_drop:
  assumes "index < q_length q"
  shows "drop index (queue_contents q) =
    q_slots q ! ((q_head q + index) mod length (q_slots q)) # drop (index + 1) (queue_contents q)"
  using assms by (simp add: queue_contents_def Cons_nth_drop_Suc [symmetric])

lemma roots_loop_spec:
  assumes "queue_wf q" "written \<le> length out" "roots_loop q index out written = (out', written')"
  shows "length out' = length out \<and> written' \<le> length out \<and>
    take written' out' = take written out @
      take (length out - written) (concat (map job_handles (drop index (queue_contents q))))"
  using assms
proof (induction q index out written rule: roots_loop.induct)
  case (1 q index out written)
  show ?case
  proof (cases "index < q_length q")
    case True
    let ?at = "(q_head q + index) mod max (length (q_slots q)) 1"
    have n: "max (length (q_slots q)) 1 = length (q_slots q)" "?at < length (q_slots q)"
      using True "1.prems"(1) by (auto simp: queue_wf_def intro: mod_less_divisor)
    define job where "job = q_slots q ! ?at"
    obtain o1 w1 where
      one: "write_roots [j_target job, j_argument job, j_derived job] out written = (o1, w1)"
      by force
    have get: "get_at (q_slots q) ?at = Some job"
      unfolding job_def by (simp only: get_at_def n(2) if_True)
    have rec: "roots_loop q (index + 1) o1 w1 = (out', written')"
      using "1.prems"(3) True one get by (simp add: roots_loop.simps [of q index])
    note first = write_roots_spec [OF "1.prems"(2) one, folded job_handles_def]
    note rest = "1.IH"(2) [OF True get one [symmetric] refl "1.prems"(1) _ rec]
    have contents: "drop index (queue_contents q) = job # drop (index + 1) (queue_contents q)"
      unfolding job_def using queue_contents_drop [OF True] n(1) by simp
    have "length (take w1 o1) = length (take written out @ take (length out - written) (job_handles job))"
      using first by simp
    then have "w1 = min (length out) (written + length (job_handles job))"
      using conjunct1 [OF first] conjunct1 [OF conjunct2 [OF first]] "1.prems"(2)
      by (simp only: length_append length_take)
    then have "length out - w1 = length out - written - length (job_handles job)"
      using "1.prems"(2) by arith
    then show ?thesis
      using first rest unfolding contents by simp
  next
    case False
    then have "drop index (queue_contents q) = []" by (simp add: queue_contents_def)
    with False "1.prems" show ?thesis by (simp add: roots_loop.simps [of q index])
  qed
qed

lemma queue_roots_spec:
  assumes "queue_wf q" "queue_roots q out = (out', written)"
  shows "take written out' = take (length out) (concat (map job_handles (queue_contents q)))"
  using roots_loop_spec [OF assms(1), of 0 out 0 out' written] assms(2)
  by (simp add: queue_roots_def)

lemma length_concat_job_handles:
  "length (concat (map job_handles jobs)) \<le> 3 * length jobs"
proof (induction jobs)
  case (Cons job jobs)
  have "length (job_handles job) \<le> 3"
    by (simp add: job_handles_def reference_handles_def)
  with Cons show ?case by simp
qed simp

subsection \<open>Properties\<close>

text \<open>
  C5: jobs run in the order they were enqueued and none is lost or run twice. Over any
  interleaving of pushes and pops on a fresh ring, the jobs taken out, followed by the jobs still
  queued, are the accepted jobs in order.
\<close>

theorem queue_fifo:
  assumes "queue_run queue_push queue_pop (queue_new slots) ops = (accepted, taken, q)"
  shows "accepted = taken @ queue_contents q \<and> queue_wf q \<and> queue_capacity q = length slots"
  using ring.run_conserves [OF conjunct1 [OF queue_new_wf] assms] queue_new_wf [of slots]
  by (simp add: queue_capacity_def queue_new_def)

theorem queue_fifo_witness:
  "let (accepted, taken, q) =
     queue_run queue_push queue_pop (queue_new [job_empty, job_empty])
       [Push job_empty, Push (job_empty\<lparr>j_kind := Adopt\<rparr>), Push job_empty, Pop, Push job_empty]
   in accepted = taken @ queue_contents q \<and> queue_wf q \<and> queue_capacity q = 2"
  using queue_fifo [of "[job_empty, job_empty]"
      "[Push job_empty, Push (job_empty\<lparr>j_kind := Adopt\<rparr>), Push job_empty, Pop, Push job_empty]"]
  by (auto split: prod.splits)

text \<open>
  A push is refused exactly when the ring is full, and a refusal is the only failure: a
  well-formed ring with room takes the job at the back.
\<close>

lemma queue_push_full_iff:
  assumes "queue_wf q"
  shows "queue_push q job = Inl Full \<longleftrightarrow> length (queue_contents q) = queue_capacity q"
proof -
  have "length (queue_contents q) \<le> queue_capacity q"
    using assms by (simp add: queue_contents_def queue_wf_def queue_capacity_def)
  moreover have "(\<exists>q'. queue_push q job = Inr q') \<longleftrightarrow> queue_push q job \<noteq> Inl Full"
    by (cases "queue_push q job") (auto intro: queue_error.exhaust)
  ultimately show ?thesis using ring.push_accepts [OF assms, of job] by auto
qed

text \<open>
  C33: the collector sees every value a queued job holds. Given room for three handles a job,
  the roots written are exactly the handles of the queued jobs' references, in queue order.
\<close>

theorem queue_roots_complete:
  assumes "queue_wf q" "3 * q_length q \<le> length out" "queue_roots q out = (out', written)"
  shows "take written out' = concat (map job_handles (queue_contents q))"
proof -
  have "length (queue_contents q) = q_length q" by (simp add: queue_contents_def)
  then have "length (concat (map job_handles (queue_contents q))) \<le> length out"
    using length_concat_job_handles [of "queue_contents q"] assms(2) by simp
  then show ?thesis using queue_roots_spec [OF assms(1,3)] by simp
qed

text \<open>Two jobs in a ring of three that has wrapped: the first in the last slot, the second in the first.\<close>

definition wrapped_queue :: queue where
  "wrapped_queue =
     \<lparr>q_slots =
        [\<lparr>j_kind = Settle, j_target = v_object (handle_new 7 2), j_argument = v_undefined, j_derived = v_number 0\<rparr>,
         job_empty,
         \<lparr>j_kind = Reaction, j_target = v_object (handle_new 5 1), j_argument = v_string (handle_new 6 1), j_derived = v_undefined\<rparr>],
      q_head = 2, q_length = 2, q_enqueued = 4\<rparr>"

theorem queue_roots_complete_witness:
  "take (snd (queue_roots wrapped_queue (replicate 6 (handle_new 0 0)))) (fst (queue_roots wrapped_queue (replicate 6 (handle_new 0 0)))) =
   [handle_new 5 1, handle_new 6 1, handle_new 7 2]"
proof -
  have "take (snd (queue_roots wrapped_queue (replicate 6 (handle_new 0 0)))) (fst (queue_roots wrapped_queue (replicate 6 (handle_new 0 0)))) =
      concat (map job_handles (queue_contents wrapped_queue))"
    by (rule queue_roots_complete [of _ "replicate 6 (handle_new 0 0)"]) (simp_all add: queue_wf_def wrapped_queue_def)
  also have "\<dots> = [handle_new 5 1, handle_new 6 1, handle_new 7 2]" by code_simp
  finally show ?thesis .
qed

end
