(* ===== verification/Bytecode.thy ===== *)
theory Bytecode
  imports Phasor_Prelude
begin

text \<open>
  The instruction format of \<^verbatim>\<open>modules/common/bytecode.rs\<close>: operand widths and kinds, the
  opcode set with its byte table and operand signatures, the decoder, the operand-width rule the
  encoder uses, and the bytes the format digest is taken over.

  \<open>Opcode\<close> is a \<^verbatim>\<open>#[repr(u8)]\<close> enumeration of 168 variants, so an opcode is the number of
  its byte here: each variant is a named number, its discriminant, and \<open>byte\<close> is \<open>of_nat\<close>.
  \<open>from_byte\<close> and the signature table list the arms of the source's \<open>match\<close> in their order.
\<close>

subsection \<open>Widths and operand kinds\<close>

datatype width = Narrow | Wide | ExtraWide

fun width_bytes :: "width \<Rightarrow> nat" where
  "width_bytes Narrow = 1"
| "width_bytes Wide = 2"
| "width_bytes ExtraWide = 4"

abbreviation prefix_wide :: byte where "prefix_wide \<equiv> 0xFE"
abbreviation prefix_extra_wide :: byte where "prefix_extra_wide \<equiv> 0xFF"

datatype operand_kind = Register | Constant | Immediate | Count | Jump | Depth

record signature =
  sig_count :: nat
  sig_kinds :: "operand_kind list"

definition signature_new :: "nat \<Rightarrow> operand_kind list \<Rightarrow> signature" where
  "signature_new n kinds = \<lparr>sig_count = n, sig_kinds = kinds\<rparr>"

subsection \<open>The opcode set\<close>

type_synonym opcode = nat

abbreviation (input) Op_LdaUndefined :: opcode where "Op_LdaUndefined \<equiv> 0x00"
abbreviation (input) Op_LdaNull :: opcode where "Op_LdaNull \<equiv> 0x01"
abbreviation (input) Op_LdaTrue :: opcode where "Op_LdaTrue \<equiv> 0x02"
abbreviation (input) Op_LdaFalse :: opcode where "Op_LdaFalse \<equiv> 0x03"
abbreviation (input) Op_LdaZero :: opcode where "Op_LdaZero \<equiv> 0x04"
abbreviation (input) Op_LdaSmi :: opcode where "Op_LdaSmi \<equiv> 0x05"
abbreviation (input) Op_LdaConstant :: opcode where "Op_LdaConstant \<equiv> 0x06"
abbreviation (input) Op_Ldar :: opcode where "Op_Ldar \<equiv> 0x10"
abbreviation (input) Op_Star :: opcode where "Op_Star \<equiv> 0x11"
abbreviation (input) Op_Mov :: opcode where "Op_Mov \<equiv> 0x12"
abbreviation (input) Op_Add :: opcode where "Op_Add \<equiv> 0x20"
abbreviation (input) Op_Sub :: opcode where "Op_Sub \<equiv> 0x21"
abbreviation (input) Op_Mul :: opcode where "Op_Mul \<equiv> 0x22"
abbreviation (input) Op_Div :: opcode where "Op_Div \<equiv> 0x23"
abbreviation (input) Op_Mod :: opcode where "Op_Mod \<equiv> 0x24"
abbreviation (input) Op_Exp :: opcode where "Op_Exp \<equiv> 0x25"
abbreviation (input) Op_BitAnd :: opcode where "Op_BitAnd \<equiv> 0x26"
abbreviation (input) Op_BitOr :: opcode where "Op_BitOr \<equiv> 0x27"
abbreviation (input) Op_BitXor :: opcode where "Op_BitXor \<equiv> 0x28"
abbreviation (input) Op_ShiftLeft :: opcode where "Op_ShiftLeft \<equiv> 0x29"
abbreviation (input) Op_ShiftRight :: opcode where "Op_ShiftRight \<equiv> 0x2A"
abbreviation (input) Op_ShiftRightLogical :: opcode where "Op_ShiftRightLogical \<equiv> 0x2B"
abbreviation (input) Op_Inc :: opcode where "Op_Inc \<equiv> 0x30"
abbreviation (input) Op_Dec :: opcode where "Op_Dec \<equiv> 0x31"
abbreviation (input) Op_Negate :: opcode where "Op_Negate \<equiv> 0x32"
abbreviation (input) Op_BitNot :: opcode where "Op_BitNot \<equiv> 0x33"
abbreviation (input) Op_LogicalNot :: opcode where "Op_LogicalNot \<equiv> 0x34"
abbreviation (input) Op_TypeOf :: opcode where "Op_TypeOf \<equiv> 0x35"
abbreviation (input) Op_ToNumeric :: opcode where "Op_ToNumeric \<equiv> 0x36"
abbreviation (input) Op_ToString :: opcode where "Op_ToString \<equiv> 0x37"
abbreviation (input) Op_ToPropertyKey :: opcode where "Op_ToPropertyKey \<equiv> 0x38"
abbreviation (input) Op_ToPropertyKeyChecked :: opcode where "Op_ToPropertyKeyChecked \<equiv> 0x39"
abbreviation (input) Op_StaGlobalStrict :: opcode where "Op_StaGlobalStrict \<equiv> 0x3A"
abbreviation (input) Op_DefineNamedGetter :: opcode where "Op_DefineNamedGetter \<equiv> 0x3B"
abbreviation (input) Op_DefineNamedSetter :: opcode where "Op_DefineNamedSetter \<equiv> 0x3C"
abbreviation (input) Op_DefineKeyedGetter :: opcode where "Op_DefineKeyedGetter \<equiv> 0x3D"
abbreviation (input) Op_DefineKeyedSetter :: opcode where "Op_DefineKeyedSetter \<equiv> 0x3E"
abbreviation (input) Op_JumpIfNotUndefined :: opcode where "Op_JumpIfNotUndefined \<equiv> 0x99"
abbreviation (input) Op_CreateRestArguments :: opcode where "Op_CreateRestArguments \<equiv> 0x9A"
abbreviation (input) Op_LdaDynamic :: opcode where "Op_LdaDynamic \<equiv> 0x9B"
abbreviation (input) Op_StaDynamic :: opcode where "Op_StaDynamic \<equiv> 0x9C"
abbreviation (input) Op_TypeofDynamic :: opcode where "Op_TypeofDynamic \<equiv> 0x9D"
abbreviation (input) Op_DeclareEvalVar :: opcode where "Op_DeclareEvalVar \<equiv> 0x9E"
abbreviation (input) Op_DeleteDynamic :: opcode where "Op_DeleteDynamic \<equiv> 0x9F"
abbreviation (input) Op_Await :: opcode where "Op_Await \<equiv> 0xA0"
abbreviation (input) Op_LdaShadowable :: opcode where "Op_LdaShadowable \<equiv> 0xA1"
abbreviation (input) Op_StaShadowable :: opcode where "Op_StaShadowable \<equiv> 0xA2"
abbreviation (input) Op_PrepareShadowable :: opcode where "Op_PrepareShadowable \<equiv> 0xA3"
abbreviation (input) Op_LdaPrepared :: opcode where "Op_LdaPrepared \<equiv> 0xA4"
abbreviation (input) Op_StaPrepared :: opcode where "Op_StaPrepared \<equiv> 0xA5"
abbreviation (input) Op_CreateDefaultConstructor :: opcode where "Op_CreateDefaultConstructor \<equiv> 0xA6"
abbreviation (input) Op_MakeClassConstructor :: opcode where "Op_MakeClassConstructor \<equiv> 0xA7"
abbreviation (input) Op_DefineMethod :: opcode where "Op_DefineMethod \<equiv> 0xA8"
abbreviation (input) Op_DefineMethodKeyed :: opcode where "Op_DefineMethodKeyed \<equiv> 0xA9"
abbreviation (input) Op_DefineClassAccessor :: opcode where "Op_DefineClassAccessor \<equiv> 0xAA"
abbreviation (input) Op_DefineClassAccessorKeyed :: opcode where "Op_DefineClassAccessorKeyed \<equiv> 0xAB"
abbreviation (input) Op_LdaSuperProperty :: opcode where "Op_LdaSuperProperty \<equiv> 0xAC"
abbreviation (input) Op_CallSuper :: opcode where "Op_CallSuper \<equiv> 0xAD"
abbreviation (input) Op_LdaNewTarget :: opcode where "Op_LdaNewTarget \<equiv> 0xAE"
abbreviation (input) Op_GetHeritagePrototype :: opcode where "Op_GetHeritagePrototype \<equiv> 0xAF"
abbreviation (input) Op_Yield :: opcode where "Op_Yield \<equiv> 0xB0"
abbreviation (input) Op_InitialYield :: opcode where "Op_InitialYield \<equiv> 0xB1"
abbreviation (input) Op_PushObjectContext :: opcode where "Op_PushObjectContext \<equiv> 0xB2"
abbreviation (input) Op_InitFields :: opcode where "Op_InitFields \<equiv> 0xB3"
abbreviation (input) Op_IteratorClose :: opcode where "Op_IteratorClose \<equiv> 0xB4"
abbreviation (input) Op_IteratorCloseQuiet :: opcode where "Op_IteratorCloseQuiet \<equiv> 0xB5"
abbreviation (input) Op_RequireObject :: opcode where "Op_RequireObject \<equiv> 0xB6"
abbreviation (input) Op_BindThis :: opcode where "Op_BindThis \<equiv> 0xB7"
abbreviation (input) Op_ConstructWithArray :: opcode where "Op_ConstructWithArray \<equiv> 0xB8"
abbreviation (input) Op_CallSuperWithArray :: opcode where "Op_CallSuperWithArray \<equiv> 0xB9"
abbreviation (input) Op_ImportReject :: opcode where "Op_ImportReject \<equiv> 0xBA"
abbreviation (input) Op_GetAsyncIterator :: opcode where "Op_GetAsyncIterator \<equiv> 0xBB"
abbreviation (input) Op_YieldStar :: opcode where "Op_YieldStar \<equiv> 0xBC"
abbreviation (input) Op_ResumeKind :: opcode where "Op_ResumeKind \<equiv> 0xBD"
abbreviation (input) Op_DeclareGlobalFunction :: opcode where "Op_DeclareGlobalFunction \<equiv> 0xBE"
abbreviation (input) Op_DefineField :: opcode where "Op_DefineField \<equiv> 0xBF"
abbreviation (input) Op_SetHome :: opcode where "Op_SetHome \<equiv> 0xC0"
abbreviation (input) Op_Brand :: opcode where "Op_Brand \<equiv> 0xC1"
abbreviation (input) Op_TestPrivateIn :: opcode where "Op_TestPrivateIn \<equiv> 0xC2"
abbreviation (input) Op_LdaSuperKeyed :: opcode where "Op_LdaSuperKeyed \<equiv> 0xC3"
abbreviation (input) Op_PrivateKey :: opcode where "Op_PrivateKey \<equiv> 0xC4"
abbreviation (input) Op_GetSuperBase :: opcode where "Op_GetSuperBase \<equiv> 0xC5"
abbreviation (input) Op_ThrowReference :: opcode where "Op_ThrowReference \<equiv> 0xC6"
abbreviation (input) Op_CacheTemplate :: opcode where "Op_CacheTemplate \<equiv> 0xC7"
abbreviation (input) Op_ThrowSelfAssignment :: opcode where "Op_ThrowSelfAssignment \<equiv> 0xC8"
abbreviation (input) Op_YieldDelegate :: opcode where "Op_YieldDelegate \<equiv> 0xC9"
abbreviation (input) Op_ToNumber :: opcode where "Op_ToNumber \<equiv> 0xCA"
abbreviation (input) Op_ForInHas :: opcode where "Op_ForInHas \<equiv> 0xCB"
abbreviation (input) Op_LdaWithReceiver :: opcode where "Op_LdaWithReceiver \<equiv> 0xCC"
abbreviation (input) Op_StaSuperNamed :: opcode where "Op_StaSuperNamed \<equiv> 0xCD"
abbreviation (input) Op_StaSuperKeyed :: opcode where "Op_StaSuperKeyed \<equiv> 0xCE"
abbreviation (input) Op_CreateDisposeStack :: opcode where "Op_CreateDisposeStack \<equiv> 0xCF"
abbreviation (input) Op_AddDisposable :: opcode where "Op_AddDisposable \<equiv> 0xD0"
abbreviation (input) Op_DisposeStack :: opcode where "Op_DisposeStack \<equiv> 0xD1"
abbreviation (input) Op_DisposeStackThrow :: opcode where "Op_DisposeStackThrow \<equiv> 0xD2"
abbreviation (input) Op_AddDisposableAsync :: opcode where "Op_AddDisposableAsync \<equiv> 0xD3"
abbreviation (input) Op_DisposeStackNext :: opcode where "Op_DisposeStackNext \<equiv> 0xD4"
abbreviation (input) Op_SuppressError :: opcode where "Op_SuppressError \<equiv> 0xD5"
abbreviation (input) Op_CheckGlobalLexical :: opcode where "Op_CheckGlobalLexical \<equiv> 0xD6"
abbreviation (input) Op_CheckGlobalVar :: opcode where "Op_CheckGlobalVar \<equiv> 0xD7"
abbreviation (input) Op_DeclareGlobalLexical :: opcode where "Op_DeclareGlobalLexical \<equiv> 0xD8"
abbreviation (input) Op_InitGlobalLexical :: opcode where "Op_InitGlobalLexical \<equiv> 0xD9"
abbreviation (input) Op_HasGlobal :: opcode where "Op_HasGlobal \<equiv> 0xDA"
abbreviation (input) Op_StaGlobalResolved :: opcode where "Op_StaGlobalResolved \<equiv> 0xDB"
abbreviation (input) Op_CopyDataPropertiesExcluding :: opcode where "Op_CopyDataPropertiesExcluding \<equiv> 0xDC"
abbreviation (input) Op_LdaDynamicCallee :: opcode where "Op_LdaDynamicCallee \<equiv> 0xDD"
abbreviation (input) Op_NameClosureKeyed :: opcode where "Op_NameClosureKeyed \<equiv> 0xDE"
abbreviation (input) Op_DefineAutoAccessor :: opcode where "Op_DefineAutoAccessor \<equiv> 0xE0"
abbreviation (input) Op_DynamicImport :: opcode where "Op_DynamicImport \<equiv> 0xE1"
abbreviation (input) Op_InstantiationEnd :: opcode where "Op_InstantiationEnd \<equiv> 0xE2"
abbreviation (input) Op_StepNativeIterator :: opcode where "Op_StepNativeIterator \<equiv> 0xE3"
abbreviation (input) Op_NameClosure :: opcode where "Op_NameClosure \<equiv> 0x3F"
abbreviation (input) Op_TestEqual :: opcode where "Op_TestEqual \<equiv> 0x40"
abbreviation (input) Op_TestNotEqual :: opcode where "Op_TestNotEqual \<equiv> 0x41"
abbreviation (input) Op_TestStrictEqual :: opcode where "Op_TestStrictEqual \<equiv> 0x42"
abbreviation (input) Op_TestStrictNotEqual :: opcode where "Op_TestStrictNotEqual \<equiv> 0x43"
abbreviation (input) Op_TestLess :: opcode where "Op_TestLess \<equiv> 0x44"
abbreviation (input) Op_TestGreater :: opcode where "Op_TestGreater \<equiv> 0x45"
abbreviation (input) Op_TestLessEqual :: opcode where "Op_TestLessEqual \<equiv> 0x46"
abbreviation (input) Op_TestGreaterEqual :: opcode where "Op_TestGreaterEqual \<equiv> 0x47"
abbreviation (input) Op_TestInstanceOf :: opcode where "Op_TestInstanceOf \<equiv> 0x48"
abbreviation (input) Op_TestIn :: opcode where "Op_TestIn \<equiv> 0x49"
abbreviation (input) Op_GetNamedProperty :: opcode where "Op_GetNamedProperty \<equiv> 0x50"
abbreviation (input) Op_GetKeyedProperty :: opcode where "Op_GetKeyedProperty \<equiv> 0x51"
abbreviation (input) Op_SetNamedProperty :: opcode where "Op_SetNamedProperty \<equiv> 0x52"
abbreviation (input) Op_SetKeyedProperty :: opcode where "Op_SetKeyedProperty \<equiv> 0x53"
abbreviation (input) Op_DeleteNamedProperty :: opcode where "Op_DeleteNamedProperty \<equiv> 0x54"
abbreviation (input) Op_DeleteKeyedProperty :: opcode where "Op_DeleteKeyedProperty \<equiv> 0x55"
abbreviation (input) Op_LdaGlobal :: opcode where "Op_LdaGlobal \<equiv> 0x60"
abbreviation (input) Op_StaGlobal :: opcode where "Op_StaGlobal \<equiv> 0x61"
abbreviation (input) Op_LdaContextSlot :: opcode where "Op_LdaContextSlot \<equiv> 0x62"
abbreviation (input) Op_StaContextSlot :: opcode where "Op_StaContextSlot \<equiv> 0x63"
abbreviation (input) Op_PushContext :: opcode where "Op_PushContext \<equiv> 0x64"
abbreviation (input) Op_PopContext :: opcode where "Op_PopContext \<equiv> 0x65"
abbreviation (input) Op_LdaGlobalOrUndefined :: opcode where "Op_LdaGlobalOrUndefined \<equiv> 0x66"
abbreviation (input) Op_InitContextSlot :: opcode where "Op_InitContextSlot \<equiv> 0x67"
abbreviation (input) Op_CreateClosure :: opcode where "Op_CreateClosure \<equiv> 0x68"
abbreviation (input) Op_LdaImport :: opcode where "Op_LdaImport \<equiv> 0x79"
abbreviation (input) Op_CreateRegExp :: opcode where "Op_CreateRegExp \<equiv> 0x6F"
abbreviation (input) Op_LdaThis :: opcode where "Op_LdaThis \<equiv> 0x69"
abbreviation (input) Op_DeclareGlobal :: opcode where "Op_DeclareGlobal \<equiv> 0x6A"
abbreviation (input) Op_LdaCallee :: opcode where "Op_LdaCallee \<equiv> 0x6B"
abbreviation (input) Op_GetIterator :: opcode where "Op_GetIterator \<equiv> 0x6C"
abbreviation (input) Op_IteratorNext :: opcode where "Op_IteratorNext \<equiv> 0x6D"
abbreviation (input) Op_GetEnumerable :: opcode where "Op_GetEnumerable \<equiv> 0x6E"
abbreviation (input) Op_CreateEmptyArray :: opcode where "Op_CreateEmptyArray \<equiv> 0x70"
abbreviation (input) Op_CreateEmptyObject :: opcode where "Op_CreateEmptyObject \<equiv> 0x71"
abbreviation (input) Op_AppendArrayElement :: opcode where "Op_AppendArrayElement \<equiv> 0x72"
abbreviation (input) Op_AppendArrayHole :: opcode where "Op_AppendArrayHole \<equiv> 0x74"
abbreviation (input) Op_DefineNamedProperty :: opcode where "Op_DefineNamedProperty \<equiv> 0x75"
abbreviation (input) Op_DefineKeyedProperty :: opcode where "Op_DefineKeyedProperty \<equiv> 0x76"
abbreviation (input) Op_CopyDataProperties :: opcode where "Op_CopyDataProperties \<equiv> 0x77"
abbreviation (input) Op_CreateArguments :: opcode where "Op_CreateArguments \<equiv> 0x78"
abbreviation (input) Op_SetPrototype :: opcode where "Op_SetPrototype \<equiv> 0x73"
abbreviation (input) Op_Call :: opcode where "Op_Call \<equiv> 0x80"
abbreviation (input) Op_CallProperty :: opcode where "Op_CallProperty \<equiv> 0x81"
abbreviation (input) Op_TailCall :: opcode where "Op_TailCall \<equiv> 0xDF"
abbreviation (input) Op_Construct :: opcode where "Op_Construct \<equiv> 0x82"
abbreviation (input) Op_CallWithArray :: opcode where "Op_CallWithArray \<equiv> 0x83"
abbreviation (input) Op_Jump :: opcode where "Op_Jump \<equiv> 0x90"
abbreviation (input) Op_JumpIfTrue :: opcode where "Op_JumpIfTrue \<equiv> 0x91"
abbreviation (input) Op_JumpIfFalse :: opcode where "Op_JumpIfFalse \<equiv> 0x92"
abbreviation (input) Op_JumpIfToBooleanTrue :: opcode where "Op_JumpIfToBooleanTrue \<equiv> 0x93"
abbreviation (input) Op_JumpIfToBooleanFalse :: opcode where "Op_JumpIfToBooleanFalse \<equiv> 0x94"
abbreviation (input) Op_JumpIfNullish :: opcode where "Op_JumpIfNullish \<equiv> 0x95"
abbreviation (input) Op_JumpIfNotNullish :: opcode where "Op_JumpIfNotNullish \<equiv> 0x96"
abbreviation (input) Op_Return :: opcode where "Op_Return \<equiv> 0x97"
abbreviation (input) Op_Throw :: opcode where "Op_Throw \<equiv> 0x98"

text \<open>The variants of the enumeration.\<close>

definition opcode_bytes :: "opcode list" where
  "opcode_bytes =
     [Op_LdaUndefined, Op_LdaNull, Op_LdaTrue, Op_LdaFalse, Op_LdaZero, Op_LdaSmi,
      Op_LdaConstant, Op_Ldar, Op_Star, Op_Mov, Op_Add, Op_Sub, Op_Mul, Op_Div, Op_Mod,
      Op_Exp, Op_BitAnd, Op_BitOr, Op_BitXor, Op_ShiftLeft, Op_ShiftRight,
      Op_ShiftRightLogical, Op_Inc, Op_Dec, Op_Negate, Op_BitNot, Op_LogicalNot, Op_TypeOf,
      Op_ToNumeric, Op_ToString, Op_ToPropertyKey, Op_ToPropertyKeyChecked,
      Op_StaGlobalStrict, Op_DefineNamedGetter, Op_DefineNamedSetter, Op_DefineKeyedGetter,
      Op_DefineKeyedSetter, Op_NameClosure, Op_JumpIfNotUndefined, Op_CreateRestArguments,
      Op_LdaDynamic, Op_StaDynamic, Op_TypeofDynamic, Op_DeclareEvalVar, Op_DeleteDynamic,
      Op_Await, Op_LdaShadowable, Op_StaShadowable, Op_PrepareShadowable, Op_LdaPrepared,
      Op_StaPrepared, Op_CreateDefaultConstructor, Op_MakeClassConstructor, Op_DefineMethod,
      Op_DefineMethodKeyed, Op_DefineClassAccessor, Op_DefineClassAccessorKeyed,
      Op_LdaSuperProperty, Op_CallSuper, Op_LdaNewTarget, Op_GetHeritagePrototype, Op_Yield,
      Op_InitialYield, Op_PushObjectContext, Op_InitFields, Op_IteratorClose,
      Op_IteratorCloseQuiet, Op_RequireObject, Op_BindThis, Op_ConstructWithArray,
      Op_CallSuperWithArray, Op_ImportReject, Op_GetAsyncIterator, Op_YieldStar,
      Op_ResumeKind, Op_DeclareGlobalFunction, Op_DefineField, Op_SetHome, Op_Brand,
      Op_TestPrivateIn, Op_LdaSuperKeyed, Op_PrivateKey, Op_GetSuperBase, Op_ThrowReference,
      Op_CacheTemplate, Op_ThrowSelfAssignment, Op_YieldDelegate, Op_ToNumber, Op_ForInHas,
      Op_LdaWithReceiver, Op_StaSuperNamed, Op_StaSuperKeyed, Op_CreateDisposeStack,
      Op_AddDisposable, Op_DisposeStack, Op_DisposeStackThrow, Op_AddDisposableAsync,
      Op_DisposeStackNext, Op_SuppressError, Op_CheckGlobalLexical, Op_CheckGlobalVar,
      Op_DeclareGlobalLexical, Op_InitGlobalLexical, Op_HasGlobal, Op_StaGlobalResolved,
      Op_CopyDataPropertiesExcluding, Op_LdaDynamicCallee, Op_NameClosureKeyed,
      Op_DefineAutoAccessor, Op_DynamicImport, Op_InstantiationEnd, Op_StepNativeIterator,
      Op_TestEqual, Op_TestNotEqual, Op_TestStrictEqual, Op_TestStrictNotEqual, Op_TestLess,
      Op_TestGreater, Op_TestLessEqual, Op_TestGreaterEqual, Op_TestInstanceOf, Op_TestIn,
      Op_GetNamedProperty, Op_GetKeyedProperty, Op_SetNamedProperty, Op_SetKeyedProperty,
      Op_DeleteNamedProperty, Op_DeleteKeyedProperty, Op_LdaGlobal, Op_StaGlobal,
      Op_LdaContextSlot, Op_StaContextSlot, Op_PushContext, Op_PopContext,
      Op_LdaGlobalOrUndefined, Op_InitContextSlot, Op_CreateClosure, Op_LdaThis,
      Op_DeclareGlobal, Op_LdaCallee, Op_GetIterator, Op_IteratorNext, Op_GetEnumerable,
      Op_CreateRegExp, Op_LdaImport, Op_CreateEmptyArray, Op_CreateEmptyObject,
      Op_AppendArrayElement, Op_AppendArrayHole, Op_DefineNamedProperty,
      Op_DefineKeyedProperty, Op_CopyDataProperties, Op_CreateArguments, Op_SetPrototype,
      Op_Call, Op_CallProperty, Op_TailCall, Op_Construct, Op_CallWithArray, Op_Jump,
      Op_JumpIfTrue, Op_JumpIfFalse, Op_JumpIfToBooleanTrue, Op_JumpIfToBooleanFalse,
      Op_JumpIfNullish, Op_JumpIfNotNullish, Op_Return, Op_Throw]"

text \<open>The arms of \<open>Opcode::from_byte\<close>, in the order of the source.\<close>

definition opcode_arms :: "(nat \<times> opcode) list" where
  "opcode_arms =
     [(0x00, Op_LdaUndefined), (0x01, Op_LdaNull), (0x02, Op_LdaTrue), (0x03, Op_LdaFalse),
      (0x04, Op_LdaZero), (0x05, Op_LdaSmi), (0x06, Op_LdaConstant), (0x10, Op_Ldar),
      (0x11, Op_Star), (0x12, Op_Mov), (0x20, Op_Add), (0x21, Op_Sub), (0x22, Op_Mul),
      (0x23, Op_Div), (0x24, Op_Mod), (0x25, Op_Exp), (0x26, Op_BitAnd), (0x27, Op_BitOr),
      (0x28, Op_BitXor), (0x29, Op_ShiftLeft), (0x2A, Op_ShiftRight),
      (0x2B, Op_ShiftRightLogical), (0x30, Op_Inc), (0x31, Op_Dec), (0x32, Op_Negate),
      (0x33, Op_BitNot), (0x34, Op_LogicalNot), (0x35, Op_TypeOf), (0x36, Op_ToNumeric),
      (0x37, Op_ToString), (0x38, Op_ToPropertyKey), (0x39, Op_ToPropertyKeyChecked),
      (0x3A, Op_StaGlobalStrict), (0x3B, Op_DefineNamedGetter), (0x3C, Op_DefineNamedSetter),
      (0x3D, Op_DefineKeyedGetter), (0x3E, Op_DefineKeyedSetter), (0x3F, Op_NameClosure),
      (0x99, Op_JumpIfNotUndefined), (0x9A, Op_CreateRestArguments), (0x9B, Op_LdaDynamic),
      (0x9C, Op_StaDynamic), (0x9D, Op_TypeofDynamic), (0x9E, Op_DeclareEvalVar),
      (0x9F, Op_DeleteDynamic), (0xA0, Op_Await), (0xA1, Op_LdaShadowable),
      (0xA2, Op_StaShadowable), (0xA3, Op_PrepareShadowable), (0xA4, Op_LdaPrepared),
      (0xA5, Op_StaPrepared), (0xA6, Op_CreateDefaultConstructor),
      (0xA7, Op_MakeClassConstructor), (0xA8, Op_DefineMethod), (0xA9, Op_DefineMethodKeyed),
      (0xAA, Op_DefineClassAccessor), (0xAB, Op_DefineClassAccessorKeyed),
      (0xAC, Op_LdaSuperProperty), (0xAD, Op_CallSuper), (0xAE, Op_LdaNewTarget),
      (0xAF, Op_GetHeritagePrototype), (0xB0, Op_Yield), (0xB1, Op_InitialYield),
      (0xB2, Op_PushObjectContext), (0xB3, Op_InitFields), (0xB4, Op_IteratorClose),
      (0xB5, Op_IteratorCloseQuiet), (0xB6, Op_RequireObject), (0xB7, Op_BindThis),
      (0xB8, Op_ConstructWithArray), (0xB9, Op_CallSuperWithArray), (0xBA, Op_ImportReject),
      (0xBB, Op_GetAsyncIterator), (0xBC, Op_YieldStar), (0xBD, Op_ResumeKind),
      (0xBE, Op_DeclareGlobalFunction), (0xBF, Op_DefineField), (0xC0, Op_SetHome),
      (0xC1, Op_Brand), (0xC2, Op_TestPrivateIn), (0xC3, Op_LdaSuperKeyed),
      (0xC4, Op_PrivateKey), (0xC5, Op_GetSuperBase), (0xC6, Op_ThrowReference),
      (0xC7, Op_CacheTemplate), (0xC8, Op_ThrowSelfAssignment), (0xC9, Op_YieldDelegate),
      (0xCA, Op_ToNumber), (0xCB, Op_ForInHas), (0xCC, Op_LdaWithReceiver),
      (0xCD, Op_StaSuperNamed), (0xCE, Op_StaSuperKeyed), (0xCF, Op_CreateDisposeStack),
      (0xD0, Op_AddDisposable), (0xD1, Op_DisposeStack), (0xD2, Op_DisposeStackThrow),
      (0xD3, Op_AddDisposableAsync), (0xD4, Op_DisposeStackNext), (0xD5, Op_SuppressError),
      (0xD6, Op_CheckGlobalLexical), (0xD7, Op_CheckGlobalVar), (0xD8, Op_DeclareGlobalLexical),
      (0xD9, Op_InitGlobalLexical), (0xDA, Op_HasGlobal), (0xDB, Op_StaGlobalResolved),
      (0xDC, Op_CopyDataPropertiesExcluding), (0xDD, Op_LdaDynamicCallee),
      (0xDE, Op_NameClosureKeyed), (0xE0, Op_DefineAutoAccessor), (0xE1, Op_DynamicImport),
      (0xE2, Op_InstantiationEnd), (0xE3, Op_StepNativeIterator), (0x40, Op_TestEqual),
      (0x41, Op_TestNotEqual), (0x42, Op_TestStrictEqual), (0x43, Op_TestStrictNotEqual),
      (0x44, Op_TestLess), (0x45, Op_TestGreater), (0x46, Op_TestLessEqual),
      (0x47, Op_TestGreaterEqual), (0x48, Op_TestInstanceOf), (0x49, Op_TestIn),
      (0x50, Op_GetNamedProperty), (0x51, Op_GetKeyedProperty), (0x52, Op_SetNamedProperty),
      (0x53, Op_SetKeyedProperty), (0x54, Op_DeleteNamedProperty),
      (0x55, Op_DeleteKeyedProperty), (0x60, Op_LdaGlobal), (0x61, Op_StaGlobal),
      (0x62, Op_LdaContextSlot), (0x63, Op_StaContextSlot), (0x64, Op_PushContext),
      (0x65, Op_PopContext), (0x66, Op_LdaGlobalOrUndefined), (0x67, Op_InitContextSlot),
      (0x68, Op_CreateClosure), (0x69, Op_LdaThis), (0x6A, Op_DeclareGlobal),
      (0x6B, Op_LdaCallee), (0x6C, Op_GetIterator), (0x6D, Op_IteratorNext),
      (0x6E, Op_GetEnumerable), (0x6F, Op_CreateRegExp), (0x79, Op_LdaImport),
      (0x70, Op_CreateEmptyArray), (0x71, Op_CreateEmptyObject), (0x72, Op_AppendArrayElement),
      (0x74, Op_AppendArrayHole), (0x75, Op_DefineNamedProperty), (0x76, Op_DefineKeyedProperty),
      (0x77, Op_CopyDataProperties), (0x78, Op_CreateArguments), (0x73, Op_SetPrototype),
      (0x80, Op_Call), (0x81, Op_CallProperty), (0xDF, Op_TailCall), (0x82, Op_Construct),
      (0x83, Op_CallWithArray), (0x90, Op_Jump), (0x91, Op_JumpIfTrue), (0x92, Op_JumpIfFalse),
      (0x93, Op_JumpIfToBooleanTrue), (0x94, Op_JumpIfToBooleanFalse), (0x95, Op_JumpIfNullish),
      (0x96, Op_JumpIfNotNullish), (0x97, Op_Return), (0x98, Op_Throw)]"

definition opcode_from_byte :: "byte \<Rightarrow> opcode option" where
  "opcode_from_byte b = map_of opcode_arms (unat b)"

definition opcode_byte :: "opcode \<Rightarrow> byte" where
  "opcode_byte oc = of_nat oc"

text \<open>The arms of \<open>Opcode::signature\<close>; the unused places of the array hold \<open>Count\<close>.\<close>

definition signature_arms :: "(opcode list \<times> signature) list" where
  "signature_arms =
     [([Op_LdaUndefined, Op_LdaNull, Op_LdaTrue, Op_LdaFalse, Op_LdaZero, Op_Inc, Op_Dec,
        Op_Negate, Op_BitNot, Op_LogicalNot, Op_TypeOf, Op_ToNumeric, Op_ToString,
        Op_ToPropertyKey, Op_CreateEmptyArray, Op_CreateEmptyObject, Op_PopContext,
        Op_LdaThis, Op_LdaCallee, Op_GetIterator, Op_GetEnumerable, Op_Return, Op_Throw,
        Op_Await, Op_Yield, Op_InitialYield, Op_PushObjectContext, Op_InitFields,
        Op_RequireObject, Op_BindThis, Op_ImportReject, Op_GetAsyncIterator, Op_YieldStar,
        Op_ResumeKind, Op_Brand, Op_GetSuperBase, Op_ThrowReference,
        Op_ThrowSelfAssignment, Op_YieldDelegate, Op_ToNumber, Op_InstantiationEnd],
       signature_new 0 [Count, Count, Count]),
      ([Op_ForInHas],
       signature_new 1 [Register, Count, Count]),
      ([Op_LdaSmi, Op_CacheTemplate],
       signature_new 1 [Immediate, Count, Count]),
      ([Op_DynamicImport],
       signature_new 2 [Immediate, Register, Count]),
      ([Op_LdaConstant, Op_LdaGlobal, Op_LdaGlobalOrUndefined, Op_StaGlobal,
        Op_StaGlobalStrict, Op_DeclareGlobal, Op_NameClosure, Op_DeleteNamedProperty,
        Op_LdaDynamic, Op_LdaWithReceiver, Op_StaDynamic, Op_TypeofDynamic,
        Op_DeclareEvalVar, Op_DeleteDynamic, Op_TestPrivateIn],
       signature_new 1 [Constant, Count, Count]),
      ([Op_DeclareGlobalFunction, Op_DeclareGlobalLexical],
       signature_new 2 [Constant, Immediate, Count]),
      ([Op_CheckGlobalLexical, Op_CheckGlobalVar, Op_InitGlobalLexical, Op_HasGlobal],
       signature_new 1 [Constant, Count, Count]),
      ([Op_StaGlobalResolved, Op_LdaDynamicCallee],
       signature_new 2 [Constant, Register, Count]),
      ([Op_Ldar, Op_Star, Op_Add, Op_Sub, Op_Mul, Op_Div, Op_Mod, Op_Exp, Op_BitAnd,
        Op_BitOr, Op_BitXor, Op_ShiftLeft, Op_ShiftRight, Op_ShiftRightLogical,
        Op_TestEqual, Op_TestNotEqual, Op_TestStrictEqual, Op_TestStrictNotEqual,
        Op_TestLess, Op_TestGreater, Op_TestLessEqual, Op_TestGreaterEqual,
        Op_TestInstanceOf, Op_TestIn, Op_GetKeyedProperty, Op_AppendArrayElement,
        Op_AppendArrayHole, Op_CopyDataProperties, Op_NameClosureKeyed,
        Op_DeleteKeyedProperty],
       signature_new 1 [Register, Count, Count]),
      ([Op_PushContext],
       signature_new 1 [Count, Count, Count]),
      ([Op_IteratorNext, Op_IteratorClose, Op_IteratorCloseQuiet, Op_ConstructWithArray],
       signature_new 2 [Register, Register, Count]),
      ([Op_CallSuperWithArray],
       signature_new 1 [Register, Count, Count]),
      ([Op_DefineField],
       signature_new 1 [Register, Count, Count]),
      ([Op_SetHome],
       signature_new 1 [Register, Count, Count]),
      ([Op_PrivateKey],
       signature_new 2 [Register, Immediate, Count]),
      ([Op_LdaSuperKeyed],
       signature_new 1 [Register, Count, Count]),
      ([Op_Jump, Op_JumpIfTrue, Op_JumpIfFalse, Op_JumpIfToBooleanTrue,
        Op_JumpIfToBooleanFalse, Op_JumpIfNullish, Op_JumpIfNotNullish,
        Op_JumpIfNotUndefined],
       signature_new 1 [Jump, Count, Count]),
      ([Op_Mov],
       signature_new 2 [Register, Register, Count]),
      ([Op_StaSuperNamed],
       signature_new 2 [Register, Constant, Count]),
      ([Op_StaSuperKeyed, Op_DisposeStackThrow, Op_DisposeStackNext],
       signature_new 2 [Register, Register, Count]),
      ([Op_SuppressError],
       signature_new 3 [Register, Register, Register]),
      ([Op_CreateDisposeStack],
       signature_new 0 [Count, Count, Count]),
      ([Op_AddDisposable, Op_AddDisposableAsync, Op_DisposeStack],
       signature_new 1 [Register, Count, Count]),
      ([Op_GetNamedProperty, Op_SetNamedProperty, Op_DefineNamedProperty,
        Op_DefineNamedGetter, Op_DefineNamedSetter],
       signature_new 2 [Register, Constant, Count]),
      ([Op_SetKeyedProperty, Op_DefineKeyedProperty, Op_DefineKeyedGetter,
        Op_DefineKeyedSetter, Op_CopyDataPropertiesExcluding, Op_DefineAutoAccessor],
       signature_new 2 [Register, Register, Count]),
      ([Op_LdaContextSlot, Op_StaContextSlot, Op_InitContextSlot],
       signature_new 2 [Count, Depth, Count]),
      ([Op_LdaShadowable, Op_StaShadowable],
       signature_new 3 [Constant, Count, Depth]),
      ([Op_PrepareShadowable],
       signature_new 3 [Constant, Count, Count]),
      ([Op_LdaPrepared, Op_StaPrepared],
       signature_new 3 [Register, Constant, Count]),
      ([Op_CreateDefaultConstructor],
       signature_new 1 [Immediate, Count, Count]),
      ([Op_MakeClassConstructor],
       signature_new 2 [Register, Immediate, Count]),
      ([Op_DefineMethod],
       signature_new 2 [Register, Constant, Count]),
      ([Op_DefineMethodKeyed],
       signature_new 2 [Register, Register, Count]),
      ([Op_DefineClassAccessor],
       signature_new 3 [Register, Constant, Immediate]),
      ([Op_DefineClassAccessorKeyed],
       signature_new 3 [Register, Register, Immediate]),
      ([Op_LdaSuperProperty],
       signature_new 1 [Constant, Count, Count]),
      ([Op_CallSuper],
       signature_new 2 [Register, Count, Count]),
      ([Op_LdaNewTarget],
       signature_new 0 [Count, Count, Count]),
      ([Op_GetHeritagePrototype],
       signature_new 1 [Register, Count, Count]),
      ([Op_CreateRestArguments, Op_CreateArguments],
       signature_new 1 [Count, Count, Count]),
      ([Op_SetPrototype, Op_ToPropertyKeyChecked],
       signature_new 1 [Register, Count, Count]),
      ([Op_CreateClosure],
       signature_new 1 [Immediate, Count, Count]),
      ([Op_CreateRegExp],
       signature_new 1 [Constant, Count, Count]),
      ([Op_LdaImport],
       signature_new 1 [Immediate, Count, Count]),
      ([Op_Call, Op_Construct],
       signature_new 3 [Register, Register, Count]),
      ([Op_CallWithArray, Op_StepNativeIterator],
       signature_new 3 [Register, Register, Register]),
      ([Op_CallProperty, Op_TailCall],
       signature_new 3 [Register, Register, Count])]"

fun find_arm :: "(opcode list \<times> signature) list \<Rightarrow> opcode \<Rightarrow> signature" where
  "find_arm [] oc = signature_new 0 [Count, Count, Count]"
| "find_arm ((ocs, sig) # arms) oc = (if oc \<in> set ocs then sig else find_arm arms oc)"

definition opcode_signature :: "opcode \<Rightarrow> signature" where
  "opcode_signature oc = find_arm signature_arms oc"

definition is_terminator :: "opcode \<Rightarrow> bool" where
  "is_terminator oc \<longleftrightarrow> oc = Op_Return \<or> oc = Op_Throw \<or> oc = Op_Jump"

definition is_branch :: "opcode \<Rightarrow> bool" where
  "is_branch oc \<longleftrightarrow> oc = Op_Jump \<or> oc = Op_JumpIfTrue \<or> oc = Op_JumpIfFalse \<or>
     oc = Op_JumpIfToBooleanTrue \<or> oc = Op_JumpIfToBooleanFalse \<or> oc = Op_JumpIfNullish \<or>
     oc = Op_JumpIfNotNullish \<or> oc = Op_JumpIfNotUndefined"

definition max_byte :: nat where
  "max_byte = 0xE3"

text \<open>The compile-time table \<open>ENTRIES\<close>: what a byte denotes and the signature it carries.\<close>

definition opcode_entry :: "byte \<Rightarrow> opcode option \<times> signature" where
  "opcode_entry b =
     (case opcode_from_byte b of
        Some oc \<Rightarrow> (Some oc, opcode_signature oc)
      | None \<Rightarrow> (None, signature_new 0 [Count, Count, Count]))"

subsection \<open>Decoding\<close>

record instruction =
  i_opcode :: opcode
  i_width :: width
  i_operands :: "nat list"
  i_signed :: "int list"
  i_length :: nat

datatype decode_error = UnknownOpcode | TruncatedOperand | MisplacedPrefix

fun sign_extend :: "nat \<Rightarrow> width \<Rightarrow> int" where
  "sign_extend value Narrow = sint (of_nat value :: 8 word)"
| "sign_extend value Wide = sint (of_nat value :: 16 word)"
| "sign_extend value ExtraWide = sint (of_nat value :: 32 word)"

text \<open>An operand array of three places, zero where the signature has no operand.\<close>

definition pad3 :: "'a::zero list \<Rightarrow> 'a list" where
  "pad3 xs = take 3 (xs @ [0, 0, 0])"

text \<open>The wide operand loop: \<open>n\<close> little-endian operands of \<open>sz\<close> bytes from \<open>cursor\<close>.\<close>

fun read_operands :: "byte list \<Rightarrow> nat \<Rightarrow> nat \<Rightarrow> nat \<Rightarrow> nat list option" where
  "read_operands code sz cursor 0 = Some []"
| "read_operands code sz cursor (Suc n) =
     (case subrange code cursor (cursor + sz) of
        None \<Rightarrow> None
      | Some bytes \<Rightarrow>
          (case read_operands code sz (cursor + sz) n of
             None \<Rightarrow> None
           | Some rest \<Rightarrow> Some (of_le bytes # rest)))"

definition decode :: "byte list \<Rightarrow> nat \<Rightarrow> decode_error + instruction" where
  "decode code offset =
     (case get_at code offset of
        None \<Rightarrow> Inl TruncatedOperand
      | Some first \<Rightarrow>
          (let width = (if first = prefix_wide then Wide
                        else if first = prefix_extra_wide then ExtraWide else Narrow);
               cursor = (if width \<noteq> Narrow then offset + 1 else offset)
           in
           case get_at code cursor of
             None \<Rightarrow> Inl TruncatedOperand
           | Some b \<Rightarrow>
               if b = prefix_wide \<or> b = prefix_extra_wide then Inl MisplacedPrefix
               else
                 (case opcode_entry b of
                    (None, _) \<Rightarrow> Inl UnknownOpcode
                  | (Some oc, sig) \<Rightarrow>
                      (let cursor = cursor + 1 in
                       if width = Narrow then
                         (case subrange code cursor (cursor + sig_count sig) of
                            None \<Rightarrow> Inl TruncatedOperand
                          | Some bytes \<Rightarrow>
                              Inr \<lparr>i_opcode = oc, i_width = width,
                                   i_operands = pad3 (map unat bytes),
                                   i_signed = pad3 (map (\<lambda>b. sign_extend (unat b) Narrow) bytes),
                                   i_length = cursor + sig_count sig - offset\<rparr>)
                       else
                         (case read_operands code (width_bytes width) cursor (sig_count sig) of
                            None \<Rightarrow> Inl TruncatedOperand
                          | Some vs \<Rightarrow>
                              Inr \<lparr>i_opcode = oc, i_width = width,
                                   i_operands = pad3 vs,
                                   i_signed = pad3 (map (\<lambda>v. sign_extend v width) vs),
                                   i_length =
                                     cursor + sig_count sig * width_bytes width - offset\<rparr>)))))"

subsection \<open>Choosing a width\<close>

fun needed_width :: "operand_kind \<Rightarrow> int \<Rightarrow> width" where
  "needed_width kind value =
     (if kind = Jump \<or> kind = Immediate then
        (if -128 \<le> value \<and> value \<le> 127 then Narrow
         else if -32768 \<le> value \<and> value \<le> 32767 then Wide else ExtraWide)
      else if 0 \<le> value \<and> value \<le> 255 then Narrow
      else if 0 \<le> value \<and> value \<le> 65535 then Wide
      else ExtraWide)"

fun width_loop :: "operand_kind list \<Rightarrow> int list \<Rightarrow> nat \<Rightarrow> nat \<Rightarrow> width \<Rightarrow> width" where
  "width_loop kinds operands 0 index width = width"
| "width_loop kinds operands (Suc n) index width =
     (let value = (case get_at operands index of Some v \<Rightarrow> v | None \<Rightarrow> 0);
          needed = needed_width (kinds ! index) value
      in width_loop kinds operands n (index + 1)
           (if width_bytes needed > width_bytes width then needed else width))"

definition width_for :: "signature \<Rightarrow> int list \<Rightarrow> width" where
  "width_for sig operands = width_loop (sig_kinds sig) operands (sig_count sig) 0 Narrow"

subsection \<open>The format digest\<close>

definition format_tag :: "byte list" where
  "format_tag = [0x50, 0x48, 0x42, 0x43, 0x30, 0x30, 0x30, 0x32]"

definition header_size :: nat where "header_size = 112"
definition function_record_size :: nat where "function_record_size = 48"
definition constant_record_size :: nat where "constant_record_size = 16"
definition exception_record_size :: nat where "exception_record_size = 20"
definition import_record_size :: nat where "import_record_size = 12"
definition export_record_size :: nat where "export_record_size = 8"

fun operand_kind_tag :: "operand_kind \<Rightarrow> byte" where
  "operand_kind_tag Register = 1"
| "operand_kind_tag Constant = 2"
| "operand_kind_tag Immediate = 3"
| "operand_kind_tag Count = 4"
| "operand_kind_tag Jump = 5"
| "operand_kind_tag Depth = 6"

definition opcode_descriptor :: "byte \<Rightarrow> byte list" where
  "opcode_descriptor b =
     (case opcode_from_byte b of
        None \<Rightarrow> []
      | Some oc \<Rightarrow>
          (let sig = opcode_signature oc in
           [b, of_nat (sig_count sig)] @
           map operand_kind_tag (take (sig_count sig) (sig_kinds sig))))"

text \<open>
  Everything \<open>format_digest\<close> feeds its hasher, in order. SHA-256 belongs to the platform SDK, so
  it is the parameter \<open>sha256\<close>; the hasher absorbs in pieces what one call absorbs whole.
\<close>

definition format_descriptor :: "byte list" where
  "format_descriptor =
     format_tag @
     [prefix_wide, prefix_extra_wide, of_nat function_record_size, of_nat constant_record_size,
      of_nat exception_record_size, of_nat header_size] @
     concat (map (\<lambda>n. opcode_descriptor (of_nat n)) [0..<max_byte + 1])"

definition format_digest :: "(byte list \<Rightarrow> byte list) \<Rightarrow> byte list" where
  "format_digest sha256 = sha256 format_descriptor"

subsection \<open>The tables agree\<close>

lemma signature_arms_shape:
  "(ocs, sig) \<in> set signature_arms \<Longrightarrow> sig_count sig \<le> 3 \<and> length (sig_kinds sig) = 3"
  unfolding signature_arms_def signature_new_def by (simp only: list.set insert_iff) auto

lemma find_arm_in:
  "find_arm arms oc = signature_new 0 [Count, Count, Count] \<or>
   (\<exists>ocs. (ocs, find_arm arms oc) \<in> set arms \<and> oc \<in> set ocs)"
  by (induction arms oc rule: find_arm.induct) auto

lemma opcode_signature_shape:
  "sig_count (opcode_signature oc) \<le> 3" "length (sig_kinds (opcode_signature oc)) = 3"
  using find_arm_in [of signature_arms oc] signature_arms_shape
  by (auto simp: opcode_signature_def signature_new_def)

lemma is_branch_signature:
  "is_branch oc \<Longrightarrow> opcode_signature oc = signature_new 1 [Jump, Count, Count]"
  unfolding is_branch_def by (elim disjE) (simp_all add: opcode_signature_def signature_arms_def)

lemma opcode_bytes_distinct: "distinct opcode_bytes"
  by (simp add: opcode_bytes_def)

lemma opcode_bytes_bounded: "b \<in> set opcode_bytes \<Longrightarrow> b \<le> max_byte"
proof -
  have "list_all (\<lambda>b. b \<le> max_byte) opcode_bytes"
    by (simp add: opcode_bytes_def max_byte_def)
  then show "b \<in> set opcode_bytes \<Longrightarrow> b \<le> max_byte" by (simp add: list_all_iff)
qed

lemma signature_arms_opcodes:
  "distinct (concat (map fst signature_arms))" "length (concat (map fst signature_arms)) = 168"
  "length opcode_bytes = 168" "list_all (\<lambda>oc. oc \<in> set opcode_bytes) (concat (map fst signature_arms))"
  by (simp_all add: signature_arms_def opcode_bytes_def)

text \<open>The \<open>match\<close> of \<open>signature\<close> has one arm for every opcode and for nothing else.\<close>

lemma signature_arms_exact: "set (concat (map fst signature_arms)) = set opcode_bytes"
proof (rule card_subset_eq)
  show "set (concat (map fst signature_arms)) \<subseteq> set opcode_bytes"
    using signature_arms_opcodes(4) by (auto simp: list_all_iff)
  show "card (set (concat (map fst signature_arms))) = card (set opcode_bytes)"
    using signature_arms_opcodes opcode_bytes_distinct by (simp only: distinct_card)
qed simp

text \<open>Every arm of \<open>from_byte\<close> gives the variant whose discriminant is the byte, and every variant has an arm.\<close>

lemma opcode_arms_exact: "opcode_arms = map (\<lambda>oc. (oc, oc)) opcode_bytes"
  by (simp add: opcode_arms_def opcode_bytes_def)

lemma opcode_from_byte_eq: "opcode_from_byte b = (if unat b \<in> set opcode_bytes then Some (unat b) else None)"
  unfolding opcode_from_byte_def opcode_arms_exact map_of_map_restrict by (simp add: restrict_map_def)

lemma opcode_byte_from_byte:
  assumes "oc \<in> set opcode_bytes"
  shows "opcode_from_byte (opcode_byte oc) = Some oc" "opcode_byte oc \<noteq> prefix_wide"
    "opcode_byte oc \<noteq> prefix_extra_wide"
proof -
  have "oc \<le> 227" using opcode_bytes_bounded [OF assms] by (simp add: max_byte_def)
  then have oc: "unat (opcode_byte oc) = oc" by (simp add: opcode_byte_def unat_of_nat)
  with assms show "opcode_from_byte (opcode_byte oc) = Some oc"
    by (simp add: opcode_from_byte_eq)
  show "opcode_byte oc \<noteq> prefix_wide"
  proof
    assume "opcode_byte oc = prefix_wide"
    with oc have "oc = unat prefix_wide" by simp
    with \<open>oc \<le> 227\<close> show False by simp
  qed
  show "opcode_byte oc \<noteq> prefix_extra_wide"
  proof
    assume "opcode_byte oc = prefix_extra_wide"
    with oc have "oc = unat prefix_extra_wide" by simp
    with \<open>oc \<le> 227\<close> show False by simp
  qed
qed

subsection \<open>What a decoded instruction guarantees\<close>

lemma length_pad3 [simp]: "length (pad3 xs) = 3"
  by (simp add: pad3_def)

lemma read_operands_Some:
  assumes "read_operands code sz cursor n = Some vs"
  shows "length vs = n \<and> (\<forall>v \<in> set vs. v < 256 ^ sz) \<and> (n = 0 \<or> cursor + n * sz \<le> length code)"
  using assms
proof (induction n arbitrary: cursor vs)
  case (Suc n)
  from Suc.prems obtain bytes rest where
    b: "subrange code cursor (cursor + sz) = Some bytes"
    and r: "read_operands code sz (cursor + sz) n = Some rest" and vs: "vs = of_le bytes # rest"
    by (auto split: option.splits)
  have "of_le bytes < 256 ^ sz" using of_le_bound [of bytes] length_subrange [OF b] by simp
  then show ?case using Suc.IH [OF r] vs b by (auto simp: subrange_Some)
qed simp

definition instruction_wf :: "byte list \<Rightarrow> nat \<Rightarrow> instruction \<Rightarrow> bool" where
  "instruction_wf code offset i \<longleftrightarrow>
     i_opcode i \<in> set opcode_bytes \<and> length (i_operands i) = 3 \<and> length (i_signed i) = 3 \<and>
     i_length i = (if i_width i = Narrow then 1 else 2) +
       sig_count (opcode_signature (i_opcode i)) * width_bytes (i_width i) \<and>
     offset + i_length i \<le> length code"

lemma decode_wf:
  assumes "decode code offset = Inr i"
  shows "instruction_wf code offset i"
proof -
  obtain first where first: "get_at code offset = Some first"
    using assms by (auto simp: decode_def split: option.splits)
  define width where "width = (if first = prefix_wide then Wide
    else if first = prefix_extra_wide then ExtraWide else Narrow)"
  define cursor where "cursor = (if width \<noteq> Narrow then offset + 1 else offset)"
  obtain b where b: "get_at code cursor = Some b" "\<not> (b = prefix_wide \<or> b = prefix_extra_wide)"
    using assms unfolding decode_def first
    by (auto simp: Let_def width_def [symmetric] cursor_def [symmetric] split: option.splits if_splits)
  obtain oc where oc: "opcode_entry b = (Some oc, opcode_signature oc)" "oc \<in> set opcode_bytes"
    using assms b unfolding decode_def first
    by (auto simp: Let_def width_def [symmetric] cursor_def [symmetric] opcode_entry_def
        opcode_from_byte_eq split: option.splits if_splits)
  let ?n = "sig_count (opcode_signature oc)"
  note step = assms [unfolded decode_def first option.case Let_def, folded width_def,
      folded cursor_def, unfolded b(1) option.case, simplified b(2) if_False oc(1) prod.case option.case]
  show ?thesis
  proof (cases "width = Narrow")
    case True
    then obtain bytes where
      bytes: "subrange code (cursor + 1) (cursor + 1 + ?n) = Some bytes" and
      i: "i = \<lparr>i_opcode = oc, i_width = width, i_operands = pad3 (map unat bytes),
        i_signed = pad3 (map (\<lambda>b. sign_extend (unat b) Narrow) bytes),
        i_length = cursor + 1 + ?n - offset\<rparr>"
      using step by (auto split: option.splits)
    show ?thesis
      using bytes oc(2) True by (auto simp: i instruction_wf_def cursor_def subrange_Some)
  next
    case False
    then obtain vs where
      vals: "read_operands code (width_bytes width) (cursor + 1) ?n = Some vs" and
      i: "i = \<lparr>i_opcode = oc, i_width = width, i_operands = pad3 vs,
        i_signed = pad3 (map (\<lambda>v. sign_extend v width) vs),
        i_length = cursor + 1 + ?n * width_bytes width - offset\<rparr>"
      using step by (auto split: option.splits)
    have "cursor + 1 + ?n * width_bytes width \<le> length code"
      using read_operands_Some [OF vals] b(1) by (auto simp: get_at_Some)
    then show ?thesis
      using oc(2) False by (simp add: i instruction_wf_def cursor_def)
  qed
qed

lemma width_bytes_le: "width_bytes w \<le> 4"
  by (cases w) simp_all

lemma decode_length:
  assumes "decode code offset = Inr i"
  shows "0 < i_length i" "offset + i_length i \<le> length code" "i_length i \<le> 14"
proof -
  have "sig_count (opcode_signature (i_opcode i)) * width_bytes (i_width i) \<le> 3 * 4"
    by (rule mult_le_mono) (simp_all add: opcode_signature_shape width_bytes_le)
  then show "0 < i_length i" "offset + i_length i \<le> length code" "i_length i \<le> 14"
    using decode_wf [OF assms] by (auto simp: instruction_wf_def)
qed

subsection \<open>Properties\<close>

text \<open>
  C31: a decoded instruction lies inside the code, makes progress by at most fourteen bytes, and
  its opcode is one of the instruction set, its length being what its width and signature say.
\<close>

theorem decode_in_code:
  assumes "decode code offset = Inr i"
  shows "instruction_wf code offset i \<and> 0 < i_length i \<and> i_length i \<le> 14"
  using decode_wf [OF assms] decode_length [OF assms] by blast

theorem decode_in_code_witness:
  "instruction_wf [0xFE, 0x10, 1, 0] 0 \<lparr>i_opcode = Op_Ldar, i_width = Wide, i_operands = [1, 0, 0],
     i_signed = [1, 0, 0], i_length = 4\<rparr> \<and> (0 :: nat) < 4 \<and> (4 :: nat) \<le> 14"
proof -
  have "decode [0xFE, 0x10, 1, 0] 0 = Inr \<lparr>i_opcode = Op_Ldar, i_width = Wide,
      i_operands = [1, 0, 0], i_signed = [1, 0, 0], i_length = 4\<rparr>"
    by code_simp
  from decode_in_code [OF this] show ?thesis by simp
qed

text \<open>
  The instruction set is consistent. Every opcode's byte decodes to that opcode and is never a
  width prefix, and the signature table has an arm for every opcode and for nothing else.
\<close>

lemma opcode_table_consistent:
  "(\<forall>oc \<in> set opcode_bytes. opcode_from_byte (opcode_byte oc) = Some oc \<and>
      opcode_byte oc \<noteq> prefix_wide \<and> opcode_byte oc \<noteq> prefix_extra_wide) \<and>
   distinct opcode_bytes \<and> set (concat (map fst signature_arms)) = set opcode_bytes"
  using opcode_byte_from_byte opcode_bytes_distinct signature_arms_exact by blast

end
