(* ===== verification/Bytecode_Unit.thy ===== *)
theory Bytecode_Unit
  imports Bytecode
begin

text \<open>
  The unit image of \<^verbatim>\<open>modules/common/bytecode.rs\<close>: the header, the layout check that turns bytes
  into a view (\<open>Unit::parse\<close>, \<open>Unit::parse_admitted\<close>), and the accessors that read records out of
  it. The feature list of \<^verbatim>\<open>feature.rs\<close> is here too, because its digest is part of the header.

  \<open>usize_max\<close> is the target's \<open>usize::MAX\<close>, a parameter because the engine runs on 32-bit and
  64-bit parts; \<open>sha256\<close> is the platform SDK's hash.
\<close>

subsection \<open>The feature list\<close>

definition name_max :: nat where "name_max = 24"

record feature =
  f_name :: "byte list"
  f_length :: nat
  f_version :: nat

definition feature_name :: "feature \<Rightarrow> byte list" where
  "feature_name f = (case subrange (f_name f) 0 (f_length f) of Some n \<Rightarrow> n | None \<Rightarrow> [])"

definition feature_entry :: "string \<Rightarrow> nat \<Rightarrow> feature" where
  "feature_entry name version =
     (let bytes = map (\<lambda>c. of_char c) (take name_max name) in
      \<lparr>f_name = bytes @ replicate (name_max - length bytes) 0, f_length = length bytes,
       f_version = version\<rparr>)"

definition features :: "feature list" where
  "features =
     [feature_entry ''lex.source-text'' 1,
      feature_entry ''lex.comment'' 1,
      feature_entry ''lex.identifier'' 1,
      feature_entry ''lex.punctuator'' 1,
      feature_entry ''lex.numeric'' 1,
      feature_entry ''lex.bigint'' 1,
      feature_entry ''lex.string'' 1,
      feature_entry ''lex.template'' 1,
      feature_entry ''lex.regexp-literal'' 1,
      feature_entry ''syntax.primary'' 3,
      feature_entry ''syntax.array'' 3,
      feature_entry ''syntax.object'' 3,
      feature_entry ''syntax.member'' 4,
      feature_entry ''syntax.optional-chain'' 1,
      feature_entry ''syntax.operators'' 1,
      feature_entry ''syntax.conditional'' 1,
      feature_entry ''syntax.assignment'' 1,
      feature_entry ''syntax.sequence'' 1,
      feature_entry ''syntax.statements'' 2,
      feature_entry ''syntax.declarations'' 4,
      feature_entry ''syntax.functions'' 2,
      feature_entry ''syntax.async'' 1,
      feature_entry ''syntax.class'' 2,
      feature_entry ''syntax.generator'' 1,
      feature_entry ''syntax.iteration'' 1,
      feature_entry ''syntax.regexp'' 1,
      feature_entry ''syntax.modules'' 2,
      feature_entry ''runtime.values'' 1,
      feature_entry ''runtime.strings'' 1,
      feature_entry ''runtime.objects'' 1,
      feature_entry ''runtime.functions'' 1,
      feature_entry ''runtime.errors'' 1,
      feature_entry ''runtime.jobs'' 1,
      feature_entry ''runtime.promises'' 1,
      feature_entry ''runtime.bindings'' 1,
      feature_entry ''runtime.collection'' 1,
      feature_entry ''runtime.symbols'' 1,
      feature_entry ''runtime.iteration'' 1,
      feature_entry ''runtime.bigint'' 1,
      feature_entry ''runtime.regexp'' 1,
      feature_entry ''runtime.modules'' 1,
      feature_entry ''library.object'' 1,
      feature_entry ''library.array'' 1,
      feature_entry ''library.string'' 1,
      feature_entry ''library.number'' 1,
      feature_entry ''library.math'' 1,
      feature_entry ''library.function'' 1,
      feature_entry ''library.promise'' 1,
      feature_entry ''library.regexp'' 1,
      feature_entry ''library.json'' 1,
      feature_entry ''library.date'' 1,
      feature_entry ''library.buffers'' 1,
      feature_entry ''runtime.proxy'' 1]"

definition feature_chunks :: "feature \<Rightarrow> byte list" where
  "feature_chunks f = [of_nat (f_length f)] @ feature_name f @ le_bytes 2 (f_version f)"

definition feature_descriptor :: "byte list" where
  "feature_descriptor =
     map (\<lambda>c. of_char c) ''phasor.features.1'' @ concat (map feature_chunks features)"

definition feature_digest :: "(byte list \<Rightarrow> byte list) \<Rightarrow> byte list" where
  "feature_digest sha256 = sha256 feature_descriptor"

subsection \<open>Records of an image\<close>

datatype constant_kind = KNumber | KString | KKey | KBigInt | KRegExp

definition constant_kind_from_byte :: "byte \<Rightarrow> constant_kind option" where
  "constant_kind_from_byte b =
     (if b = 1 then Some KNumber else if b = 2 then Some KString else if b = 3 then Some KKey
      else if b = 4 then Some KBigInt else if b = 5 then Some KRegExp else None)"

fun constant_kind_byte :: "constant_kind \<Rightarrow> byte" where
  "constant_kind_byte KNumber = 1"
| "constant_kind_byte KString = 2"
| "constant_kind_byte KKey = 3"
| "constant_kind_byte KBigInt = 4"
| "constant_kind_byte KRegExp = 5"

record const_record =
  k_kind :: constant_kind
  k_first :: nat
  k_second :: nat

definition constant_number :: "64 word \<Rightarrow> const_record" where
  "constant_number bits =
     \<lparr>k_kind = KNumber, k_first = unat bits mod 2 ^ 32, k_second = unat bits div 2 ^ 32\<rparr>"

definition constant_value :: "const_record \<Rightarrow> 64 word" where
  "constant_value c = of_nat (k_second c * 2 ^ 32 + k_first c)"

record exception_region =
  x_start :: nat
  x_end :: nat
  x_handler :: nat
  x_register :: nat
  x_context_depth :: nat

record func_record =
  fn_code_offset :: nat
  fn_code_length :: nat
  fn_register_count :: nat
  fn_argument_count :: nat
  fn_frame_extent :: nat
  fn_exception_offset :: nat
  fn_exception_count :: nat
  fn_safe_point_offset :: nat
  fn_safe_point_count :: nat
  fn_context_depth :: nat
  fn_context_slots :: nat
  fn_flags :: nat

record header =
  hd_function_count :: nat
  hd_constant_count :: nat
  hd_constant_data_length :: nat
  hd_code_length :: nat
  hd_exception_count :: nat
  hd_safe_point_count :: nat
  hd_entry_function :: nat
  hd_flags :: nat
  hd_import_count :: nat
  hd_export_count :: nat
  hd_eval_site_length :: nat

record import_record =
  im_specifier :: nat
  im_name :: nat
  im_slot :: nat

record export_record =
  ex_name :: nat
  ex_slot :: nat

abbreviation defer_import_name :: nat where "defer_import_name \<equiv> u32_max - 1"
abbreviation source_import_name :: nat where "source_import_name \<equiv> u32_max - 3"

record unit_view =
  u_bytes :: "byte list"
  u_header :: header
  u_functions_at :: nat
  u_constants_at :: nat
  u_constant_data_at :: nat
  u_code_at :: nat
  u_exceptions_at :: nat
  u_safe_points_at :: nat
  u_imports_at :: nat
  u_exports_at :: nat
  u_eval_sites_at :: nat

datatype image_error = Magic | FormatDigest | FeatureDigest | Truncated | Overflow

subsection \<open>Admission of the layout\<close>

definition unit_magic :: "byte list" where
  "unit_magic = [0x50, 0x48, 0x42, 0x43]"

definition advance :: "nat \<Rightarrow> nat \<Rightarrow> nat \<Rightarrow> nat \<Rightarrow> image_error + nat" where
  "advance usize_max at n sz =
     (if n * sz \<le> usize_max \<and> at + n * sz \<le> usize_max then Inr (at + n * sz) else Inl Overflow)"

definition read_u32 :: "byte list \<Rightarrow> nat \<Rightarrow> image_error + nat" where
  "read_u32 bytes at = ok_or Truncated (read_le32 bytes at)"

definition read_header :: "byte list \<Rightarrow> image_error + header" where
  "read_header bytes =
     and_then (read_u32 bytes 68) (\<lambda>function_count.
     and_then (read_u32 bytes 72) (\<lambda>constant_count.
     and_then (read_u32 bytes 76) (\<lambda>constant_data_length.
     and_then (read_u32 bytes 80) (\<lambda>code_length.
     and_then (read_u32 bytes 84) (\<lambda>exception_count.
     and_then (read_u32 bytes 88) (\<lambda>safe_point_count.
     and_then (read_u32 bytes 92) (\<lambda>entry_function.
     and_then (read_u32 bytes 96) (\<lambda>flags.
     and_then (read_u32 bytes 100) (\<lambda>import_count.
     and_then (read_u32 bytes 104) (\<lambda>export_count.
     and_then (read_u32 bytes 108) (\<lambda>eval_site_length.
       Inr \<lparr>hd_function_count = function_count, hd_constant_count = constant_count,
            hd_constant_data_length = constant_data_length, hd_code_length = code_length,
            hd_exception_count = exception_count, hd_safe_point_count = safe_point_count,
            hd_entry_function = entry_function, hd_flags = flags, hd_import_count = import_count,
            hd_export_count = export_count, hd_eval_site_length = eval_site_length\<rparr>)))))))))))"

definition parse_admitted :: "nat \<Rightarrow> byte list \<Rightarrow> image_error + unit_view" where
  "parse_admitted usize_max bytes =
     (if length bytes < header_size then Inl Truncated
      else if subrange bytes 0 4 \<noteq> Some unit_magic then Inl Magic
      else
        and_then (read_header bytes) (\<lambda>h.
        and_then (advance usize_max header_size (hd_function_count h) function_record_size)
          (\<lambda>constants_at.
        and_then (advance usize_max constants_at (hd_constant_count h) constant_record_size)
          (\<lambda>constant_data_at.
        and_then (advance usize_max constant_data_at (hd_constant_data_length h) 1) (\<lambda>code_at.
        and_then (advance usize_max code_at (hd_code_length h) 1) (\<lambda>exceptions_at.
        and_then (advance usize_max exceptions_at (hd_exception_count h) exception_record_size)
          (\<lambda>safe_points_at.
        and_then (advance usize_max safe_points_at (hd_safe_point_count h) 4) (\<lambda>imports_at.
        and_then (advance usize_max imports_at (hd_import_count h) import_record_size)
          (\<lambda>exports_at.
        and_then (advance usize_max exports_at (hd_export_count h) export_record_size)
          (\<lambda>eval_sites_at.
        and_then (advance usize_max eval_sites_at (hd_eval_site_length h) 1) (\<lambda>end_at.
          if length bytes < end_at then Inl Truncated
          else if hd_function_count h \<le> hd_entry_function h then Inl Overflow
          else
            Inr \<lparr>u_bytes = bytes, u_header = h, u_functions_at = header_size,
                 u_constants_at = constants_at, u_constant_data_at = constant_data_at,
                 u_code_at = code_at, u_exceptions_at = exceptions_at,
                 u_safe_points_at = safe_points_at, u_imports_at = imports_at,
                 u_exports_at = exports_at, u_eval_sites_at = eval_sites_at\<rparr>)))))))))))"

definition parse_unit ::
  "(byte list \<Rightarrow> byte list) \<Rightarrow> nat \<Rightarrow> byte list \<Rightarrow> image_error + unit_view" where
  "parse_unit sha256 usize_max bytes =
     (if length bytes < header_size then Inl Truncated
      else if subrange bytes 0 4 \<noteq> Some unit_magic then Inl Magic
      else if subrange bytes 4 36 \<noteq> Some (format_digest sha256) then Inl FormatDigest
      else if subrange bytes 36 68 \<noteq> Some (feature_digest sha256) then Inl FeatureDigest
      else parse_admitted usize_max bytes)"

subsection \<open>Accessors\<close>

definition unit_eval_sites :: "unit_view \<Rightarrow> byte list" where
  "unit_eval_sites u =
     (case subrange (u_bytes u) (u_eval_sites_at u)
             (u_eval_sites_at u + hd_eval_site_length (u_header u)) of
        Some b \<Rightarrow> b | None \<Rightarrow> [])"

definition unit_logical_digest :: "(byte list \<Rightarrow> byte list) \<Rightarrow> unit_view \<Rightarrow> byte list" where
  "unit_logical_digest sha256 u = sha256 (u_bytes u)"

definition unit_function :: "unit_view \<Rightarrow> nat \<Rightarrow> func_record option" where
  "unit_function u index =
     (if hd_function_count (u_header u) \<le> index then None
      else
        (let at = u_functions_at u + index * function_record_size; rd = read_le32 (u_bytes u) in
         Option.bind (rd at) (\<lambda>code_offset.
         Option.bind (rd (at + 4)) (\<lambda>code_length.
         Option.bind (rd (at + 8)) (\<lambda>register_count.
         Option.bind (rd (at + 12)) (\<lambda>argument_count.
         Option.bind (rd (at + 16)) (\<lambda>frame_extent.
         Option.bind (rd (at + 20)) (\<lambda>exception_offset.
         Option.bind (rd (at + 24)) (\<lambda>exception_count.
         Option.bind (rd (at + 28)) (\<lambda>safe_point_offset.
         Option.bind (rd (at + 32)) (\<lambda>safe_point_count.
         Option.bind (rd (at + 36)) (\<lambda>context_depth.
         Option.bind (rd (at + 40)) (\<lambda>context_slots.
         Option.bind (rd (at + 44)) (\<lambda>flags.
           Some \<lparr>fn_code_offset = code_offset, fn_code_length = code_length,
                 fn_register_count = register_count, fn_argument_count = argument_count,
                 fn_frame_extent = frame_extent, fn_exception_offset = exception_offset,
                 fn_exception_count = exception_count, fn_safe_point_offset = safe_point_offset,
                 fn_safe_point_count = safe_point_count, fn_context_depth = context_depth,
                 fn_context_slots = context_slots, fn_flags = flags\<rparr>))))))))))))))"

definition unit_import :: "unit_view \<Rightarrow> nat \<Rightarrow> import_record option" where
  "unit_import u index =
     (if hd_import_count (u_header u) \<le> index then None
      else
        (let at = u_imports_at u + index * import_record_size; rd = read_le32 (u_bytes u) in
         Option.bind (rd at) (\<lambda>specifier.
         Option.bind (rd (at + 4)) (\<lambda>name.
         Option.bind (rd (at + 8)) (\<lambda>slot.
           Some \<lparr>im_specifier = specifier, im_name = name, im_slot = slot\<rparr>)))))"

definition unit_export :: "unit_view \<Rightarrow> nat \<Rightarrow> export_record option" where
  "unit_export u index =
     (if hd_export_count (u_header u) \<le> index then None
      else
        (let at = u_exports_at u + index * export_record_size; rd = read_le32 (u_bytes u) in
         Option.bind (rd at) (\<lambda>name.
         Option.bind (rd (at + 4)) (\<lambda>slot. Some \<lparr>ex_name = name, ex_slot = slot\<rparr>))))"

definition unit_is_module :: "unit_view \<Rightarrow> bool" where
  "unit_is_module u \<longleftrightarrow> odd (hd_flags (u_header u))"

definition unit_constant :: "unit_view \<Rightarrow> nat \<Rightarrow> const_record option" where
  "unit_constant u index =
     (if hd_constant_count (u_header u) \<le> index then None
      else
        (let at = u_constants_at u + index * constant_record_size; rd = read_le32 (u_bytes u) in
         Option.bind (get_at (u_bytes u) at) (\<lambda>b.
         Option.bind (constant_kind_from_byte b) (\<lambda>kind.
         Option.bind (rd (at + 4)) (\<lambda>first.
         Option.bind (rd (at + 8)) (\<lambda>second.
           Some \<lparr>k_kind = kind, k_first = first, k_second = second\<rparr>))))))"

text \<open>
  \<open>constant_units\<close> fills a caller's buffer of \<open>capacity\<close> units; the model answers the units, and
  their count is the source's answer.
\<close>

definition unit_constant_units :: "unit_view \<Rightarrow> const_record \<Rightarrow> nat \<Rightarrow> nat list option" where
  "unit_constant_units u c capacity =
     (if k_kind c \<notin> {KString, KKey, KRegExp} then None
      else if capacity < k_second c then None
      else
        (let at = u_constant_data_at u + k_first c in
         Option.bind (subrange (u_bytes u) at (at + k_second c * 2)) (\<lambda>bytes.
           Some (map (\<lambda>i. of_le [bytes ! (i * 2), bytes ! (i * 2 + 1)]) [0..<k_second c]))))"

definition unit_constant_bytes :: "unit_view \<Rightarrow> const_record \<Rightarrow> byte list option" where
  "unit_constant_bytes u c =
     (let at = u_constant_data_at u + k_first c in subrange (u_bytes u) at (at + k_second c))"

definition unit_constant_unit_bytes :: "unit_view \<Rightarrow> const_record \<Rightarrow> byte list option" where
  "unit_constant_unit_bytes u c =
     (if k_kind c \<notin> {KString, KKey} then None
      else
        (let at = u_constant_data_at u + k_first c in
         subrange (u_bytes u) at (at + k_second c * 2)))"

definition unit_code :: "unit_view \<Rightarrow> func_record \<Rightarrow> byte list option" where
  "unit_code u f =
     (let at = u_code_at u + fn_code_offset f in subrange (u_bytes u) at (at + fn_code_length f))"

definition unit_exception_region :: "unit_view \<Rightarrow> nat \<Rightarrow> exception_region option" where
  "unit_exception_region u index =
     (if hd_exception_count (u_header u) \<le> index then None
      else
        (let at = u_exceptions_at u + index * exception_record_size;
             rd = read_le32 (u_bytes u) in
         Option.bind (rd at) (\<lambda>start.
         Option.bind (rd (at + 4)) (\<lambda>end_at.
         Option.bind (rd (at + 8)) (\<lambda>handler.
         Option.bind (rd (at + 12)) (\<lambda>register.
         Option.bind (rd (at + 16)) (\<lambda>context_depth.
           Some \<lparr>x_start = start, x_end = end_at, x_handler = handler, x_register = register,
                 x_context_depth = context_depth\<rparr>)))))))"

definition unit_safe_point :: "unit_view \<Rightarrow> nat \<Rightarrow> nat option" where
  "unit_safe_point u index =
     (if hd_safe_point_count (u_header u) \<le> index then None
      else read_le32 (u_bytes u) (u_safe_points_at u + index * 4))"

text \<open>
  \<open>export_slot\<close> reads each name into a buffer of 64 units; a record it cannot read, or a name
  longer than the buffer, ends the search with no answer.
\<close>

function export_slot_loop :: "unit_view \<Rightarrow> nat list \<Rightarrow> nat \<Rightarrow> nat option" where
  "export_slot_loop u name index =
     (if index < hd_export_count (u_header u) then
        (case unit_export u index of
           None \<Rightarrow> None
         | Some r \<Rightarrow>
             if ex_name r = u32_max then export_slot_loop u name (index + 1)
             else
               (case unit_constant u (ex_name r) of
                  None \<Rightarrow> None
                | Some c \<Rightarrow>
                    (case unit_constant_units u c 64 of
                       None \<Rightarrow> None
                     | Some units \<Rightarrow>
                         if units = name then Some (ex_slot r)
                         else export_slot_loop u name (index + 1))))
      else None)"
  by pat_completeness auto
termination
  by (relation "measure (\<lambda>(u, _, index). hd_export_count (u_header u) - index)") auto

declare export_slot_loop.simps [simp del]

definition unit_export_slot :: "unit_view \<Rightarrow> nat list \<Rightarrow> nat option" where
  "unit_export_slot u name = export_slot_loop u name 0"

definition unit_import_at :: "unit_view \<Rightarrow> nat \<Rightarrow> nat \<Rightarrow> nat \<Rightarrow> (nat list \<times> nat list \<times> nat) option" where
  "unit_import_at u index specifier_capacity name_capacity =
     Option.bind (unit_import u index) (\<lambda>r.
     Option.bind (unit_constant u (im_specifier r)) (\<lambda>c.
     Option.bind (unit_constant_units u c specifier_capacity) (\<lambda>specifier.
       if im_name r \<noteq> u32_max \<and> im_name r \<noteq> defer_import_name \<and> im_name r \<noteq> source_import_name
       then
         Option.bind (unit_constant u (im_name r)) (\<lambda>c.
         Option.bind (unit_constant_units u c name_capacity) (\<lambda>name.
           Some (specifier, name, im_slot r)))
       else Some (specifier, [], im_slot r))))"

subsection \<open>An admitted layout\<close>

text \<open>
  The sections are laid end to end, in order, inside the image, and the entry function exists.
  This is what lets an accessor read without a bound of its own.
\<close>

definition unit_layout :: "unit_view \<Rightarrow> bool" where
  "unit_layout u \<longleftrightarrow>
     u_functions_at u = header_size \<and>
     u_constants_at u = u_functions_at u + hd_function_count (u_header u) * function_record_size \<and>
     u_constant_data_at u = u_constants_at u + hd_constant_count (u_header u) * constant_record_size \<and>
     u_code_at u = u_constant_data_at u + hd_constant_data_length (u_header u) \<and>
     u_exceptions_at u = u_code_at u + hd_code_length (u_header u) \<and>
     u_safe_points_at u = u_exceptions_at u + hd_exception_count (u_header u) * exception_record_size \<and>
     u_imports_at u = u_safe_points_at u + hd_safe_point_count (u_header u) * 4 \<and>
     u_exports_at u = u_imports_at u + hd_import_count (u_header u) * import_record_size \<and>
     u_eval_sites_at u = u_exports_at u + hd_export_count (u_header u) * export_record_size \<and>
     u_eval_sites_at u + hd_eval_site_length (u_header u) \<le> length (u_bytes u) \<and>
     hd_entry_function (u_header u) < hd_function_count (u_header u)"

lemma advance_Inr: "advance m at n sz = Inr r \<longleftrightarrow> r = at + n * sz \<and> n * sz \<le> m \<and> at + n * sz \<le> m"
  by (auto simp: advance_def)

lemma parse_admitted_layout:
  assumes "parse_admitted m bytes = Inr u"
  shows "unit_layout u \<and> u_bytes u = bytes"
  using assms
  by (auto simp: parse_admitted_def and_then_Inr advance_Inr unit_layout_def split: if_splits)

lemma parse_unit_layout:
  assumes "parse_unit sha256 m bytes = Inr u"
  shows "unit_layout u \<and> u_bytes u = bytes"
  using assms parse_admitted_layout by (auto simp: parse_unit_def split: if_splits)

lemma read_le32_total: "at + 4 \<le> length bytes \<Longrightarrow> \<exists>v. read_le32 bytes at = Some v"
  by (simp add: read_le32_def subrange_def)

lemma record_in_section:
  assumes "index < n" "at + n * sz \<le> (len :: nat)" "k + 4 \<le> sz"
  shows "at + index * sz + k + 4 \<le> len"
proof -
  have "(index + 1) * sz \<le> n * sz" using assms(1) by (intro mult_right_mono) auto
  with assms show ?thesis by simp
qed

lemma unit_layout_ends:
  assumes "unit_layout u"
  shows "u_functions_at u + hd_function_count (u_header u) * function_record_size \<le> length (u_bytes u)"
    "u_constants_at u + hd_constant_count (u_header u) * constant_record_size \<le> length (u_bytes u)"
    "u_exceptions_at u + hd_exception_count (u_header u) * exception_record_size \<le> length (u_bytes u)"
    "u_safe_points_at u + hd_safe_point_count (u_header u) * 4 \<le> length (u_bytes u)"
    "u_imports_at u + hd_import_count (u_header u) * import_record_size \<le> length (u_bytes u)"
    "u_exports_at u + hd_export_count (u_header u) * export_record_size \<le> length (u_bytes u)"
  using assms unfolding unit_layout_def by linarith+

lemma read_in_section:
  assumes "index < n" "at + n * sz \<le> length bytes" "k + 4 \<le> sz"
  shows "\<exists>v. read_le32 bytes (at + index * sz + k) = Some v"
  using record_in_section [OF assms] by (rule read_le32_total)

lemma unit_function_total:
  assumes "unit_layout u" "index < hd_function_count (u_header u)"
  shows "\<exists>f. unit_function u index = Some f"
proof -
  note rd = read_in_section [OF assms(2) unit_layout_ends(1) [OF assms(1)], unfolded function_record_size_def]
  show ?thesis
    using assms(2) rd [of 0] rd [of 4] rd [of 8] rd [of 12] rd [of 16] rd [of 20] rd [of 24] rd [of 28]
      rd [of 32] rd [of 36] rd [of 40] rd [of 44]
    by (auto simp: unit_function_def Let_def function_record_size_def)
qed

lemma unit_exception_region_total:
  assumes "unit_layout u" "index < hd_exception_count (u_header u)"
  shows "\<exists>r. unit_exception_region u index = Some r"
proof -
  note rd = read_in_section [OF assms(2) unit_layout_ends(3) [OF assms(1)], unfolded exception_record_size_def]
  show ?thesis
    using assms(2) rd [of 0] rd [of 4] rd [of 8] rd [of 12] rd [of 16]
    by (auto simp: unit_exception_region_def Let_def exception_record_size_def)
qed

lemma unit_safe_point_total:
  assumes "unit_layout u" "index < hd_safe_point_count (u_header u)"
  shows "\<exists>p. unit_safe_point u index = Some p"
  using read_in_section [OF assms(2) unit_layout_ends(4) [OF assms(1)], of 0] assms(2)
  by (simp add: unit_safe_point_def)

lemma unit_import_total:
  assumes "unit_layout u" "index < hd_import_count (u_header u)"
  shows "\<exists>r. unit_import u index = Some r"
proof -
  note rd = read_in_section [OF assms(2) unit_layout_ends(5) [OF assms(1)], unfolded import_record_size_def]
  show ?thesis
    using assms(2) rd [of 0] rd [of 4] rd [of 8]
    by (auto simp: unit_import_def Let_def import_record_size_def)
qed

lemma unit_export_total:
  assumes "unit_layout u" "index < hd_export_count (u_header u)"
  shows "\<exists>r. unit_export u index = Some r"
proof -
  note rd = read_in_section [OF assms(2) unit_layout_ends(6) [OF assms(1)], unfolded export_record_size_def]
  show ?thesis
    using assms(2) rd [of 0] rd [of 4]
    by (auto simp: unit_export_def Let_def export_record_size_def)
qed

lemma constant_value_number: "constant_value (constant_number bits) = bits"
  by (simp add: constant_value_def constant_number_def)

subsection \<open>Properties\<close>

lemma unit_constant_iff:
  assumes "unit_layout u" "index < hd_constant_count (u_header u)"
  shows "(\<exists>r. unit_constant u index = Some r) \<longleftrightarrow>
    u_bytes u ! (u_constants_at u + index * constant_record_size) \<in> {1, 2, 3, 4, 5}"
proof -
  let ?at = "u_constants_at u + index * constant_record_size"
  have "index * constant_record_size + constant_record_size \<le> hd_constant_count (u_header u) * constant_record_size"
    using mult_le_mono1 [of "index + 1" "hd_constant_count (u_header u)" constant_record_size] assms(2) by simp
  then have "?at < length (u_bytes u)"
    using assms(1) by (simp add: unit_layout_def constant_record_size_def)
  then have b: "get_at (u_bytes u) ?at = Some (u_bytes u ! ?at)" by (simp add: get_at_def)
  note rd = read_in_section [OF assms(2) unit_layout_ends(2) [OF assms(1)], unfolded constant_record_size_def]
  obtain first second where r: "read_le32 (u_bytes u) (?at + 4) = Some first" "read_le32 (u_bytes u) (?at + 8) = Some second"
    using rd [of 4] rd [of 8] by (auto simp: constant_record_size_def)
  show ?thesis
    using assms(2) b r by (simp add: unit_constant_def Let_def constant_kind_from_byte_def)
qed

text \<open>
  C30: what the image's header declares can be read. In a parsed unit the entry function exists and
  every function, exception region, safe point, import and export record below its declared count
  is inside the image. A constant below the declared count reads exactly when the byte of its kind is one of
  the five known ones, from 1 to 5; parsing does not look at it.
\<close>

theorem parsed_tables_readable:
  assumes "parse_unit sha256 usize_max bytes = Inr u"
  shows "(\<exists>f. unit_function u (hd_entry_function (u_header u)) = Some f) \<and>
    (index < hd_function_count (u_header u) \<longrightarrow> (\<exists>f. unit_function u index = Some f)) \<and>
    (index < hd_constant_count (u_header u) \<longrightarrow> ((\<exists>r. unit_constant u index = Some r) \<longleftrightarrow>
       bytes ! (u_constants_at u + index * constant_record_size) \<in> {1, 2, 3, 4, 5})) \<and>
    (index < hd_exception_count (u_header u) \<longrightarrow> (\<exists>r. unit_exception_region u index = Some r)) \<and>
    (index < hd_safe_point_count (u_header u) \<longrightarrow> (\<exists>p. unit_safe_point u index = Some p)) \<and>
    (index < hd_import_count (u_header u) \<longrightarrow> (\<exists>r. unit_import u index = Some r)) \<and>
    (index < hd_export_count (u_header u) \<longrightarrow> (\<exists>r. unit_export u index = Some r))"
proof -
  have layout: "unit_layout u" and b: "u_bytes u = bytes" using parse_unit_layout [OF assms] by blast+
  then have "hd_entry_function (u_header u) < hd_function_count (u_header u)"
    by (simp add: unit_layout_def)
  with layout show ?thesis
    using unit_constant_iff [OF layout, of index, unfolded b]
    by (intro conjI impI unit_function_total unit_exception_region_total unit_safe_point_total
        unit_import_total unit_export_total) simp_all
qed

end
