(* ===== verification/Diagnostics.thy ===== *)
theory Diagnostics
  imports Phasor_Prelude
begin

text \<open>
  The diagnostic record of \<^verbatim>\<open>modules/common/diagnostic.rs\<close> and its 32-byte wire frame, with the
  codes the bytecode verifier answers. A diagnostic is numbers, never text.
\<close>

datatype severity = Error | Fatal

definition max_arguments :: nat where
  "max_arguments = 4"

definition frame_size :: nat where
  "frame_size = 32"

record diagnostic =
  d_code :: nat
  d_severity :: severity
  d_offset :: nat
  d_length :: nat
  d_argument_count :: nat
  d_arguments :: "nat list"

definition diagnostic_new :: "nat \<Rightarrow> severity \<Rightarrow> nat \<Rightarrow> nat \<Rightarrow> diagnostic" where
  "diagnostic_new code severity offset len =
     \<lparr>d_code = code, d_severity = severity, d_offset = offset, d_length = len,
      d_argument_count = 0, d_arguments = replicate max_arguments 0\<rparr>"

definition diagnostic_at :: "nat \<Rightarrow> severity \<Rightarrow> nat \<Rightarrow> diagnostic" where
  "diagnostic_at code severity offset = diagnostic_new code severity offset 0"

definition diagnostic_with :: "diagnostic \<Rightarrow> nat \<Rightarrow> diagnostic" where
  "diagnostic_with d argument =
     (if d_argument_count d < max_arguments
      then d\<lparr>d_arguments := (d_arguments d)[d_argument_count d := argument],
             d_argument_count := d_argument_count d + 1\<rparr>
      else d)"

definition diagnostic_arguments :: "diagnostic \<Rightarrow> nat list" where
  "diagnostic_arguments d =
     (case subrange (d_arguments d) 0 (d_argument_count d) of Some xs \<Rightarrow> xs | None \<Rightarrow> [])"

definition diagnostic_encode :: "diagnostic \<Rightarrow> byte list" where
  "diagnostic_encode d =
     le_bytes 2 (d_code d) @
     [if d_severity d = Fatal then 1 else 0, of_nat (d_argument_count d)] @
     le_bytes 4 (d_offset d) @ le_bytes 4 (d_length d) @ replicate 4 0 @
     concat (map (le_bytes 4) (d_arguments d))"

definition diagnostic_decode :: "byte list \<Rightarrow> diagnostic option" where
  "diagnostic_decode bytes =
     (case subrange bytes 0 frame_size of
        None \<Rightarrow> None
      | Some frame \<Rightarrow>
          Some \<lparr>d_code = of_le (take 2 frame),
                d_severity = (if frame ! 2 = 0 then Error else Fatal),
                d_offset = of_le (take 4 (drop 4 frame)),
                d_length = of_le (take 4 (drop 8 frame)),
                d_argument_count = min (unat (frame ! 3)) max_arguments,
                d_arguments =
                  map (\<lambda>i. of_le (take 4 (drop (16 + i * 4) frame))) [0..<max_arguments]\<rparr>)"

definition diagnostic_wf :: "diagnostic \<Rightarrow> bool" where
  "diagnostic_wf d \<longleftrightarrow> d_code d < 65536 \<and> d_offset d \<le> u32_max \<and> d_length d \<le> u32_max \<and>
     d_argument_count d \<le> max_arguments \<and> length (d_arguments d) = max_arguments \<and>
     (\<forall>a \<in> set (d_arguments d). a \<le> u32_max)"

subsection \<open>Verifier codes\<close>

definition c_unknown_opcode :: nat where "c_unknown_opcode = 0x0400"
definition c_truncated_operand :: nat where "c_truncated_operand = 0x0401"
definition c_misplaced_prefix :: nat where "c_misplaced_prefix = 0x0402"
definition c_register_out_of_range :: nat where "c_register_out_of_range = 0x0403"
definition c_constant_out_of_range :: nat where "c_constant_out_of_range = 0x0404"
definition c_invalid_jump_target :: nat where "c_invalid_jump_target = 0x0405"
definition c_backward_jump_without_safe_point :: nat where "c_backward_jump_without_safe_point = 0x0406"
definition c_invalid_exception_region :: nat where "c_invalid_exception_region = 0x0407"
definition c_overlapping_exception_regions :: nat where "c_overlapping_exception_regions = 0x0408"
definition c_context_depth_mismatch :: nat where "c_context_depth_mismatch = 0x0409"
definition c_context_depth_out_of_range :: nat where "c_context_depth_out_of_range = 0x040A"
definition c_falls_off_end :: nat where "c_falls_off_end = 0x040B"
definition c_invalid_safe_point :: nat where "c_invalid_safe_point = 0x040C"
definition c_unreachable_code :: nat where "c_unreachable_code = 0x040D"
definition c_inconsistent_declared_bounds :: nat where "c_inconsistent_declared_bounds = 0x040E"
definition c_malformed_image :: nat where "c_malformed_image = 0x040F"
definition c_bytecode_format_mismatch :: nat where "c_bytecode_format_mismatch = 0x0410"
definition c_verifier_storage_too_small :: nat where "c_verifier_storage_too_small = 0x0411"
definition c_image_not_admitted :: nat where "c_image_not_admitted = 0x0417"
definition c_feature_list_mismatch :: nat where "c_feature_list_mismatch = 0x0418"

subsection \<open>Laws\<close>

lemma diagnostic_new_wf:
  "code < 65536 \<Longrightarrow> offset \<le> u32_max \<Longrightarrow> len \<le> u32_max \<Longrightarrow>
   diagnostic_wf (diagnostic_new code severity offset len)"
  by (simp add: diagnostic_wf_def diagnostic_new_def)

lemma diagnostic_with_wf:
  "diagnostic_wf d \<Longrightarrow> a \<le> u32_max \<Longrightarrow> diagnostic_wf (diagnostic_with d a)"
  by (auto simp: diagnostic_wf_def diagnostic_with_def dest!: set_update_subset_insert [THEN subsetD])

lemma diagnostic_with_arguments:
  assumes "diagnostic_wf d"
  shows "diagnostic_arguments (diagnostic_with d a) =
    (if length (diagnostic_arguments d) < max_arguments
     then diagnostic_arguments d @ [a] else diagnostic_arguments d)"
  using assms
  by (auto simp: diagnostic_wf_def diagnostic_arguments_def diagnostic_with_def subrange_def
      take_Suc_conv_app_nth)

lemma decode_encode_frame:
  assumes "diagnostic_wf d"
  shows "diagnostic_decode (diagnostic_encode d @ rest) = Some d"
proof -
  obtain a0 a1 a2 a3 where args: "d_arguments d = [a0, a1, a2, a3]"
  proof -
    have "length (d_arguments d) = Suc (Suc (Suc (Suc 0)))"
      using assms by (simp add: diagnostic_wf_def max_arguments_def)
    then show thesis using that by (auto simp: length_Suc_conv)
  qed
  have count: "unat (of_nat (d_argument_count d) :: byte) = d_argument_count d"
    using assms by (simp add: diagnostic_wf_def max_arguments_def unat_of_nat)
  have upt: "[0..<max_arguments] = [0, 1, 2, 3]"
    by (simp add: max_arguments_def upt_conv_Cons)
  let ?f = "diagnostic_encode d"
  have frame: "subrange (?f @ rest) 0 frame_size = Some ?f"
    by (simp add: subrange_def diagnostic_encode_def args frame_size_def)
  have code: "take 2 ?f = le_bytes 2 (d_code d)"
    and sev: "?f ! 2 = (if d_severity d = Fatal then 1 else 0)"
    and cnt: "?f ! 3 = of_nat (d_argument_count d)"
    and off: "take 4 (drop 4 ?f) = le_bytes 4 (d_offset d)"
    and len: "take 4 (drop 8 ?f) = le_bytes 4 (d_length d)"
    and a0: "take 4 (drop 16 ?f) = le_bytes 4 a0"
    and a1: "take 4 (drop 20 ?f) = le_bytes 4 a1"
    and a2: "take 4 (drop 24 ?f) = le_bytes 4 a2"
    and a3: "take 4 (drop 28 ?f) = le_bytes 4 a3"
    by (simp_all add: diagnostic_encode_def args nth_append del: le_bytes.simps)
  have bounds: "d_code d < 65536" "d_offset d \<le> u32_max" "d_length d \<le> u32_max"
    "a0 \<le> u32_max" "a1 \<le> u32_max" "a2 \<le> u32_max" "a3 \<le> u32_max"
    "d_argument_count d \<le> max_arguments"
    using assms by (simp_all add: diagnostic_wf_def args)
  have le: "of_le (le_bytes 2 (d_code d)) = d_code d"
    "of_le (le_bytes 4 (d_offset d)) = d_offset d" "of_le (le_bytes 4 (d_length d)) = d_length d"
    "map (\<lambda>i. of_le (take 4 (drop (16 + i * 4) ?f))) [0..<max_arguments] = d_arguments d"
    using bounds by (simp_all add: of_le_le_bytes upt a0 a1 a2 a3 args del: le_bytes.simps)
  have "(if ?f ! 2 = 0 then Error else Fatal) = d_severity d"
    unfolding sev by (cases "d_severity d") simp_all
  then show ?thesis
    unfolding diagnostic_decode_def frame option.case code off len le cnt count
    using bounds(8) by simp
qed

subsection \<open>Properties\<close>

text \<open>
  C34: a diagnostic crosses the wire unchanged: the frame of any well-formed diagnostic, whatever
  follows it, decodes to that diagnostic.
\<close>

theorem diagnostic_frame_roundtrip:
  assumes "diagnostic_wf d"
  shows "diagnostic_decode (diagnostic_encode d @ rest) = Some d"
  by (rule decode_encode_frame [OF assms])

theorem diagnostic_frame_roundtrip_witness:
  "diagnostic_decode (diagnostic_encode (diagnostic_at c_unreachable_code Fatal 17) @ [1, 2]) =
   Some (diagnostic_at c_unreachable_code Fatal 17)"
  by (rule diagnostic_frame_roundtrip)
    (simp add: diagnostic_wf_def diagnostic_at_def diagnostic_new_def c_unreachable_code_def)

end
