(* ===== verification/Verify.thy ===== *)
theory Verify
  imports Bytecode_Unit Diagnostics
begin

text \<open>
  The bytecode verifier of \<^verbatim>\<open>modules/common/verify.rs\<close>. The source's per-byte scratch slice is a list
  of integers of the code's length: \<open>not_start\<close> until an instruction is seen to begin there,
  \<open>unvisited\<close> until a context depth is known, then that depth. \<open>verify_function\<close> clears its slots
  before it reads them, so what a previous function left there is not an input; the model answers
  the slots as they stand when the function is accepted, which is the certificate the soundness
  lemmas read.
\<close>

subsection \<open>The verifier\<close>

definition max_region_nesting :: nat where "max_region_nesting = 32"

abbreviation not_start :: int where "not_start \<equiv> -1"
abbreviation unvisited :: int where "unvisited \<equiv> -2"

type_synonym refused = "(opcode \<times> nat) list"

text \<open>\<open>u32::try_from(n).unwrap_or(d)\<close> on a signed value.\<close>

definition u32_or :: "int \<Rightarrow> nat \<Rightarrow> nat" where
  "u32_or n d = (if 0 \<le> n \<and> n \<le> int u32_max then nat n else d)"

definition err :: "nat \<Rightarrow> nat \<Rightarrow> nat list \<Rightarrow> diagnostic" where
  "err code offset arguments = foldl diagnostic_with (diagnostic_at code Error offset) arguments"

definition slot_at :: "int list \<Rightarrow> nat \<Rightarrow> int" where
  "slot_at state i = (case get_at state i of Some v \<Rightarrow> v | None \<Rightarrow> not_start)"

definition check_operand ::
  "nat \<Rightarrow> func_record \<Rightarrow> instruction \<Rightarrow> nat \<Rightarrow> nat \<Rightarrow> diagnostic option" where
  "check_operand constant_count f ins offset operand =
     (let value = i_operands ins ! operand in
      case sig_kinds (opcode_signature (i_opcode ins)) ! operand of
        Register \<Rightarrow>
          if fn_register_count f \<le> value
          then Some (err c_register_out_of_range offset [value, fn_register_count f]) else None
      | Constant \<Rightarrow>
          if constant_count \<le> value
          then Some (err c_constant_out_of_range offset [value, constant_count]) else None
      | Count \<Rightarrow>
          if i_opcode ins \<in> {Op_Call, Op_CallProperty, Op_TailCall, Op_Construct} \<and>
             fn_register_count f < sadd32 (i_operands ins ! 1) value
          then Some (err c_register_out_of_range offset
                 [sadd32 (i_operands ins ! 1) value, fn_register_count f])
          else None
      | Depth \<Rightarrow>
          if fn_context_depth f < value
          then Some (err c_context_depth_out_of_range offset [value, fn_context_depth f]) else None
      | Immediate \<Rightarrow> None
      | Jump \<Rightarrow> None)"

fun check_operands ::
  "nat \<Rightarrow> func_record \<Rightarrow> instruction \<Rightarrow> nat \<Rightarrow> nat list \<Rightarrow> diagnostic option" where
  "check_operands constant_count f ins offset [] = None"
| "check_operands constant_count f ins offset (operand # operands) =
     (case check_operand constant_count f ins offset operand of
        Some d \<Rightarrow> Some d
      | None \<Rightarrow> check_operands constant_count f ins offset operands)"

definition decode_failure :: "decode_error \<Rightarrow> nat" where
  "decode_failure e =
     (case e of UnknownOpcode \<Rightarrow> c_unknown_opcode | TruncatedOperand \<Rightarrow> c_truncated_operand
      | MisplacedPrefix \<Rightarrow> c_misplaced_prefix)"

definition code_length32 :: "byte list \<Rightarrow> nat" where
  "code_length32 code = min (length code) u32_max"

lemma sadd32_progress:
  "offset < code_length32 code \<Longrightarrow> 0 < n \<Longrightarrow>
   code_length32 code - sadd32 offset n < code_length32 code - offset"
  by (auto simp: sadd32_def code_length32_def)

text \<open>Pass one: instruction boundaries and operand ranges.\<close>

function pass_one ::
  "nat \<Rightarrow> refused \<Rightarrow> func_record \<Rightarrow> byte list \<Rightarrow> nat \<Rightarrow> int list \<Rightarrow> nat \<Rightarrow> opcode option \<Rightarrow>
   diagnostic + (int list \<times> nat \<times> opcode option)" where
  "pass_one constant_count refused f code index state offset last_opcode =
     (if offset < code_length32 code then
        (case decode code offset of
           Inl e \<Rightarrow> Inl (err (decode_failure e) offset [index])
         | Inr ins \<Rightarrow>
             (let state = state[offset := unvisited] in
              case find (\<lambda>(oc, _). oc = i_opcode ins) refused of
                Some (_, feature) \<Rightarrow> Inl (err c_image_not_admitted offset [feature, index])
              | None \<Rightarrow>
                  (case check_operands constant_count f ins offset
                          [0..<sig_count (opcode_signature (i_opcode ins))] of
                     Some d \<Rightarrow> Inl d
                   | None \<Rightarrow>
                       pass_one constant_count refused f code index state
                         (sadd32 offset (i_length ins)) (Some (i_opcode ins)))))
      else Inr (state, offset, last_opcode))"
  by pat_completeness auto
termination
  by (relation "measure (\<lambda>(_, _, _, code, _, _, offset, _). code_length32 code - offset)")
    (auto dest!: decode_length(1) intro: sadd32_progress)

declare pass_one.simps [simp del]

text \<open>Safe points must be ascending instruction boundaries inside the function.\<close>

fun check_safe_points ::
  "unit_view \<Rightarrow> func_record \<Rightarrow> nat \<Rightarrow> nat \<Rightarrow> int list \<Rightarrow> nat list \<Rightarrow> nat option \<Rightarrow> diagnostic option" where
  "check_safe_points u f len index state [] previous = None"
| "check_safe_points u f len index state (slot # slots) previous =
     (case unit_safe_point u (wadd32 (fn_safe_point_offset f) slot) of
        None \<Rightarrow> Some (err c_invalid_safe_point slot [index])
      | Some point \<Rightarrow>
          if len \<le> point \<or> get_at state point = Some not_start
          then Some (err c_invalid_safe_point point [index])
          else if (case previous of Some p \<Rightarrow> point \<le> p | None \<Rightarrow> False)
          then Some (err c_invalid_safe_point point [index])
          else check_safe_points u f len index state slots (Some point))"

text \<open>
  Exception regions must be ordered and properly nested. \<open>open_ends\<close> is the source's bounded stack
  of region ends, its top first.
\<close>

fun check_regions ::
  "unit_view \<Rightarrow> func_record \<Rightarrow> nat \<Rightarrow> nat \<Rightarrow> int list \<Rightarrow> nat list \<Rightarrow> nat list \<Rightarrow> nat \<Rightarrow> diagnostic option" where
  "check_regions u f len index state [] open_ends previous_start = None"
| "check_regions u f len index state (slot # slots) open_ends previous_start =
     (case unit_exception_region u (wadd32 (fn_exception_offset f) slot) of
        None \<Rightarrow> Some (err c_invalid_exception_region slot [index])
      | Some r \<Rightarrow>
          if x_end r \<le> x_start r \<or> len < x_end r \<or> fn_register_count f \<le> x_register r \<or>
             get_at state (x_start r) = Some not_start \<or> get_at state (x_handler r) = Some not_start
          then Some (err c_invalid_exception_region (x_start r) [index])
          else if x_start r < previous_start
          then Some (err c_overlapping_exception_regions (x_start r) [index])
          else
            (let open_ends = dropWhile (\<lambda>e. e \<le> x_start r) open_ends in
             if (case open_ends of e # _ \<Rightarrow> e < x_end r | [] \<Rightarrow> False)
             then Some (err c_overlapping_exception_regions (x_start r) [index])
             else if max_region_nesting \<le> length open_ends
             then Some (err c_invalid_exception_region (x_start r) [index])
             else check_regions u f len index state slots (x_end r # open_ends) (x_start r)))"

text \<open>A handler inherits the depth its region starts at.\<close>

fun region_edges ::
  "unit_view \<Rightarrow> func_record \<Rightarrow> nat \<Rightarrow> nat \<Rightarrow> int \<Rightarrow> nat list \<Rightarrow> int list \<Rightarrow> diagnostic + int list" where
  "region_edges u f index offset current [] state = Inr state"
| "region_edges u f index offset current (slot # slots) state =
     (case unit_exception_region u (wadd32 (fn_exception_offset f) slot) of
        None \<Rightarrow> Inl (err c_invalid_exception_region offset [index])
      | Some r \<Rightarrow>
          if x_start r = offset then
            (if x_context_depth r \<noteq> u32_or current u32_max
             then Inl (err c_context_depth_mismatch (x_start r) [x_context_depth r, u32_or current 0])
             else
               (let stored = slot_at state (x_handler r) in
                if 0 \<le> stored then
                  (if stored \<noteq> current
                   then Inl (err c_context_depth_mismatch (x_handler r) [u32_or current 0, u32_or stored 0])
                   else region_edges u f index offset current slots state)
                else region_edges u f index offset current slots (state[x_handler r := current])))
          else region_edges u f index offset current slots state)"

definition is_safe_point :: "unit_view \<Rightarrow> func_record \<Rightarrow> nat \<Rightarrow> bool" where
  "is_safe_point u f target =
     list_ex (\<lambda>slot. unit_safe_point u (wadd32 (fn_safe_point_offset f) slot) = Some target)
       [0..<fn_safe_point_count f]"

definition context_effect :: "opcode \<Rightarrow> int" where
  "context_effect oc =
     (if oc = Op_PushContext \<or> oc = Op_PushObjectContext then 1
      else if oc = Op_PopContext then -1 else 0)"

definition i32_or_max :: "nat \<Rightarrow> int" where
  "i32_or_max n = (if n \<le> 2147483647 then int n else 2147483647)"

definition current_depth :: "nat \<Rightarrow> nat \<Rightarrow> int option \<Rightarrow> int \<Rightarrow> diagnostic + int" where
  "current_depth index offset depth recorded =
     (case depth of
        Some reached \<Rightarrow>
          if recorded = unvisited then Inr reached
          else if 0 \<le> recorded then
            (if recorded \<noteq> reached
             then Inl (err c_context_depth_mismatch offset [u32_or reached 0, u32_or recorded 0])
             else Inr reached)
          else Inl (err c_unreachable_code offset [index])
      | None \<Rightarrow>
          if 0 \<le> recorded then Inr recorded else Inl (err c_unreachable_code offset [index]))"

definition branch_edge ::
  "unit_view \<Rightarrow> func_record \<Rightarrow> byte list \<Rightarrow> nat \<Rightarrow> instruction \<Rightarrow> int \<Rightarrow> int list \<Rightarrow> diagnostic + int list" where
  "branch_edge u f code offset ins next_depth state =
     (if \<not> is_branch (i_opcode ins) then Inr state
      else
        (let goal = int offset + i_signed ins ! 0 in
         if goal < 0 \<or> int (code_length32 code) \<le> goal
         then Inl (err c_invalid_jump_target offset [u32_or (max goal 0) u32_max])
         else
           (let target = u32_or goal 0; stored = slot_at state target in
            if stored = not_start then Inl (err c_invalid_jump_target offset [target])
            else if target \<le> offset \<and> \<not> is_safe_point u f target
            then Inl (err c_backward_jump_without_safe_point offset [target])
            else if 0 \<le> stored then
              (if stored \<noteq> next_depth
               then Inl (err c_context_depth_mismatch offset [u32_or next_depth 0, u32_or stored 0])
               else Inr state)
            else Inr (state[target := next_depth]))))"

text \<open>Pass two: control flow, backward-edge safe points, and context balance.\<close>

function pass_two ::
  "unit_view \<Rightarrow> func_record \<Rightarrow> byte list \<Rightarrow> nat \<Rightarrow> int list \<Rightarrow> nat \<Rightarrow> int option \<Rightarrow> diagnostic + int list" where
  "pass_two u f code index state offset depth =
     (if offset < code_length32 code then
        (case decode code offset of
           Inl _ \<Rightarrow> Inl (err c_truncated_operand offset [index])
         | Inr ins \<Rightarrow>
             and_then (current_depth index offset depth (slot_at state offset)) (\<lambda>current.
             and_then (region_edges u f index offset current [0..<fn_exception_count f]
                         (state[offset := current])) (\<lambda>state.
               let next_depth = current + context_effect (i_opcode ins) in
               if next_depth < 0 \<or> i32_or_max (fn_context_depth f) < next_depth
               then Inl (err c_context_depth_out_of_range offset
                      [u32_or (max next_depth 0) 0, fn_context_depth f])
               else if i_opcode ins = Op_Return \<and> next_depth \<noteq> 0
               then Inl (err c_context_depth_mismatch offset [u32_or next_depth 0, 0])
               else
                 and_then (branch_edge u f code offset ins next_depth state) (\<lambda>state.
                   pass_two u f code index state (sadd32 offset (i_length ins))
                     (if is_terminator (i_opcode ins) then None else Some next_depth)))))
      else Inr state)"
  by pat_completeness auto
termination
  by (relation "measure (\<lambda>(_, _, code, _, _, offset, _). code_length32 code - offset)")
    (auto dest!: decode_length(1) intro: sadd32_progress)

declare pass_two.simps [simp del]

definition verify_function ::
  "unit_view \<Rightarrow> nat \<Rightarrow> func_record \<Rightarrow> byte list \<Rightarrow> refused \<Rightarrow> diagnostic + int list" where
  "verify_function u index f code refused =
     (let len = code_length32 code in
      and_then (pass_one (hd_constant_count (u_header u)) refused f code index
                  (replicate (length code) not_start) 0 None)
        (\<lambda>(state, offset, last_opcode).
          if offset \<noteq> len then Inl (err c_truncated_operand len [index])
          else if \<not> (case last_opcode of Some oc \<Rightarrow> is_terminator oc | None \<Rightarrow> False)
          then Inl (err c_falls_off_end len [index])
          else
            (case check_safe_points u f len index state [0..<fn_safe_point_count f] None of
               Some d \<Rightarrow> Inl d
             | None \<Rightarrow>
                 (case check_regions u f len index state [0..<fn_exception_count f] [] 0 of
                    Some d \<Rightarrow> Inl d
                  | None \<Rightarrow> pass_two u f code index state 0 (Some 0)))))"

text \<open>
  \<open>verify_with\<close> over the functions still to check. \<open>capacity\<close> is the length of the caller's
  scratch slice.
\<close>

fun verify_functions :: "unit_view \<Rightarrow> nat \<Rightarrow> refused \<Rightarrow> nat list \<Rightarrow> diagnostic option" where
  "verify_functions u capacity refused [] = None"
| "verify_functions u capacity refused (index # rest) =
     (case unit_function u index of
        None \<Rightarrow> Some (err c_inconsistent_declared_bounds index [])
      | Some f \<Rightarrow>
          (case unit_code u f of
             None \<Rightarrow> Some (err c_inconsistent_declared_bounds index [])
           | Some code \<Rightarrow>
               if fn_register_count f < fn_argument_count f \<or> fn_frame_extent f < fn_register_count f
               then Some (err c_inconsistent_declared_bounds index [])
               else if capacity < length code
               then Some (diagnostic_at c_verifier_storage_too_small Fatal index)
               else
                 (case verify_function u index f code refused of
                    Inl d \<Rightarrow> Some d
                  | Inr _ \<Rightarrow> verify_functions u capacity refused rest)))"

definition verify_with :: "unit_view \<Rightarrow> nat \<Rightarrow> refused \<Rightarrow> diagnostic option" where
  "verify_with u capacity refused =
     verify_functions u capacity refused [0..<hd_function_count (u_header u)]"

definition verify :: "unit_view \<Rightarrow> nat \<Rightarrow> diagnostic option" where
  "verify u capacity = verify_with u capacity []"

definition image_failure :: "image_error \<Rightarrow> diagnostic" where
  "image_failure e =
     (case e of
        Magic \<Rightarrow> err c_malformed_image 0 [0]
      | FormatDigest \<Rightarrow> err c_bytecode_format_mismatch 0 [1]
      | FeatureDigest \<Rightarrow> err c_feature_list_mismatch 0 [4]
      | Truncated \<Rightarrow> err c_malformed_image 0 [2]
      | Overflow \<Rightarrow> err c_malformed_image 0 [3])"

definition admit_with ::
  "(byte list \<Rightarrow> byte list) \<Rightarrow> nat \<Rightarrow> byte list \<Rightarrow> nat \<Rightarrow> refused \<Rightarrow> diagnostic + unit_view" where
  "admit_with sha256 usize_max bytes capacity refused =
     (case parse_unit sha256 usize_max bytes of
        Inl e \<Rightarrow> Inl (image_failure e)
      | Inr u \<Rightarrow>
          (case verify_with u capacity refused of Some d \<Rightarrow> Inl d | None \<Rightarrow> Inr u))"

definition admit ::
  "(byte list \<Rightarrow> byte list) \<Rightarrow> nat \<Rightarrow> byte list \<Rightarrow> nat \<Rightarrow> diagnostic + unit_view" where
  "admit sha256 usize_max bytes capacity = admit_with sha256 usize_max bytes capacity []"

end
