(* ===== verification/Verify_Sound.thy ===== *)
theory Verify_Sound
  imports Verify
begin

text \<open>
  What acceptance by the verifier proves. The accepted slots are read as a certificate that gives
  every instruction its context depth; \<open>flow_ok\<close> is the certificate's local condition, and the
  step relation \<open>flow\<close> is the machine's control flow over pairs of an offset and a depth:
  falling through, branching, and unwinding into a handler.
\<close>

subsection \<open>Instruction boundaries\<close>

text \<open>\<open>scan code a b\<close>: decoding from \<open>a\<close>, instruction after instruction, arrives at \<open>b\<close>.\<close>

inductive scan :: "byte list \<Rightarrow> nat \<Rightarrow> nat \<Rightarrow> bool" for code where
  scan_here: "a < length code \<Longrightarrow> scan code a a"
| scan_next: "decode code a = Inr i \<Longrightarrow> scan code (a + i_length i) b \<Longrightarrow> scan code a b"

inductive_simps scan_end: "scan code (length code) b"

lemma scan_bounds: "scan code a b \<Longrightarrow> a \<le> b \<and> b < length code"
  by (induction rule: scan.induct) auto

lemma scan_unfold:
  assumes "decode code a = Inr i"
  shows "scan code a b \<longleftrightarrow> a < length code \<and> b = a \<or> scan code (a + i_length i) b"
  using assms by (auto elim: scan.cases intro: scan.intros)

lemma scan_beyond: "length code \<le> a \<Longrightarrow> \<not> scan code a b"
  using scan_bounds by fastforce

lemma code_length32_eq [simp]: "length code \<le> u32_max \<Longrightarrow> code_length32 code = length code"
  by (simp add: code_length32_def)

lemma sadd32_decode:
  assumes "decode code offset = Inr i" "length code \<le> u32_max"
  shows "sadd32 offset (i_length i) = offset + i_length i"
  using decode_length(2) [OF assms(1)] assms(2) by (intro sadd32_exact) linarith

subsection \<open>Pass one\<close>

definition operand_ok :: "nat \<Rightarrow> func_record \<Rightarrow> instruction \<Rightarrow> nat \<Rightarrow> bool" where
  "operand_ok constant_count f ins k \<longleftrightarrow>
     (let value = i_operands ins ! k in
      case sig_kinds (opcode_signature (i_opcode ins)) ! k of
        Register \<Rightarrow> value < fn_register_count f
      | Constant \<Rightarrow> value < constant_count
      | Count \<Rightarrow> i_opcode ins \<in> {Op_Call, Op_CallProperty, Op_TailCall, Op_Construct} \<longrightarrow>
          sadd32 (i_operands ins ! 1) value \<le> fn_register_count f
      | Depth \<Rightarrow> value \<le> fn_context_depth f
      | Immediate \<Rightarrow> True
      | Jump \<Rightarrow> True)"

definition operands_ok :: "nat \<Rightarrow> func_record \<Rightarrow> instruction \<Rightarrow> bool" where
  "operands_ok constant_count f ins \<longleftrightarrow>
     (\<forall>k < sig_count (opcode_signature (i_opcode ins)). operand_ok constant_count f ins k)"

lemma check_operand_None:
  assumes "check_operand constant_count f ins offset k = None"
  shows "operand_ok constant_count f ins k"
  using assms
  by (auto simp: check_operand_def operand_ok_def Let_def split: operand_kind.splits if_splits)

lemma check_operands_None:
  assumes "check_operands constant_count f ins offset ks = None" "k \<in> set ks"
  shows "operand_ok constant_count f ins k"
  using assms by (induction ks) (auto split: option.splits intro: check_operand_None)

lemma pass_one_sound:
  assumes "pass_one constant_count refused f code index state offset last_opcode = Inr (state', offset', last')"
    and "length code \<le> u32_max" "length state = length code" "offset \<le> length code"
  shows "length state' = length code \<and> offset' = length code \<and>
    (\<forall>p < length code. state' ! p = (if scan code offset p then unvisited else state ! p)) \<and>
    (\<forall>p i. scan code offset p \<longrightarrow> decode code p = Inr i \<longrightarrow>
       check_operands constant_count f i p [0..<sig_count (opcode_signature (i_opcode i))] = None \<and>
       i_opcode i \<notin> fst ` set refused \<and>
       (p + i_length i = length code \<longrightarrow> last' = Some (i_opcode i))) \<and>
    (\<forall>p. scan code offset p \<longrightarrow> (\<exists>i. decode code p = Inr i)) \<and>
    (offset = length code \<longrightarrow> last' = last_opcode)"
  using assms
proof (induction constant_count refused f code index state offset last_opcode rule: pass_one.induct)
  case (1 constant_count refused f code index state offset last_opcode)
  show ?case
  proof (cases "offset < length code")
    case False
    then have "pass_one constant_count refused f code index state offset last_opcode =
        Inr (state, offset, last_opcode)"
      using "1.prems"(2) by (subst pass_one.simps) simp
    with False show ?thesis
      using "1.prems" scan_beyond [of code offset] by auto
  next
    case True
    then have lt: "offset < code_length32 code" using "1.prems"(2) by simp
    obtain ins where dec: "decode code offset = Inr ins"
      using "1.prems"(1) lt by (auto simp: pass_one.simps [of _ _ _ _ _ _ offset] split: sum.splits)
    have find: "find (\<lambda>(oc, _). oc = i_opcode ins) refused = None"
      using "1.prems"(1) lt dec
      by (auto simp: pass_one.simps [of _ _ _ _ _ _ offset] Let_def split: option.splits)
    have ops: "check_operands constant_count f ins offset
        [0..<sig_count (opcode_signature (i_opcode ins))] = None"
      using "1.prems"(1) lt dec find
      by (auto simp: pass_one.simps [of _ _ _ _ _ _ offset] Let_def split: option.splits)
    have rec: "pass_one constant_count refused f code index (state[offset := unvisited])
        (sadd32 offset (i_length ins)) (Some (i_opcode ins)) = Inr (state', offset', last')"
      using "1.prems"(1) lt dec find ops by (simp add: pass_one.simps [of _ _ _ _ _ _ offset] Let_def)
    note adv = sadd32_decode [OF dec "1.prems"(2)] and le = decode_length(1,2) [OF dec]
    note IH = "1.IH" [OF lt dec refl find ops rec, unfolded adv, simplified, OF "1.prems"(2,3) le(2)]
    have notref: "i_opcode ins \<notin> fst ` set refused"
      using find by (auto simp: find_None_iff)
    have "\<not> scan code (offset + i_length ins) offset"
      using scan_bounds le(1) by fastforce
    then show ?thesis
      using IH True le ops notref "1.prems"(3) dec
      by (auto simp: scan_unfold [OF dec] nth_list_update)
  qed
qed

subsection \<open>Pass two\<close>

text \<open>A later state keeps every depth recorded so far and the set of instruction starts.\<close>

definition extends :: "int list \<Rightarrow> int list \<Rightarrow> bool" where
  "extends s t \<longleftrightarrow> length t = length s \<and>
     (\<forall>i < length s. (0 \<le> s ! i \<longrightarrow> t ! i = s ! i) \<and> (t ! i = not_start \<longleftrightarrow> s ! i = not_start))"

lemma extends_refl [simp]: "extends s s"
  by (simp add: extends_def)

lemma extends_trans: "extends s t \<Longrightarrow> extends t r \<Longrightarrow> extends s r"
  by (auto simp: extends_def)

lemma extends_update:
  "slot_at s i \<noteq> not_start \<or> length s \<le> i \<Longrightarrow> slot_at s i < 0 \<or> slot_at s i = d \<Longrightarrow> 0 \<le> d \<Longrightarrow>
   extends s (s[i := d])"
  by (cases "i < length s") (auto simp: extends_def slot_at_def get_at_def nth_list_update)

definition region_at :: "unit_view \<Rightarrow> func_record \<Rightarrow> nat \<Rightarrow> exception_region option" where
  "region_at u f slot = unit_exception_region u (wadd32 (fn_exception_offset f) slot)"

definition handlers_ok :: "unit_view \<Rightarrow> func_record \<Rightarrow> int list \<Rightarrow> bool" where
  "handlers_ok u f state \<longleftrightarrow>
     (\<forall>slot < fn_exception_count f. \<forall>r. region_at u f slot = Some r \<longrightarrow>
        get_at state (x_handler r) \<noteq> Some not_start)"

lemma handlers_ok_extends: "handlers_ok u f s \<Longrightarrow> extends s t \<Longrightarrow> handlers_ok u f t"
  by (fastforce simp: handlers_ok_def extends_def get_at_def split: if_splits)

definition flow_ok :: "unit_view \<Rightarrow> func_record \<Rightarrow> byte list \<Rightarrow> int list \<Rightarrow> nat \<Rightarrow> instruction \<Rightarrow> bool" where
  "flow_ok u f code S p i \<longleftrightarrow>
     0 \<le> S ! p \<and>
     (let d = S ! p + context_effect (i_opcode i); goal = int p + i_signed i ! 0 in
      0 \<le> d \<and> d \<le> i32_or_max (fn_context_depth f) \<and>
      (i_opcode i = Op_Return \<longrightarrow> d = 0) \<and>
      (is_branch (i_opcode i) \<longrightarrow>
         0 \<le> goal \<and> goal < int (length code) \<and> S ! nat goal = d \<and>
         (nat goal \<le> p \<longrightarrow> is_safe_point u f (nat goal))) \<and>
      (\<not> is_terminator (i_opcode i) \<longrightarrow> p + i_length i < length code \<longrightarrow>
         S ! (p + i_length i) = d)) \<and>
     (\<forall>slot < fn_exception_count f. \<exists>r. region_at u f slot = Some r \<and>
        (x_start r = p \<longrightarrow> int (x_context_depth r) = S ! p \<and>
           (x_handler r < length code \<longrightarrow> S ! x_handler r = S ! p)))"

lemma region_edges_sound:
  assumes "region_edges u f index offset current slots state = Inr state'" "0 \<le> current"
    "set slots \<subseteq> {..<fn_exception_count f}" "handlers_ok u f state"
  shows "extends state state' \<and>
    (\<forall>slot \<in> set slots. \<exists>r. region_at u f slot = Some r \<and>
       (x_start r = offset \<longrightarrow> x_context_depth r = u32_or current u32_max \<and>
          (x_handler r < length state \<longrightarrow> state' ! x_handler r = current)))"
  using assms
proof (induction slots arbitrary: state)
  case (Cons slot slots)
  obtain r where r: "region_at u f slot = Some r"
    using Cons.prems(1) by (auto simp: region_at_def split: option.splits)
  note r' = r [unfolded region_at_def]
  let ?h = "x_handler r"
  show ?case
  proof (cases "x_start r = offset")
    case False
    then have "region_edges u f index offset current slots state = Inr state'"
      using Cons.prems(1) r' by simp
    from Cons.IH [OF this] Cons.prems False r show ?thesis by auto
  next
    case True
    have depth: "x_context_depth r = u32_or current u32_max"
      using Cons.prems(1) r' True by (auto split: if_splits)
    have same: "0 \<le> slot_at state ?h \<Longrightarrow> slot_at state ?h = current"
      using Cons.prems(1) r' True depth by (auto simp: Let_def split: if_splits)
    define s1 where "s1 = (if 0 \<le> slot_at state ?h then state else state[?h := current])"
    have rec: "region_edges u f index offset current slots s1 = Inr state'"
      using Cons.prems(1) r' True depth same by (auto simp: s1_def Let_def split: if_splits)
    have "slot_at state ?h \<noteq> not_start \<or> length state \<le> ?h"
      using Cons.prems(3,4) r by (auto simp: handlers_ok_def slot_at_def get_at_def split: if_splits)
    then have ext: "extends state s1"
      using extends_update [of state ?h current] Cons.prems(2) by (auto simp: s1_def)
    have at: "?h < length state \<Longrightarrow> s1 ! ?h = current"
      using same by (auto simp: s1_def slot_at_def get_at_def)
    have len: "length s1 = length state" by (simp add: s1_def)
    note IH = Cons.IH [OF rec Cons.prems(2) _ handlers_ok_extends [OF Cons.prems(4) ext]]
    have "?h < length state \<Longrightarrow> state' ! ?h = current"
      using IH Cons.prems(2,3) at len by (auto simp: extends_def)
    then show ?thesis
      using IH Cons.prems(3) ext r depth len by (auto intro: extends_trans)
  qed
qed auto

lemma branch_edge_sound:
  assumes "branch_edge u f code offset ins d state = Inr state'" "0 \<le> d"
    "length code \<le> u32_max" "length state = length code"
  shows "extends state state' \<and>
    (is_branch (i_opcode ins) \<longrightarrow>
      (let goal = int offset + i_signed ins ! 0 in
       0 \<le> goal \<and> goal < int (length code) \<and> state' ! nat goal = d \<and>
       (nat goal \<le> offset \<longrightarrow> is_safe_point u f (nat goal))))"
proof (cases "is_branch (i_opcode ins)")
  case True
  define goal where "goal = int offset + i_signed ins ! 0"
  have goal: "0 \<le> goal" "goal < int (length code)"
    using assms(1,3) True by (auto simp: branch_edge_def goal_def Let_def split: if_splits)
  then have tgt: "u32_or goal 0 = nat goal" using assms(3) by (auto simp: u32_or_def)
  have stored: "slot_at state (nat goal) \<noteq> not_start"
    and safe: "nat goal \<le> offset \<Longrightarrow> is_safe_point u f (nat goal)"
    and same: "0 \<le> slot_at state (nat goal) \<Longrightarrow> slot_at state (nat goal) = d \<and> state' = state"
    and fresh: "\<not> 0 \<le> slot_at state (nat goal) \<Longrightarrow> state' = state[nat goal := d]"
    using assms(1,3) True goal tgt
    by (auto simp: branch_edge_def goal_def [symmetric] Let_def split: if_splits)
  have "extends state state'"
    using extends_update [of state "nat goal" d] stored same fresh assms(2)
    by (cases "0 \<le> slot_at state (nat goal)") auto
  moreover have "state' ! nat goal = d"
    using same fresh goal assms(4)
    by (cases "0 \<le> slot_at state (nat goal)") (auto simp: slot_at_def get_at_def nat_less_iff)
  ultimately show ?thesis using goal safe by (simp add: goal_def Let_def)
qed (use assms in \<open>auto simp: branch_edge_def\<close>)

lemma current_depth_sound:
  assumes "current_depth index offset depth recorded = Inr current"
    "\<And>d. depth = Some d \<Longrightarrow> 0 \<le> d"
  shows "0 \<le> current \<and> recorded \<noteq> not_start \<and> (recorded < 0 \<or> recorded = current) \<and>
    (\<forall>d. depth = Some d \<longrightarrow> current = d)"
  using assms by (auto simp: current_depth_def split: option.splits if_splits)

lemma pass_two_InrE:
  assumes "pass_two u f code index state offset depth = Inr S" "offset < code_length32 code"
  obtains ins current s1 s2 where
    "decode code offset = Inr ins"
    "current_depth index offset depth (slot_at state offset) = Inr current"
    "region_edges u f index offset current [0..<fn_exception_count f] (state[offset := current]) = Inr s1"
    "\<not> (current + context_effect (i_opcode ins) < 0 \<or>
        i32_or_max (fn_context_depth f) < current + context_effect (i_opcode ins))"
    "\<not> (i_opcode ins = Op_Return \<and> current + context_effect (i_opcode ins) \<noteq> 0)"
    "branch_edge u f code offset ins (current + context_effect (i_opcode ins)) s1 = Inr s2"
    "pass_two u f code index s2 (sadd32 offset (i_length ins))
       (if is_terminator (i_opcode ins) then None
        else Some (current + context_effect (i_opcode ins))) = Inr S"
proof -
  obtain ins where dec: "decode code offset = Inr ins"
    using assms by (auto simp: pass_two.simps [of _ _ _ _ _ offset] split: sum.splits)
  show thesis
    using assms(1) [unfolded pass_two.simps [of _ _ _ _ _ offset], simplified assms(2) dec,
        simplified, unfolded and_then_Inr Let_def] that [OF dec]
    by (auto simp: and_then_Inr split: if_splits)
qed

lemma pass_two_sound:
  assumes "pass_two u f code index state offset depth = Inr S"
    "length code \<le> u32_max" "length state = length code" "handlers_ok u f state"
    "\<And>d. depth = Some d \<Longrightarrow> 0 \<le> d"
  shows "extends state S \<and>
    (\<forall>p i. scan code offset p \<longrightarrow> decode code p = Inr i \<longrightarrow> flow_ok u f code S p i) \<and>
    (\<forall>d. depth = Some d \<longrightarrow> offset < length code \<longrightarrow> S ! offset = d)"
  using assms
proof (induction u f code index state offset depth rule: pass_two.induct)
  case (1 u f code index state offset depth)
  show ?case
  proof (cases "offset < length code")
    case False
    then have "S = state" using "1.prems"(1,2) by (simp add: pass_two.simps [of _ _ _ _ _ offset])
    then show ?thesis using False scan_beyond [of code offset] by auto
  next
    case True
    then have lt: "offset < code_length32 code" using "1.prems"(2) by simp
    obtain ins current s1 s2 where
      dec: "decode code offset = Inr ins" and
      cur: "current_depth index offset depth (slot_at state offset) = Inr current" and
      reg: "region_edges u f index offset current [0..<fn_exception_count f] (state[offset := current]) = Inr s1" and
      range: "\<not> (current + context_effect (i_opcode ins) < 0 \<or>
         i32_or_max (fn_context_depth f) < current + context_effect (i_opcode ins))" and
      ret: "\<not> (i_opcode ins = Op_Return \<and> current + context_effect (i_opcode ins) \<noteq> 0)" and
      br: "branch_edge u f code offset ins (current + context_effect (i_opcode ins)) s1 = Inr s2" and
      rec: "pass_two u f code index s2 (sadd32 offset (i_length ins))
         (if is_terminator (i_opcode ins) then None
          else Some (current + context_effect (i_opcode ins))) = Inr S"
      using "1.prems"(1) lt by (rule pass_two_InrE)
    let ?d = "current + context_effect (i_opcode ins)"
    note cs = current_depth_sound [OF cur "1.prems"(5)]
    have e0: "extends state (state[offset := current])"
      using cs by (intro extends_update) auto
    have slots: "set [0..<fn_exception_count f] \<subseteq> {..<fn_exception_count f}" by auto
    have cur0: "0 \<le> current" using cs by simp
    note re = region_edges_sound [OF reg cur0 slots handlers_ok_extends [OF "1.prems"(4) e0]]
    have re': "extends (state[offset := current]) s1" using re by blast
    have d0: "0 \<le> ?d" using range by simp
    have len1: "length s1 = length code" using re' "1.prems"(3) by (simp add: extends_def)
    note be = branch_edge_sound [OF br d0 "1.prems"(2) len1]
    have e2: "extends state s2" using e0 re' be by (blast intro: extends_trans)
    have len2: "length s2 = length code" using e2 "1.prems"(3) by (simp add: extends_def)
    have nn: "0 \<le> d" if "(if is_terminator (i_opcode ins) then None else Some ?d) = Some d" for d
      using that d0 by (auto split: if_splits)
    note IH = "1.IH" [OF lt dec refl range ret rec "1.prems"(2) len2 handlers_ok_extends [OF "1.prems"(4) e2] nn,
        unfolded sadd32_decode [OF dec "1.prems"(2)]]
    have ext: "extends s2 S"
      and rest: "\<And>p i. scan code (offset + i_length ins) p \<Longrightarrow> decode code p = Inr i \<Longrightarrow> flow_ok u f code S p i"
      using IH by auto
    have fall: "S ! (offset + i_length ins) = ?d"
      if "\<not> is_terminator (i_opcode ins)" "offset + i_length ins < length code"
      using IH that by auto
    have eS: "extends (state[offset := current]) S"
      using re' be ext by (blast intro: extends_trans)
    have at: "S ! offset = current"
      using eS True "1.prems"(3) cur0 by (auto simp: extends_def)
    have kept: "s ! p = v \<Longrightarrow> 0 \<le> v \<Longrightarrow> p < length s \<Longrightarrow> extends s S \<Longrightarrow> S ! p = v" for s p v
      by (auto simp: extends_def)
    have branch: "S ! nat (int offset + i_signed ins ! 0) = ?d" if "is_branch (i_opcode ins)"
      using be that d0 len2 by (intro kept [OF _ d0 _ ext]) (auto simp: Let_def nat_less_iff)
    have small: "u32_or current u32_max = nat current"
      using range cur0 by (auto simp: u32_or_def i32_or_max_def context_effect_def split: if_splits)
    have regions: "\<exists>r. region_at u f slot = Some r \<and>
        (x_start r = offset \<longrightarrow> int (x_context_depth r) = current \<and>
           (x_handler r < length code \<longrightarrow> S ! x_handler r = current))" if slot: "slot < fn_exception_count f" for slot
    proof -
      obtain r where r: "region_at u f slot = Some r" "x_start r = offset \<longrightarrow>
          x_context_depth r = u32_or current u32_max \<and> (x_handler r < length code \<longrightarrow> s1 ! x_handler r = current)"
        using re [THEN conjunct2, THEN bspec, of slot] "1.prems"(3) slot by auto
      have "extends s1 S" using be ext by (blast intro: extends_trans)
      then show ?thesis
        using r small cur0 len1 kept [of s1 "x_handler r" current] by auto
    qed
    have "flow_ok u f code S offset ins"
      unfolding flow_ok_def Let_def at using cur0 range ret be branch fall regions
      by (auto simp: Let_def)
    then show ?thesis
      using rest e2 ext at cs dec by (auto simp: scan_unfold [OF dec] intro: extends_trans)
  qed
qed

lemma region_edges_bounded:
  assumes "region_edges u f index offset current slots state = Inr state'"
    "\<forall>v \<in> set state. v \<le> b" "current \<le> b"
  shows "\<forall>v \<in> set state'. v \<le> b"
  using assms
  by (induction slots arbitrary: state)
    (auto simp: Let_def dest!: set_update_subset_insert [THEN subsetD] split: option.splits if_splits)

lemma branch_edge_bounded:
  assumes "branch_edge u f code offset ins d state = Inr state'" "\<forall>v \<in> set state. v \<le> b" "d \<le> b"
  shows "\<forall>v \<in> set state'. v \<le> b"
  using assms
  by (auto simp: branch_edge_def Let_def dest!: set_update_subset_insert [THEN subsetD] split: if_splits)

lemma pass_two_bounded:
  assumes "pass_two u f code index state offset depth = Inr S"
    "\<forall>v \<in> set state. v \<le> i32_or_max (fn_context_depth f)"
    "\<And>d. depth = Some d \<Longrightarrow> d \<le> i32_or_max (fn_context_depth f)"
  shows "\<forall>v \<in> set S. v \<le> i32_or_max (fn_context_depth f)"
  using assms
proof (induction u f code index state offset depth rule: pass_two.induct)
  case (1 u f code index state offset depth)
  let ?b = "i32_or_max (fn_context_depth f)"
  show ?case
  proof (cases "offset < code_length32 code")
    case False
    then show ?thesis using "1.prems" by (simp add: pass_two.simps [of _ _ _ _ _ offset])
  next
    case lt: True
    obtain ins current s1 s2 where
      dec: "decode code offset = Inr ins" and
      cur: "current_depth index offset depth (slot_at state offset) = Inr current" and
      reg: "region_edges u f index offset current [0..<fn_exception_count f] (state[offset := current]) = Inr s1" and
      range: "\<not> (current + context_effect (i_opcode ins) < 0 \<or>
         i32_or_max (fn_context_depth f) < current + context_effect (i_opcode ins))" and
      ret: "\<not> (i_opcode ins = Op_Return \<and> current + context_effect (i_opcode ins) \<noteq> 0)" and
      br: "branch_edge u f code offset ins (current + context_effect (i_opcode ins)) s1 = Inr s2" and
      rec: "pass_two u f code index s2 (sadd32 offset (i_length ins))
         (if is_terminator (i_opcode ins) then None
          else Some (current + context_effect (i_opcode ins))) = Inr S"
      using "1.prems"(1) lt by (rule pass_two_InrE)
    have "slot_at state offset \<le> ?b \<or> slot_at state offset = not_start"
      using "1.prems"(2) by (auto simp: slot_at_def get_at_def)
    then have "current \<le> ?b"
      using cur "1.prems"(3) by (auto simp: current_depth_def split: option.splits if_splits)
    then have "\<forall>v \<in> set s2. v \<le> ?b"
      using "1.prems"(2) range
      by (intro branch_edge_bounded [OF br] region_edges_bounded [OF reg])
        (auto dest!: set_update_subset_insert [THEN subsetD])
    then show ?thesis
      by (rule "1.IH" [OF lt dec refl range ret rec]) (use range in \<open>auto split: if_splits\<close>)
  qed
qed

subsection \<open>Exception regions nest\<close>

text \<open>Two regions, the first listed first: it starts no later, and the second is beyond it or inside it.\<close>

definition nests :: "exception_region \<Rightarrow> exception_region \<Rightarrow> bool" where
  "nests r q \<longleftrightarrow> x_start r \<le> x_start q \<and> (x_end r \<le> x_start q \<or> x_end q \<le> x_end r)"

definition regions_of :: "unit_view \<Rightarrow> func_record \<Rightarrow> nat list \<Rightarrow> exception_region list" where
  "regions_of u f slots = List.map_filter (region_at u f) slots"

lemma regions_of_simps [simp]:
  "regions_of u f [] = []"
  "region_at u f slot = Some r \<Longrightarrow> regions_of u f (slot # slots) = r # regions_of u f slots"
  by (simp_all add: regions_of_def List.map_filter_def)

lemma set_regions_of: "set (regions_of u f slots) = {r. \<exists>slot \<in> set slots. region_at u f slot = Some r}"
  by (force simp: regions_of_def List.map_filter_def)

lemma check_regions_sound:
  assumes "check_regions u f len index state slots open_ends previous = None" "sorted open_ends"
  shows "sorted_wrt nests (regions_of u f slots) \<and>
    (\<forall>r \<in> set (regions_of u f slots). previous \<le> x_start r \<and>
       x_start r < x_end r \<and> x_end r \<le> len \<and> x_register r < fn_register_count f \<and>
       get_at state (x_start r) \<noteq> Some not_start \<and> get_at state (x_handler r) \<noteq> Some not_start \<and>
       (\<forall>e \<in> set open_ends. e \<le> x_start r \<or> x_end r \<le> e)) \<and>
    (\<forall>slot \<in> set slots. region_at u f slot \<noteq> None)"
  using assms
proof (induction slots arbitrary: open_ends previous)
  case (Cons slot slots)
  obtain r where r: "region_at u f slot = Some r"
    using Cons.prems(1) by (auto simp: region_at_def split: option.splits)
  define rest where "rest = dropWhile (\<lambda>e. e \<le> x_start r) open_ends"
  have ok: "x_start r < x_end r \<and> x_end r \<le> len \<and> x_register r < fn_register_count f \<and>
       get_at state (x_start r) \<noteq> Some not_start \<and> get_at state (x_handler r) \<noteq> Some not_start \<and>
       previous \<le> x_start r"
    and inside: "\<not> (case rest of e # _ \<Rightarrow> e < x_end r | [] \<Rightarrow> False)"
    and rec: "check_regions u f len index state slots (x_end r # rest) (x_start r) = None"
    using Cons.prems(1) r by (auto simp: region_at_def rest_def Let_def split: if_splits)
  have sub: "set rest \<subseteq> set open_ends" by (auto simp: rest_def dest: set_dropWhileD)
  have srt: "sorted rest"
    using Cons.prems(2) by (simp add: rest_def sorted_dropWhile)
  then have above: "\<forall>e \<in> set rest. x_end r \<le> e"
    using inside by (cases rest) auto
  then have "sorted (x_end r # rest)" using srt by simp
  note IH = Cons.IH [OF rec this]
  have below: "\<forall>e \<in> set open_ends. e \<le> x_start r \<or> e \<in> set rest"
    by (metis rest_def Un_iff set_append set_takeWhileD takeWhile_dropWhile_id)
  have later: "e \<le> x_start q \<or> x_end q \<le> e"
    if "e \<in> set open_ends" "q \<in> set (regions_of u f slots)" for e q
    using IH below that by (meson le_trans list.set_intros(2))
  have "nests r q" if "q \<in> set (regions_of u f slots)" for q
    using IH that by (auto simp: nests_def)
  then show ?case
    using IH ok r below above later by (auto intro: le_trans)
qed (simp add: regions_of_def List.map_filter_def)

subsection \<open>The certificate\<close>

lemma scan_step:
  "scan code a p \<Longrightarrow> decode code p = Inr i \<Longrightarrow> p + i_length i < length code \<Longrightarrow> scan code a (p + i_length i)"
  by (induction rule: scan.induct) (auto intro: scan.intros)

text \<open>
  What an accepted function's slots show: the code is a sequence of instructions that ends in a
  terminator, every one of them has operands in range and satisfies \<open>flow_ok\<close>, the slots that
  hold a depth are exactly the instruction starts, and the regions nest.
\<close>

definition certified :: "unit_view \<Rightarrow> func_record \<Rightarrow> byte list \<Rightarrow> refused \<Rightarrow> int list \<Rightarrow> bool" where
  "certified u f code refused S \<longleftrightarrow>
     code \<noteq> [] \<and> length S = length code \<and> S ! 0 = 0 \<and>
     (\<forall>p < length code. S ! p \<noteq> not_start \<longleftrightarrow> scan code 0 p) \<and>
     (\<forall>v \<in> set S. v \<le> i32_or_max (fn_context_depth f)) \<and>
     (\<forall>p. scan code 0 p \<longrightarrow> (\<exists>i. decode code p = Inr i \<and>
        operands_ok (hd_constant_count (u_header u)) f i \<and> i_opcode i \<notin> fst ` set refused \<and>
        flow_ok u f code S p i \<and>
        (\<not> is_terminator (i_opcode i) \<longrightarrow> p + i_length i < length code))) \<and>
     sorted_wrt nests (regions_of u f [0..<fn_exception_count f]) \<and>
     (\<forall>slot < fn_exception_count f. \<exists>r. region_at u f slot = Some r \<and>
        x_start r < x_end r \<and> x_end r \<le> length code \<and> x_register r < fn_register_count f \<and>
        scan code 0 (x_start r) \<and> (x_handler r < length code \<longrightarrow> scan code 0 (x_handler r)))"

lemma verify_function_passes:
  assumes "verify_function u index f code refused = Inr S" "length code \<le> u32_max"
  obtains state oc where
    "pass_one (hd_constant_count (u_header u)) refused f code index
       (replicate (length code) not_start) 0 None = Inr (state, length code, Some oc)"
    "is_terminator oc"
    "check_safe_points u f (length code) index state [0..<fn_safe_point_count f] None = None"
    "check_regions u f (length code) index state [0..<fn_exception_count f] [] 0 = None"
    "pass_two u f code index state 0 (Some 0) = Inr S"
  using assms
  by (auto simp: verify_function_def Let_def and_then_Inr split: if_splits option.splits)

lemma verify_function_certified:
  assumes "verify_function u index f code refused = Inr S" "length code \<le> u32_max"
  shows "certified u f code refused S"
proof -
  obtain state oc where
    one: "pass_one (hd_constant_count (u_header u)) refused f code index
       (replicate (length code) not_start) 0 None = Inr (state, length code, Some oc)" and
    final: "is_terminator oc" and
    regs: "check_regions u f (length code) index state [0..<fn_exception_count f] [] 0 = None" and
    two: "pass_two u f code index state 0 (Some 0) = Inr S"
    using assms by (rule verify_function_passes)
  have ne: "code \<noteq> []"
    using one by (auto simp: pass_one.simps)
  note p1 = pass_one_sound [OF one assms(2), simplified]
  have len: "length state = length code" using p1 by blast
  have last: "p + i_length i = length code \<Longrightarrow> oc = i_opcode i"
    and ops: "check_operands (hd_constant_count (u_header u)) f i p
      [0..<sig_count (opcode_signature (i_opcode i))] = None"
    and admitted: "i_opcode i \<notin> fst ` set refused"
    if "scan code 0 p" "decode code p = Inr i" for p i
    using p1 that by blast+
  have starts: "\<And>p. p < length code \<Longrightarrow> state ! p = (if scan code 0 p then unvisited else not_start)"
    using p1 by simp
  note rs = check_regions_sound [OF regs, simplified]
  have reg: "\<exists>r. region_at u f slot = Some r \<and> r \<in> set (regions_of u f [0..<fn_exception_count f])"
    if "slot < fn_exception_count f" for slot
    using rs that by (fastforce simp: set_regions_of)
  have scan_at: "scan code 0 p" if "get_at state p \<noteq> Some not_start" "p < length code" for p
    using that starts len by (auto simp: get_at_def split: if_splits)
  have "handlers_ok u f state"
    using rs by (fastforce simp: handlers_ok_def set_regions_of)
  note p2 = pass_two_sound [OF two assms(2) len this, simplified]
  have ext: "extends state S" using p2 by blast
  have slots: "S ! p \<noteq> not_start \<longleftrightarrow> scan code 0 p" if "p < length code" for p
    using ext starts [OF that] len that by (auto simp: extends_def)
  have bounded: "\<forall>v \<in> set S. v \<le> i32_or_max (fn_context_depth f)"
  proof (rule pass_two_bounded [OF two])
    show "\<forall>v \<in> set state. v \<le> i32_or_max (fn_context_depth f)"
      using starts len by (auto simp: in_set_conv_nth i32_or_max_def)
  qed (simp add: i32_or_max_def)
  have instr: "\<exists>i. decode code p = Inr i \<and>
        operands_ok (hd_constant_count (u_header u)) f i \<and> i_opcode i \<notin> fst ` set refused \<and>
        flow_ok u f code S p i \<and> (\<not> is_terminator (i_opcode i) \<longrightarrow> p + i_length i < length code)"
    if sc: "scan code 0 p" for p
  proof -
    obtain i where i: "decode code p = Inr i" using p1 sc by blast
    have "p + i_length i < length code" if "\<not> is_terminator (i_opcode i)"
    proof -
      have "p + i_length i \<noteq> length code" using last [OF sc i] that final by auto
      then show ?thesis using decode_length(2) [OF i] by simp
    qed
    moreover have "operands_ok (hd_constant_count (u_header u)) f i"
      using check_operands_None [OF ops [OF sc i]] by (simp add: operands_ok_def)
    moreover have "flow_ok u f code S p i" using p2 sc i by blast
    ultimately show ?thesis using i admitted [OF sc i] by blast
  qed
  have regions: "\<exists>r. region_at u f slot = Some r \<and>
        x_start r < x_end r \<and> x_end r \<le> length code \<and> x_register r < fn_register_count f \<and>
        scan code 0 (x_start r) \<and> (x_handler r < length code \<longrightarrow> scan code 0 (x_handler r))"
    if slot: "slot < fn_exception_count f" for slot
  proof -
    obtain r where r: "region_at u f slot = Some r" "r \<in> set (regions_of u f [0..<fn_exception_count f])"
      using reg [OF slot] by blast
    have "x_start r < x_end r" "x_end r \<le> length code" "x_register r < fn_register_count f"
      "get_at state (x_start r) \<noteq> Some not_start" "get_at state (x_handler r) \<noteq> Some not_start"
      using rs r(2) by blast+
    then show ?thesis using r(1) scan_at [of "x_start r"] scan_at [of "x_handler r"] by auto
  qed
  have "length S = length code" "S ! 0 = 0"
    using ext len p2 ne by (auto simp: extends_def)
  then show ?thesis
    unfolding certified_def using ne slots bounded instr regions rs by (intro conjI) blast+
qed

lemma unit_function_bounds:
  assumes "unit_function u index = Some f"
  shows "fn_code_length f \<le> u32_max" "fn_context_depth f \<le> u32_max" "index < hd_function_count (u_header u)"
  using assms by (auto simp: unit_function_def Let_def bind_eq_Some_conv dest: read_le32_bound split: if_splits)

lemma unit_code_length: "unit_code u f = Some code \<Longrightarrow> length code = fn_code_length f"
  by (auto simp: unit_code_def Let_def dest: length_subrange)

lemma verify_functions_None:
  assumes "verify_functions u capacity refused indices = None" "index \<in> set indices"
  shows "\<exists>f code S. unit_function u index = Some f \<and> unit_code u f = Some code \<and>
     fn_argument_count f \<le> fn_register_count f \<and> fn_register_count f \<le> fn_frame_extent f \<and>
     certified u f code refused S"
  using assms
proof (induction indices)
  case (Cons i indices)
  obtain f code where f: "unit_function u i = Some f" and code: "unit_code u f = Some code"
    using Cons.prems(1) by (auto split: option.splits)
  have bounds: "fn_argument_count f \<le> fn_register_count f" "fn_register_count f \<le> fn_frame_extent f"
    using Cons.prems(1) f code by (auto split: if_splits)
  obtain S where S: "verify_function u i f code refused = Inr S"
    using Cons.prems(1) f code by (auto split: if_splits sum.splits)
  have "certified u f code refused S"
    using S unit_code_length [OF code] unit_function_bounds(1) [OF f]
    by (intro verify_function_certified) simp_all
  moreover have "verify_functions u capacity refused indices = None"
    using Cons.prems(1) f code S by (auto split: if_splits)
  ultimately show ?case using Cons f code bounds by auto
qed simp

end
