(* ===== verification/Control_Flow.thy ===== *)
theory Control_Flow
  imports Verify_Sound
begin

text \<open>
  The interpreter's control flow over verified code: where a jump goes, which handler takes a
  throw, and the pairs of program counter and context count that a frame can be in. These are
  \<^verbatim>\<open>jump_target\<close>, \<^verbatim>\<open>handler_for\<close> and the program-counter updates of \<^verbatim>\<open>run\<close> and \<^verbatim>\<open>unwind\<close> in
  \<^verbatim>\<open>modules/common/vm.rs\<close>. The lemmas show what a frame may rely on once the verifier has accepted
  its function.
\<close>

subsection \<open>Jumps and handlers\<close>

definition jump_target :: "nat \<Rightarrow> int \<Rightarrow> nat" where
  "jump_target pc displacement = u32_or (max (int pc + displacement) 0) 0"

definition covers :: "exception_region \<Rightarrow> nat \<Rightarrow> bool" where
  "covers r position \<longleftrightarrow> x_start r \<le> position \<and> position < x_end r"

fun handler_search ::
  "unit_view \<Rightarrow> func_record \<Rightarrow> nat \<Rightarrow> nat list \<Rightarrow> exception_region option \<Rightarrow> exception_region option" where
  "handler_search u f position [] found = found"
| "handler_search u f position (slot # slots) found =
     (case unit_exception_region u (wadd32 (fn_exception_offset f) slot) of
        None \<Rightarrow> None
      | Some r \<Rightarrow>
          handler_search u f position slots
            (if covers r position \<and>
                (case found of
                   Some c \<Rightarrow> x_start c \<le> x_start r \<and> x_end r \<le> x_end c
                 | None \<Rightarrow> True)
             then Some r else found))"

text \<open>The program counter has already moved past the throwing instruction.\<close>

definition handler_for :: "unit_view \<Rightarrow> func_record \<Rightarrow> nat \<Rightarrow> exception_region option" where
  "handler_for u f pc = handler_search u f (pc - 1) [0..<fn_exception_count f] None"

subsection \<open>The frame's steps\<close>

text \<open>
  A frame's position is its program counter and its count of entered contexts. Any instruction may
  throw, so each has an edge to its innermost handler; the handler starts at the region's own
  count, which is what \<^verbatim>\<open>unwind\<close> writes into the frame.
\<close>

definition unwound :: "exception_region \<Rightarrow> nat \<times> int" where
  "unwound r = (x_handler r, int (x_context_depth r))"

inductive flow :: "unit_view \<Rightarrow> func_record \<Rightarrow> byte list \<Rightarrow> nat \<times> int \<Rightarrow> nat \<times> int \<Rightarrow> bool"
  for u f code where
  flow_next: "decode code pc = Inr i \<Longrightarrow> \<not> is_terminator (i_opcode i) \<Longrightarrow>
     flow u f code (pc, d) (pc + i_length i, d + context_effect (i_opcode i))"
| flow_jump: "decode code pc = Inr i \<Longrightarrow> is_branch (i_opcode i) \<Longrightarrow>
     flow u f code (pc, d) (jump_target pc (i_signed i ! 0), d + context_effect (i_opcode i))"
| flow_throw: "decode code pc = Inr i \<Longrightarrow> handler_for u f (pc + i_length i) = Some r \<Longrightarrow>
     flow u f code (pc, d) (unwound r)"

inductive_cases flowE: "flow u f code (pc, d) t"

inductive reaches :: "unit_view \<Rightarrow> func_record \<Rightarrow> byte list \<Rightarrow> nat \<times> int \<Rightarrow> bool"
  for u f code where
  reaches_entry: "reaches u f code (0, 0)"
| reaches_step: "reaches u f code s \<Longrightarrow> flow u f code s t \<Longrightarrow> reaches u f code t"

subsection \<open>The innermost handler\<close>

lemma handler_search_last:
  assumes "handler_search u f position slots found = Some r" "sorted_wrt nests (regions_of u f slots)"
    "\<And>c. found = Some c \<Longrightarrow> covers c position \<and> (\<forall>q \<in> set (regions_of u f slots). nests c q)"
  shows "(found = Some r \<or> r \<in> set (regions_of u f slots)) \<and> covers r position \<and>
    (\<forall>q \<in> set (regions_of u f slots) \<union> set_option found. covers q position \<longrightarrow>
       x_start q \<le> x_start r \<and> x_end r \<le> x_end q)"
  using assms
proof (induction slots arbitrary: found)
  case (Cons slot slots)
  obtain q where q: "region_at u f slot = Some q"
    using Cons.prems(1) by (auto simp: region_at_def split: option.splits)
  let ?found = "if covers q position then Some q else found"
  have inner: "x_start c \<le> x_start q \<and> x_end q \<le> x_end c"
    if "found = Some c" "covers q position" for c
    using Cons.prems(3) [OF that(1)] that(2) q by (auto simp: nests_def covers_def)
  have rec: "handler_search u f position slots ?found = Some r"
    using Cons.prems(1) q inner by (auto simp: region_at_def split: option.splits if_splits)
  have step: "covers c position \<and> (\<forall>p \<in> set (regions_of u f slots). nests c p)"
    if "?found = Some c" for c
    using that Cons.prems(2) Cons.prems(3) [of c] q by (cases "covers q position") simp_all
  have srt: "sorted_wrt nests (regions_of u f slots)" using Cons.prems(2) q by simp
  note IH = Cons.IH [OF rec srt step]
  show ?case
  proof (cases "covers q position")
    case True
    then have "x_start q \<le> x_start r \<and> x_end r \<le> x_end q" using IH by simp
    moreover have "x_start c \<le> x_start r \<and> x_end r \<le> x_end c" if "found = Some c" for c
      using inner [OF that True] calculation by linarith
    ultimately show ?thesis using IH True q by (cases found) auto
  next
    case False
    then show ?thesis using IH q by auto
  qed
qed auto

lemma handler_search_None:
  assumes "handler_search u f position slots found = None" "\<forall>slot \<in> set slots. region_at u f slot \<noteq> None"
    "sorted_wrt nests (regions_of u f slots)"
  shows "found = None \<and> (\<forall>q \<in> set (regions_of u f slots). \<not> covers q position)"
  using assms
proof (induction slots arbitrary: found)
  case (Cons slot slots)
  then obtain q where q: "region_at u f slot = Some q" by auto
  define found' where "found' = (if covers q position \<and>
      (case found of Some c \<Rightarrow> x_start c \<le> x_start q \<and> x_end q \<le> x_end c | None \<Rightarrow> True)
    then Some q else found)"
  have rec: "handler_search u f position slots found' = None"
    using Cons.prems(1) q by (simp add: region_at_def found'_def)
  have "found' = None \<and> (\<forall>q \<in> set (regions_of u f slots). \<not> covers q position)"
    using Cons.prems(2,3) q by (intro Cons.IH [OF rec]) simp_all
  then show ?case
    using q by (cases found; cases "covers q position") (auto simp: found'_def split: if_splits)
qed auto

lemma handler_for_region:
  assumes "certified u f code refused S" "handler_for u f pc = Some r"
  shows "(\<exists>slot < fn_exception_count f. region_at u f slot = Some r) \<and> covers r (pc - 1) \<and>
    (\<forall>slot < fn_exception_count f. \<forall>q. region_at u f slot = Some q \<longrightarrow> covers q (pc - 1) \<longrightarrow>
       x_start q \<le> x_start r \<and> x_end r \<le> x_end q)"
proof -
  have "sorted_wrt nests (regions_of u f [0..<fn_exception_count f])"
    using assms(1) by (simp add: certified_def)
  from handler_search_last [OF assms(2) [unfolded handler_for_def] this]
  have "r \<in> set (regions_of u f [0..<fn_exception_count f])" "covers r (pc - 1)"
    and inner: "\<And>q. q \<in> set (regions_of u f [0..<fn_exception_count f]) \<Longrightarrow> covers q (pc - 1) \<Longrightarrow>
       x_start q \<le> x_start r \<and> x_end r \<le> x_end q"
    by auto
  then show ?thesis by (fastforce simp: set_regions_of)
qed

subsection \<open>Verified frames\<close>

text \<open>
  The verifier bounds the start and the end of a region but not its handler, so unwinding can leave
  the code. A wild position is the handler of one of the function's regions, at or past the
  end of the code, with the region's own context count.
\<close>

definition wild_handler :: "unit_view \<Rightarrow> func_record \<Rightarrow> byte list \<Rightarrow> nat \<Rightarrow> int \<Rightarrow> bool" where
  "wild_handler u f code pc d \<longleftrightarrow> length code \<le> pc \<and>
     (\<exists>slot < fn_exception_count f. \<exists>r. region_at u f slot = Some r \<and>
        x_handler r = pc \<and> int (x_context_depth r) = d)"

lemma decode_past_end: "length code \<le> pc \<Longrightarrow> decode code pc = Inl TruncatedOperand"
  by (simp add: decode_def get_at_def)

lemma certified_instruction:
  assumes "certified u f code refused S" "scan code 0 pc" "decode code pc = Inr i"
  shows "operands_ok (hd_constant_count (u_header u)) f i" "i_opcode i \<notin> fst ` set refused"
    "flow_ok u f code S pc i" "\<not> is_terminator (i_opcode i) \<Longrightarrow> pc + i_length i < length code"
proof -
  obtain j where "decode code pc = Inr j" "operands_ok (hd_constant_count (u_header u)) f j"
    "i_opcode j \<notin> fst ` set refused" "flow_ok u f code S pc j"
    "\<not> is_terminator (i_opcode j) \<longrightarrow> pc + i_length j < length code"
    using assms(1,2) unfolding certified_def by blast
  with assms(3) show "operands_ok (hd_constant_count (u_header u)) f i" "i_opcode i \<notin> fst ` set refused"
    "flow_ok u f code S pc i" "\<not> is_terminator (i_opcode i) \<Longrightarrow> pc + i_length i < length code"
    by auto
qed

lemma certified_scan:
  "certified u f code refused S \<Longrightarrow> p < length code \<Longrightarrow> 0 \<le> S ! p \<Longrightarrow> scan code 0 p"
  unfolding certified_def by fastforce

lemma flow_ok_jump:
  assumes "flow_ok u f code S pc i" "is_branch (i_opcode i)" "length code \<le> u32_max"
  shows "jump_target pc (i_signed i ! 0) < length code"
    "S ! jump_target pc (i_signed i ! 0) = S ! pc + context_effect (i_opcode i)"
    "0 \<le> S ! pc + context_effect (i_opcode i)"
    "jump_target pc (i_signed i ! 0) \<le> pc \<Longrightarrow> is_safe_point u f (jump_target pc (i_signed i ! 0))"
proof -
  define goal where "goal = int pc + i_signed i ! 0"
  have goal: "0 \<le> goal" "goal < int (length code)" "S ! nat goal = S ! pc + context_effect (i_opcode i)"
    "nat goal \<le> pc \<Longrightarrow> is_safe_point u f (nat goal)" "0 \<le> S ! pc + context_effect (i_opcode i)"
    using assms(1,2) by (auto simp: flow_ok_def goal_def Let_def)
  then have "jump_target pc (i_signed i ! 0) = nat goal"
    using assms(3) by (simp add: jump_target_def u32_or_def goal_def [symmetric])
  with goal show "jump_target pc (i_signed i ! 0) < length code"
    "S ! jump_target pc (i_signed i ! 0) = S ! pc + context_effect (i_opcode i)"
    "0 \<le> S ! pc + context_effect (i_opcode i)"
    "jump_target pc (i_signed i ! 0) \<le> pc \<Longrightarrow> is_safe_point u f (jump_target pc (i_signed i ! 0))"
    by auto
qed

lemma handler_certified:
  assumes "certified u f code refused S" "slot < fn_exception_count f" "region_at u f slot = Some r"
  shows "wild_handler u f code (x_handler r) (int (x_context_depth r)) \<or>
    scan code 0 (x_handler r) \<and> int (x_context_depth r) = S ! x_handler r"
proof -
  have start: "scan code 0 (x_start r)"
    and handler: "x_handler r < length code \<longrightarrow> scan code 0 (x_handler r)"
    using assms unfolding certified_def by fastforce+
  obtain j where j: "decode code (x_start r) = Inr j"
    using assms(1) start unfolding certified_def by blast
  have "\<exists>q. region_at u f slot = Some q \<and> (x_start q = x_start r \<longrightarrow>
      int (x_context_depth q) = S ! x_start r \<and> (x_handler q < length code \<longrightarrow> S ! x_handler q = S ! x_start r))"
    using certified_instruction(3) [OF assms(1) start j] assms(2) unfolding flow_ok_def by blast
  then have "x_handler r < length code \<longrightarrow> int (x_context_depth r) = S ! x_handler r"
    using assms(3) by auto
  then show ?thesis
    using handler assms(2,3) by (cases "x_handler r < length code") (auto simp: wild_handler_def)
qed

lemma flow_certified:
  assumes "certified u f code refused S" "length code \<le> u32_max"
    "flow u f code (pc, d) (pc', d')" "scan code 0 pc" "d = S ! pc"
  shows "wild_handler u f code pc' d' \<or> scan code 0 pc' \<and> d' = S ! pc'"
  using assms(3)
proof cases
  case (flow_next i)
  note ins = certified_instruction [OF assms(1,4) flow_next(3)]
  have "pc' < length code" using ins(4) flow_next by simp
  then show ?thesis
    using flow_next ins(3) scan_step [OF assms(4) flow_next(3)] assms(5) by (auto simp: flow_ok_def Let_def)
next
  case (flow_jump i)
  note j = flow_ok_jump [OF certified_instruction(3) [OF assms(1,4) flow_jump(3)] flow_jump(4) assms(2)]
  then show ?thesis using flow_jump certified_scan [OF assms(1)] assms(5) by auto
next
  case (flow_throw i r)
  obtain slot where "slot < fn_exception_count f" "region_at u f slot = Some r"
    using handler_for_region [OF assms(1) flow_throw(3)] by blast
  from handler_certified [OF assms(1) this] show ?thesis using flow_throw by (simp add: unwound_def)
qed

lemma wild_handler_stuck: "wild_handler u f code pc d \<Longrightarrow> \<not> flow u f code (pc, d) t"
  by (auto simp: wild_handler_def decode_past_end elim!: flowE)

lemma reaches_certified:
  assumes "certified u f code refused S" "length code \<le> u32_max" "reaches u f code t"
  shows "wild_handler u f code (fst t) (snd t) \<or> scan code 0 (fst t) \<and> snd t = S ! fst t"
  using assms(3)
proof (induction rule: reaches.induct)
  case reaches_entry
  then show ?case using assms(1) by (auto simp: certified_def intro: scan_here)
next
  case (reaches_step s t)
  then show ?case
    using flow_certified [OF assms(1,2), of "fst s" "snd s" "fst t" "snd t"] wild_handler_stuck
    by (cases s; cases t) auto
qed

lemma reaches_instruction:
  assumes "certified u f code refused S" "length code \<le> u32_max" "reaches u f code (pc, d)"
    "\<not> wild_handler u f code pc d"
  obtains i where "pc < length code" "decode code pc = Inr i" "d = S ! pc" "0 \<le> d"
    "d \<le> int (fn_context_depth f)" "flow_ok u f code S pc i"
    "operands_ok (hd_constant_count (u_header u)) f i" "i_opcode i \<notin> fst ` set refused"
    "\<not> is_terminator (i_opcode i) \<longrightarrow> pc + i_length i < length code"
proof -
  have pc: "scan code 0 pc" "d = S ! pc" using reaches_certified [OF assms(1-3)] assms(4) by auto
  then have lt: "pc < length code" using scan_bounds by auto
  obtain i where i: "decode code pc = Inr i" using assms(1) pc(1) unfolding certified_def by blast
  note ins = certified_instruction [OF assms(1) pc(1) i]
  have "S ! pc \<in> set S" using assms(1) lt by (simp add: certified_def)
  then have "S ! pc \<le> i32_or_max (fn_context_depth f)" using assms(1) by (simp add: certified_def)
  then have "d \<le> int (fn_context_depth f)" using pc(2) by (auto simp: i32_or_max_def split: if_splits)
  moreover have "0 \<le> d" using ins(3) pc(2) by (simp add: flow_ok_def)
  ultimately show thesis using that lt i pc(2) ins by blast
qed

end
