(* ===== verification/Sample_Unit.thy ===== *)
theory Sample_Unit
  imports Control_Flow "HOL-Library.Code_Target_Nat"
begin

text \<open>
  A concrete image for the witnesses: one function of five instructions with a loop, a safe point
  at its head and an exception region. The handler's offset is a parameter, so that the same image
  also shows what the verifier answers for a handler outside the code. The images carry a constant
  digest, which stands for the platform's hash.
\<close>

definition sample_code :: "byte list" where
  "sample_code = [17, 0, 148, 4, 144, 252, 16, 0, 151]"

definition sample_image :: "byte \<Rightarrow> byte list" where
  "sample_image handler =
     [0x50, 0x48, 0x42, 0x43] @ replicate 64 0 @
     [1, 0, 0, 0, 0, 0, 0, 0, 0, 0, 0, 0, 9, 0, 0, 0, 1, 0, 0, 0, 1, 0, 0, 0, 0, 0, 0, 0, 0, 0,
      0, 0, 0, 0, 0, 0, 0, 0, 0, 0, 0, 0, 0, 0] @
     [0, 0, 0, 0, 9, 0, 0, 0, 1, 0, 0, 0, 0, 0, 0, 0, 1, 0, 0, 0, 0, 0, 0, 0, 1, 0, 0, 0, 0, 0,
      0, 0, 1, 0, 0, 0, 0, 0, 0, 0, 0, 0, 0, 0, 0, 0, 0, 0] @
     sample_code @
     [2, 0, 0, 0, 6, 0, 0, 0] @ handler # [0, 0, 0, 0, 0, 0, 0, 0, 0, 0, 0] @
     [0, 0, 0, 0]"

definition sample_digest :: "byte list \<Rightarrow> byte list" where
  "sample_digest _ = replicate 32 0"

definition sample_unit :: "byte \<Rightarrow> unit_view" where
  "sample_unit handler =
     \<lparr>u_bytes = sample_image handler,
      u_header = \<lparr>hd_function_count = 1, hd_constant_count = 0, hd_constant_data_length = 0,
        hd_code_length = 9, hd_exception_count = 1, hd_safe_point_count = 1, hd_entry_function = 0,
        hd_flags = 0, hd_import_count = 0, hd_export_count = 0, hd_eval_site_length = 0\<rparr>,
      u_functions_at = 112, u_constants_at = 160, u_constant_data_at = 160, u_code_at = 160,
      u_exceptions_at = 169, u_safe_points_at = 189, u_imports_at = 193, u_exports_at = 193,
      u_eval_sites_at = 193\<rparr>"

definition sample_function :: func_record where
  "sample_function =
     \<lparr>fn_code_offset = 0, fn_code_length = 9, fn_register_count = 1, fn_argument_count = 0,
      fn_frame_extent = 1, fn_exception_offset = 0, fn_exception_count = 1, fn_safe_point_offset = 0,
      fn_safe_point_count = 1, fn_context_depth = 0, fn_context_slots = 0, fn_flags = 0\<rparr>"

lemma sample_decode [simp]:
  "decode sample_code 0 = Inr \<lparr>i_opcode = Op_Star, i_width = Narrow, i_operands = [0, 0, 0], i_signed = [0, 0, 0], i_length = 2\<rparr>"
  "decode sample_code 2 = Inr \<lparr>i_opcode = Op_JumpIfToBooleanFalse, i_width = Narrow, i_operands = [4, 0, 0], i_signed = [4, 0, 0], i_length = 2\<rparr>"
  "decode sample_code 4 = Inr \<lparr>i_opcode = Op_Jump, i_width = Narrow, i_operands = [252, 0, 0], i_signed = [-4, 0, 0], i_length = 2\<rparr>"
  "decode sample_code 6 = Inr \<lparr>i_opcode = Op_Ldar, i_width = Narrow, i_operands = [0, 0, 0], i_signed = [0, 0, 0], i_length = 2\<rparr>"
  "decode sample_code 8 = Inr \<lparr>i_opcode = Op_Return, i_width = Narrow, i_operands = [0, 0, 0], i_signed = [0, 0, 0], i_length = 1\<rparr>"
  by code_simp+

lemma sample_lengths [simp]:
  "length sample_code = 9" "code_length32 sample_code = 9" "length (sample_image h) = 193"
  by (simp_all add: sample_code_def sample_image_def code_length32_def)

lemma sample_header [simp]:
  "hd_function_count (u_header (sample_unit h)) = 1" "hd_constant_count (u_header (sample_unit h)) = 0"
  by (simp_all add: sample_unit_def)

lemma sample_fields [simp]:
  "fn_exception_count sample_function = 1" "fn_exception_offset sample_function = 0"
  "fn_safe_point_count sample_function = 1" "fn_safe_point_offset sample_function = 0"
  "fn_context_depth sample_function = 0" "fn_register_count sample_function = 1"
  "fn_argument_count sample_function = 0" "fn_frame_extent sample_function = 1"
  by (simp_all add: sample_function_def)

lemma sample_parse_admitted:
  "parse_admitted u64_max (sample_image 6) = Inr (sample_unit 6)"
  "parse_admitted u64_max (sample_image 200) = Inr (sample_unit 200)"
  by code_simp+

lemma sample_prefix:
  "subrange (sample_image h) 0 4 = Some unit_magic"
  "subrange (sample_image h) 4 36 = Some (replicate 32 0)"
  "subrange (sample_image h) 36 68 = Some (replicate 32 0)"
  by (simp_all add: subrange_Some sample_image_def unit_magic_def)

lemma sample_parse [simp]:
  "parse_unit sample_digest u64_max (sample_image 6) = Inr (sample_unit 6)"
  "parse_unit sample_digest u64_max (sample_image 200) = Inr (sample_unit 200)"
  unfolding parse_unit_def sample_parse_admitted sample_prefix format_digest_def feature_digest_def
    sample_digest_def
  by (simp_all add: header_size_def)

lemma sample_functions [simp]:
  "unit_function (sample_unit h) 0 = Some sample_function"
  "unit_code (sample_unit h) sample_function = Some sample_code"
  by code_simp+

lemma sample_tables [simp]:
  "unit_safe_point (sample_unit h) 0 = Some 0"
  "unit_exception_region (sample_unit 6) 0 =
     Some \<lparr>x_start = 2, x_end = 6, x_handler = 6, x_register = 0, x_context_depth = 0\<rparr>"
  "unit_exception_region (sample_unit 200) 0 =
     Some \<lparr>x_start = 2, x_end = 6, x_handler = 200, x_register = 0, x_context_depth = 0\<rparr>"
  by code_simp+

definition sample_starts :: "int list" where
  "sample_starts = [unvisited, not_start, unvisited, not_start, unvisited, not_start, unvisited,
     not_start, unvisited]"

definition sample_depths :: "int list" where
  "sample_depths = [0, not_start, 0, not_start, 0, not_start, 0, not_start, 0]"

lemma sample_pass_one:
  "pass_one 0 [] sample_function sample_code 0 (replicate 9 not_start) 0 None =
   Inr (sample_starts, 9, Some Op_Return)"
  "pass_one 0 [(Op_Throw, 7)] sample_function sample_code 0 (replicate 9 not_start) 0 None =
   Inr (sample_starts, 9, Some Op_Return)"
  by code_simp+

lemma sample_safe_point: "is_safe_point (sample_unit h) sample_function 0"
  by (simp add: is_safe_point_def)

lemmas sample_eval = pass_two.simps current_depth_def slot_at_def get_at_def context_effect_def
  i32_or_max_def u32_or_def branch_edge_def is_branch_def is_terminator_def sample_safe_point
  sample_starts_def sample_depths_def

lemma sample_pass_two:
  "pass_two (sample_unit 6) sample_function sample_code 0 sample_starts 0 (Some 0) = Inr sample_depths"
  "pass_two (sample_unit 200) sample_function sample_code 0 sample_starts 0 (Some 0) = Inr sample_depths"
  by (simp_all add: sample_eval Let_def del: add_2_eq_Suc add_2_eq_Suc')

lemma sample_verify_function:
  "verify_function (sample_unit 6) 0 sample_function sample_code [] = Inr sample_depths"
  "verify_function (sample_unit 200) 0 sample_function sample_code [] = Inr sample_depths"
  "verify_function (sample_unit 6) 0 sample_function sample_code [(Op_Throw, 7)] = Inr sample_depths"
  by (simp_all add: verify_function_def sample_pass_one sample_pass_two is_terminator_def)
    (simp_all add: sample_starts_def get_at_def max_region_nesting_def)

lemma sample_admit:
  "admit sample_digest u64_max (sample_image 6) 9 = Inr (sample_unit 6)"
  "admit sample_digest u64_max (sample_image 200) 9 = Inr (sample_unit 200)"
  "admit_with sample_digest u64_max (sample_image 6) 9 [(Op_Throw, 7)] = Inr (sample_unit 6)"
  by (simp_all add: admit_def admit_with_def verify_with_def sample_verify_function)

end
