(* ===== verification/Byte_Sink.thy ===== *)
theory Byte_Sink
  imports Phasor_Prelude
begin

text \<open>
  The contract the two encoders share. A byte sink is storage with a cursor and a sticky failure:
  a put that has room appends behind the cursor, and a put that has not makes the sink fail for
  good. \<open>writes f bs\<close> says that a whole encoding step \<open>f\<close> is one such put of \<open>bs\<close>; it composes,
  so an encoder is described by the concatenation of what its steps write. The interpretations
  are the image writer and the code builder.
\<close>

locale byte_sink =
  fixes failed :: "'s \<Rightarrow> bool"
    and cursor :: "'s \<Rightarrow> nat"
    and storage :: "'s \<Rightarrow> byte list"
    and put :: "'s \<Rightarrow> byte list \<Rightarrow> 's"
  assumes put_fits: "cursor w \<le> length (storage w) \<Longrightarrow> cursor (put w bs) \<le> length (storage (put w bs))"
    and put_sound: "cursor w \<le> length (storage w) \<Longrightarrow> \<not> failed (put w bs) \<Longrightarrow>
      \<not> failed w \<and> cursor (put w bs) = cursor w + length bs \<and>
      cursor w + length bs \<le> length (storage w) \<and>
      storage (put w bs) = put_at (storage w) (cursor w) bs"
    and put_complete: "\<not> failed w \<Longrightarrow> cursor w + length bs \<le> length (storage w) \<Longrightarrow> \<not> failed (put w bs)"
begin

definition fits :: "'s \<Rightarrow> bool" where
  "fits w \<longleftrightarrow> cursor w \<le> length (storage w)"

text \<open>
  \<open>wrote w bs w'\<close>: unless something failed, \<open>w'\<close> is \<open>w\<close> with \<open>bs\<close> behind its cursor, and
  with room for \<open>bs\<close> nothing fails.
\<close>

definition wrote :: "'s \<Rightarrow> byte list \<Rightarrow> 's \<Rightarrow> bool" where
  "wrote w bs w' \<longleftrightarrow>
     (\<not> failed w' \<longrightarrow> \<not> failed w \<and> cursor w' = cursor w + length bs \<and>
        cursor w + length bs \<le> length (storage w) \<and> storage w' = put_at (storage w) (cursor w) bs) \<and>
     (\<not> failed w \<longrightarrow> cursor w + length bs \<le> length (storage w) \<longrightarrow> \<not> failed w')"

definition writes :: "('s \<Rightarrow> 's) \<Rightarrow> byte list \<Rightarrow> bool" where
  "writes f bs \<longleftrightarrow> (\<forall>w. fits w \<longrightarrow> wrote w bs (f w) \<and> fits (f w))"

lemma wroteD:
  assumes "wrote w bs w'" "\<not> failed w'"
  shows "\<not> failed w" "cursor w' = cursor w + length bs" "cursor w' \<le> length (storage w)"
    "storage w' = put_at (storage w) (cursor w) bs"
  using assms by (auto simp: wrote_def)

lemma wrote_trans: "wrote w bs w' \<Longrightarrow> wrote w' cs w'' \<Longrightarrow> wrote w (bs @ cs) w''"
proof -
  assume a: "wrote w bs w'" and b: "wrote w' cs w''"
  show ?thesis
  proof (cases "failed w''")
    case False
    note d'' = wroteD [OF b False]
    note d' = wroteD [OF a d''(1)]
    have room: "cursor w + length bs + length cs \<le> length (storage w)"
      using d'(2,4) d''(2,3) by simp
    have "storage w'' = put_at (storage w) (cursor w) (bs @ cs)"
      using put_at_append [OF room] d'(2,4) d''(4) by simp
    then show ?thesis using False room d' d'' by (simp add: wrote_def)
  next
    case failed: True
    have "length (storage w) < cursor w + length (bs @ cs)" if ok: "\<not> failed w"
    proof (rule ccontr)
      assume "\<not> ?thesis"
      then have room: "cursor w + length bs + length cs \<le> length (storage w)" by simp
      then have "\<not> failed w'" using a ok unfolding wrote_def by simp
      note d' = wroteD [OF a this]
      have "\<not> failed w''"
        using b room d' \<open>\<not> failed w'\<close> unfolding wrote_def by simp
      then show False using failed by simp
    qed
    then show ?thesis using failed unfolding wrote_def by auto
  qed
qed

lemma writes_put: "writes (\<lambda>w. put w bs) bs"
  unfolding writes_def fits_def wrote_def using put_fits put_sound put_complete by blast

lemma writes_id: "writes (\<lambda>w. w) []"
  by (simp add: writes_def wrote_def fits_def put_at_def)

lemma writes_comp: "writes f bs \<Longrightarrow> writes g cs \<Longrightarrow> writes (\<lambda>w. g (f w)) (bs @ cs)"
  unfolding writes_def by (meson wrote_trans)

lemma writes_foldl:
  assumes "\<And>x. writes (\<lambda>w. f w x) (enc x)"
  shows "writes (\<lambda>w. foldl f w xs) (concat (map enc xs))"
proof (induction xs)
  case (Cons x xs)
  then show ?case using writes_comp [OF assms [of x] Cons] by simp
qed (simp add: writes_id)

lemma writes_take:
  assumes "writes f bs" "fits w" "\<not> failed (f w)"
  shows "take (cursor (f w)) (storage (f w)) = take (cursor w) (storage w) @ bs"
    "length (storage (f w)) = length (storage w)" "cursor (f w) \<le> length (storage w)"
proof -
  have w: "wrote w bs (f w)" using assms(1,2) by (simp add: writes_def)
  note d = wroteD [OF w assms(3)]
  show "take (cursor (f w)) (storage (f w)) = take (cursor w) (storage w) @ bs"
    using take_put_at [of "cursor w" bs "storage w"] d(2-4) by simp
  show "length (storage (f w)) = length (storage w)" by (simp add: d(4))
  show "cursor (f w) \<le> length (storage w)" by (rule d(3))
qed

lemma writes_total:
  "writes f bs \<Longrightarrow> \<not> failed w \<Longrightarrow> cursor w + length bs \<le> length (storage w) \<Longrightarrow> \<not> failed (f w)"
  unfolding writes_def wrote_def fits_def by (meson add_leD1)

end

end
