(* ===== verification/Unit_Writer.thy ===== *)
theory Unit_Writer
  imports Bytecode_Unit Byte_Sink
begin

text \<open>
  The image writer of \<^verbatim>\<open>modules/common/emit.rs\<close> (\<^verbatim>\<open>UnitWriter\<close>) and the round trip with the
  reader of \<^verbatim>\<open>modules/common/bytecode.rs\<close>: what \<open>write_module\<close> lays out, \<open>parse_unit\<close> admits, and
  every accessor answers the record that was written.
\<close>

subsection \<open>The writer\<close>

datatype build_error = BuildFull | JumpTooFar | LabelError

record unit_writer =
  uw_bytes :: "byte list"
  uw_cursor :: nat
  uw_failed :: bool

definition uw_new :: "byte list \<Rightarrow> unit_writer" where
  "uw_new bytes = \<lparr>uw_bytes = bytes, uw_cursor = 0, uw_failed = False\<rparr>"

definition uw_put :: "unit_writer \<Rightarrow> byte list \<Rightarrow> unit_writer" where
  "uw_put w bytes =
     (if uw_cursor w + length bytes \<le> length (uw_bytes w)
      then w\<lparr>uw_bytes := put_at (uw_bytes w) (uw_cursor w) bytes,
             uw_cursor := uw_cursor w + length bytes\<rparr>
      else w\<lparr>uw_failed := True\<rparr>)"

definition uw_put_u32 :: "unit_writer \<Rightarrow> nat \<Rightarrow> unit_writer" where
  "uw_put_u32 w v = uw_put w (le_bytes 4 v)"

text \<open>\<open>u32::try_from(xs.len()).unwrap_or(u32::MAX)\<close>\<close>

definition len32 :: "'a list \<Rightarrow> nat" where
  "len32 xs = min (length xs) u32_max"

definition function_words :: "func_record \<Rightarrow> nat list" where
  "function_words f =
     [fn_code_offset f, fn_code_length f, fn_register_count f, fn_argument_count f, fn_frame_extent f,
      fn_exception_offset f, fn_exception_count f, fn_safe_point_offset f, fn_safe_point_count f,
      fn_context_depth f, fn_context_slots f, fn_flags f]"

definition write_function :: "unit_writer \<Rightarrow> func_record \<Rightarrow> unit_writer" where
  "write_function w f = foldl uw_put_u32 w (function_words f)"

definition write_constant :: "unit_writer \<Rightarrow> const_record \<Rightarrow> unit_writer" where
  "write_constant w c =
     uw_put_u32 (uw_put_u32 (uw_put_u32 (uw_put w [constant_kind_byte (k_kind c), 0, 0, 0])
       (k_first c)) (k_second c)) 0"

definition region_words :: "exception_region \<Rightarrow> nat list" where
  "region_words r = [x_start r, x_end r, x_handler r, x_register r, x_context_depth r]"

definition write_region :: "unit_writer \<Rightarrow> exception_region \<Rightarrow> unit_writer" where
  "write_region w r = foldl uw_put_u32 w (region_words r)"

definition import_words :: "import_record \<Rightarrow> nat list" where
  "import_words r = [im_specifier r, im_name r, im_slot r]"

definition export_words :: "export_record \<Rightarrow> nat list" where
  "export_words r = [ex_name r, ex_slot r]"

record unit_sections =
  s_functions :: "func_record list"
  s_constants :: "const_record list"
  s_constant_data :: "byte list"
  s_code :: "byte list"
  s_exceptions :: "exception_region list"
  s_safe_points :: "nat list"
  s_entry_function :: nat
  s_imports :: "import_record list"
  s_exports :: "export_record list"
  s_flags :: nat
  s_eval_sites :: "byte list"

definition header_words :: "unit_sections \<Rightarrow> nat list" where
  "header_words s =
     [len32 (s_functions s), len32 (s_constants s), len32 (s_constant_data s), len32 (s_code s),
      len32 (s_exceptions s), len32 (s_safe_points s), s_entry_function s, s_flags s,
      len32 (s_imports s), len32 (s_exports s), len32 (s_eval_sites s)]"

text \<open>
  \<open>write_module\<close>, answering the image storage with the length written. The sections are the
  source's parameters, gathered in a record.
\<close>

definition write_module ::
  "(byte list \<Rightarrow> byte list) \<Rightarrow> unit_writer \<Rightarrow> unit_sections \<Rightarrow> build_error + byte list \<times> nat" where
  "write_module sha256 w s =
     (let w = uw_put w unit_magic;
          w = uw_put w (format_digest sha256);
          w = uw_put w (feature_digest sha256);
          w = foldl uw_put_u32 w (header_words s);
          w = foldl write_function w (s_functions s);
          w = foldl write_constant w (s_constants s);
          w = uw_put w (s_constant_data s);
          w = uw_put w (s_code s);
          w = foldl write_region w (s_exceptions s);
          w = foldl uw_put_u32 w (s_safe_points s);
          w = foldl (\<lambda>w r. foldl uw_put_u32 w (import_words r)) w (s_imports s);
          w = foldl (\<lambda>w r. foldl uw_put_u32 w (export_words r)) w (s_exports s);
          w = uw_put w (s_eval_sites s)
      in if uw_failed w then Inl BuildFull else Inr (uw_bytes w, uw_cursor w))"

text \<open>\<open>write\<close>: a unit that is not a module.\<close>

definition write_unit ::
  "(byte list \<Rightarrow> byte list) \<Rightarrow> unit_writer \<Rightarrow> unit_sections \<Rightarrow> build_error + byte list \<times> nat" where
  "write_unit sha256 w s =
     write_module sha256 w (s\<lparr>s_imports := [], s_exports := [], s_flags := 0, s_eval_sites := []\<rparr>)"

subsection \<open>A sequence of puts\<close>

definition words_bytes :: "nat list \<Rightarrow> byte list" where
  "words_bytes ws = concat (map (le_bytes 4) ws)"

lemma words_bytes_simps [simp]:
  "words_bytes [] = []" "words_bytes (w # ws) = le_bytes 4 w @ words_bytes ws"
  "words_bytes (xs @ ys) = words_bytes xs @ words_bytes ys"
  by (simp_all add: words_bytes_def)

lemma length_words_bytes [simp]: "length (words_bytes ws) = 4 * length ws"
  by (induction ws) simp_all

interpretation image: byte_sink uw_failed uw_cursor uw_bytes uw_put
  by unfold_locales (auto simp: uw_put_def split: if_splits)

lemma writes_put_u32 [simp, intro]: "image.writes (\<lambda>w. uw_put_u32 w v) (le_bytes 4 v)"
  unfolding uw_put_u32_def by (rule image.writes_put)

lemma writes_words [intro]: "image.writes (\<lambda>w. foldl uw_put_u32 w ws) (words_bytes ws)"
  unfolding words_bytes_def by (rule image.writes_foldl) (rule writes_put_u32)

lemma writes_function: "image.writes (\<lambda>w. write_function w f) (words_bytes (function_words f))"
  unfolding write_function_def by (rule writes_words)

lemma writes_region: "image.writes (\<lambda>w. write_region w r) (words_bytes (region_words r))"
  unfolding write_region_def by (rule writes_words)

definition constant_words :: "const_record \<Rightarrow> nat list" where
  "constant_words c = [unat (constant_kind_byte (k_kind c)), k_first c, k_second c, 0]"

lemma constant_kind_word:
  "[constant_kind_byte k, 0, 0, 0] = le_bytes 4 (unat (constant_kind_byte k))"
proof -
  have "le_bytes (Suc (Suc (Suc (Suc 0)))) (unat b) = [b, 0, 0, 0]" for b
    using unat_bound [of b] by simp
  moreover have four: "(4 :: nat) = Suc (Suc (Suc (Suc 0)))" by simp
  ultimately show ?thesis unfolding four by simp
qed

lemma writes_constant: "image.writes (\<lambda>w. write_constant w c) (words_bytes (constant_words c))"
proof -
  have words: "words_bytes (constant_words c) =
      (([constant_kind_byte (k_kind c), 0, 0, 0] @ le_bytes 4 (k_first c)) @ le_bytes 4 (k_second c)) @
      le_bytes 4 0"
    by (simp only: constant_words_def constant_kind_word words_bytes_simps append_assoc append_Nil2)
  show ?thesis
    unfolding write_constant_def words
    by (rule image.writes_comp [OF image.writes_comp [OF image.writes_comp [OF image.writes_put writes_put_u32]
          writes_put_u32] writes_put_u32])
qed

text \<open>The image as one list: the fixed prefix, then each section.\<close>

definition image_bytes :: "(byte list \<Rightarrow> byte list) \<Rightarrow> unit_sections \<Rightarrow> byte list" where
  "image_bytes sha256 s =
     unit_magic @ format_digest sha256 @ feature_digest sha256 @ words_bytes (header_words s) @
     words_bytes (concat (map function_words (s_functions s))) @
     words_bytes (concat (map constant_words (s_constants s))) @
     s_constant_data s @ s_code s @
     words_bytes (concat (map region_words (s_exceptions s))) @
     words_bytes (s_safe_points s) @
     words_bytes (concat (map import_words (s_imports s))) @
     words_bytes (concat (map export_words (s_exports s))) @
     s_eval_sites s"

lemma words_bytes_concat: "words_bytes (concat xss) = concat (map words_bytes xss)"
  by (induction xss) simp_all

lemma write_module_writes:
  obtains run where
    "write_module sha256 w s = (if uw_failed (run w) then Inl BuildFull else Inr (uw_bytes (run w), uw_cursor (run w)))"
    "image.writes run (image_bytes sha256 s)"
proof -
  define run where "run = (\<lambda>w. uw_put
     (foldl (\<lambda>w r. foldl uw_put_u32 w (export_words r))
     (foldl (\<lambda>w r. foldl uw_put_u32 w (import_words r))
     (foldl uw_put_u32
     (foldl write_region
     (uw_put (uw_put
     (foldl write_constant
     (foldl write_function
     (foldl uw_put_u32
     (uw_put (uw_put (uw_put w unit_magic) (format_digest sha256)) (feature_digest sha256))
       (header_words s)) (s_functions s)) (s_constants s)) (s_constant_data s)) (s_code s))
       (s_exceptions s)) (s_safe_points s)) (s_imports s)) (s_exports s)) (s_eval_sites s))"
  note prefix = image.writes_comp [OF image.writes_comp [OF image.writes_comp [OF
        image.writes_put [of unit_magic] image.writes_put [of "format_digest sha256"]]
        image.writes_put [of "feature_digest sha256"]] writes_words [of "header_words s"]]
  note tables = image.writes_comp [OF image.writes_comp [OF image.writes_comp [OF image.writes_comp [OF prefix
        image.writes_foldl [where xs = "s_functions s", OF writes_function]]
        image.writes_foldl [where xs = "s_constants s", OF writes_constant]]
        image.writes_put [of "s_constant_data s"]] image.writes_put [of "s_code s"]]
  note rest = image.writes_comp [OF image.writes_comp [OF image.writes_comp [OF image.writes_comp [OF image.writes_comp [OF tables
        image.writes_foldl [where xs = "s_exceptions s", OF writes_region]] writes_words [of "s_safe_points s"]]
        image.writes_foldl [where xs = "s_imports s", OF writes_words [of "import_words r" for r]]]
        image.writes_foldl [where xs = "s_exports s", OF writes_words [of "export_words r" for r]]]
        image.writes_put [of "s_eval_sites s"]]
  have "image.writes run (image_bytes sha256 s)"
    using rest unfolding run_def image_bytes_def words_bytes_concat list.map_comp comp_def append_assoc .
  moreover have "write_module sha256 w s =
      (if uw_failed (run w) then Inl BuildFull else Inr (uw_bytes (run w), uw_cursor (run w)))"
    by (simp add: write_module_def run_def Let_def)
  ultimately show thesis by (rule that [rotated])
qed

lemma uw_new_fits: "image.fits (uw_new storage)"
  by (simp add: image.fits_def uw_new_def)

lemma write_module_image:
  assumes "write_module sha256 (uw_new storage) s = Inr (bytes, n)"
  shows "n = length (image_bytes sha256 s) \<and> take n bytes = image_bytes sha256 s \<and> n \<le> length storage"
proof -
  obtain run where
    run: "write_module sha256 (uw_new storage) s = (if uw_failed (run (uw_new storage)) then Inl BuildFull
      else Inr (uw_bytes (run (uw_new storage)), uw_cursor (run (uw_new storage))))"
    and wr: "image.writes run (image_bytes sha256 s)"
    by (rule write_module_writes)
  have ok: "\<not> uw_failed (run (uw_new storage))" "bytes = uw_bytes (run (uw_new storage))"
    "n = uw_cursor (run (uw_new storage))"
    using assms run by (auto split: if_splits)
  note w = image.writes_take [OF wr uw_new_fits ok(1), folded ok(2,3)]
  then have "take n bytes = image_bytes sha256 s" "n \<le> length storage" "length bytes = length storage"
    by (simp_all add: uw_new_def)
  moreover from this have "n = length (image_bytes sha256 s)" by (metis length_take min.absorb2)
  ultimately show ?thesis by simp
qed

lemma write_module_total:
  assumes "length (image_bytes sha256 s) \<le> length storage"
  shows "\<exists>bytes. write_module sha256 (uw_new storage) s = Inr (bytes, length (image_bytes sha256 s))"
proof -
  obtain run where
    run: "write_module sha256 (uw_new storage) s = (if uw_failed (run (uw_new storage)) then Inl BuildFull
      else Inr (uw_bytes (run (uw_new storage)), uw_cursor (run (uw_new storage))))"
    and wr: "image.writes run (image_bytes sha256 s)"
    by (rule write_module_writes)
  have "\<not> uw_failed (run (uw_new storage))"
    using assms by (intro image.writes_total [OF wr]) (simp_all add: uw_new_def)
  then show ?thesis
    using run write_module_image [of sha256 storage s "uw_bytes (run (uw_new storage))"
        "uw_cursor (run (uw_new storage))"] by simp
qed

subsection \<open>Reading tables back\<close>

lemma read_word:
  assumes "j < length ws" "ws ! j \<le> u32_max"
  shows "read_le32 (pre @ words_bytes ws @ post) (length pre + 4 * j) = Some (ws ! j)"
proof -
  have ws: "ws = take j ws @ ws ! j # drop (Suc j) ws" using assms(1) by (rule id_take_nth_drop)
  have "pre @ words_bytes ws @ post =
      (pre @ words_bytes (take j ws)) @ le_bytes 4 (ws ! j) @ words_bytes (drop (Suc j) ws) @ post"
    by (subst (1) ws) simp
  moreover have "length (pre @ words_bytes (take j ws)) = length pre + 4 * j"
    using assms(1) by simp
  ultimately have "subrange (pre @ words_bytes ws @ post) (length pre + 4 * j) (length pre + 4 * j + 4) =
      Some (le_bytes 4 (ws ! j))"
    by (simp add: subrange_Some)
  then show ?thesis using assms(2) by (rule read_le32_le_bytes)
qed

lemma nth_concat_uniform:
  assumes "\<forall>x \<in> set xs. length (f x) = k" "i < length xs" "j < k"
  shows "concat (map f xs) ! (i * k + j) = f (xs ! i) ! j"
  using assms
proof (induction xs arbitrary: i)
  case (Cons x xs)
  then show ?case by (cases i) (auto simp: nth_append)
qed simp

lemma length_concat_uniform:
  "\<forall>x \<in> set xs. length (f x) = k \<Longrightarrow> length (concat (map f xs)) = length xs * k"
  by (induction xs) auto

lemma table_word:
  assumes "bytes = pre @ words_bytes (concat (map enc rs)) @ post" "at = length pre"
    "\<And>r. length (enc r) = k" "i < length rs" "j < k" "\<forall>w \<in> set (enc (rs ! i)). w \<le> u32_max"
  shows "read_le32 bytes (at + i * (4 * k) + 4 * j) = Some (enc (rs ! i) ! j)"
proof -
  have at: "concat (map enc rs) ! (i * k + j) = enc (rs ! i) ! j"
    using assms(3-5) by (simp add: nth_concat_uniform)
  have "(i + 1) * k \<le> length rs * k" using assms(4) by (intro mult_right_mono) auto
  then have "i * k + j < length (concat (map enc rs))"
    using assms(3,5) by (subst length_concat_uniform [where k = k]) auto
  moreover have "enc (rs ! i) ! j \<le> u32_max" using assms(3,5,6) by simp
  ultimately show ?thesis
    using read_word [of "i * k + j" "concat (map enc rs)" pre post] at
    by (simp add: assms(1,2) algebra_simps)
qed

subsection \<open>Round trip\<close>

definition words_ok :: "nat list \<Rightarrow> bool" where
  "words_ok ws \<longleftrightarrow> list_all (\<lambda>w. w \<le> u32_max) ws"

definition sections_wf :: "unit_sections \<Rightarrow> bool" where
  "sections_wf s \<longleftrightarrow>
     length (s_functions s) \<le> u32_max \<and> length (s_constants s) \<le> u32_max \<and>
     length (s_constant_data s) \<le> u32_max \<and> length (s_code s) \<le> u32_max \<and>
     length (s_exceptions s) \<le> u32_max \<and> length (s_safe_points s) \<le> u32_max \<and>
     length (s_imports s) \<le> u32_max \<and> length (s_exports s) \<le> u32_max \<and>
     length (s_eval_sites s) \<le> u32_max \<and> s_flags s \<le> u32_max \<and>
     s_entry_function s < length (s_functions s) \<and>
     list_all (words_ok \<circ> function_words) (s_functions s) \<and>
     list_all (words_ok \<circ> constant_words) (s_constants s) \<and>
     list_all (words_ok \<circ> region_words) (s_exceptions s) \<and> words_ok (s_safe_points s) \<and>
     list_all (words_ok \<circ> import_words) (s_imports s) \<and>
     list_all (words_ok \<circ> export_words) (s_exports s)"

definition sections_unit :: "(byte list \<Rightarrow> byte list) \<Rightarrow> unit_sections \<Rightarrow> unit_view" where
  "sections_unit sha256 s =
     (let constants_at = header_size + length (s_functions s) * function_record_size;
          constant_data_at = constants_at + length (s_constants s) * constant_record_size;
          code_at = constant_data_at + length (s_constant_data s);
          exceptions_at = code_at + length (s_code s);
          safe_points_at = exceptions_at + length (s_exceptions s) * exception_record_size;
          imports_at = safe_points_at + length (s_safe_points s) * 4;
          exports_at = imports_at + length (s_imports s) * import_record_size;
          eval_sites_at = exports_at + length (s_exports s) * export_record_size
      in \<lparr>u_bytes = image_bytes sha256 s,
          u_header = \<lparr>hd_function_count = length (s_functions s),
            hd_constant_count = length (s_constants s),
            hd_constant_data_length = length (s_constant_data s), hd_code_length = length (s_code s),
            hd_exception_count = length (s_exceptions s),
            hd_safe_point_count = length (s_safe_points s), hd_entry_function = s_entry_function s,
            hd_flags = s_flags s, hd_import_count = length (s_imports s),
            hd_export_count = length (s_exports s), hd_eval_site_length = length (s_eval_sites s)\<rparr>,
          u_functions_at = header_size, u_constants_at = constants_at,
          u_constant_data_at = constant_data_at, u_code_at = code_at,
          u_exceptions_at = exceptions_at, u_safe_points_at = safe_points_at,
          u_imports_at = imports_at, u_exports_at = exports_at, u_eval_sites_at = eval_sites_at\<rparr>)"

lemmas record_sizes = header_size_def function_record_size_def constant_record_size_def
  exception_record_size_def import_record_size_def export_record_size_def

lemma record_word_lengths [simp]:
  "length (header_words s) = 11" "length (function_words f) = 12" "length (constant_words c) = 4"
  "length (region_words r) = 5" "length (import_words i) = 3" "length (export_words e) = 2"
  by (simp_all add: header_words_def function_words_def constant_words_def region_words_def
      import_words_def export_words_def)

definition digest_ok :: "(byte list \<Rightarrow> byte list) \<Rightarrow> bool" where
  "digest_ok sha256 \<longleftrightarrow> (\<forall>bytes. length (sha256 bytes) = 32)"

lemma image_prefix_length:
  "digest_ok sha256 \<Longrightarrow> length (unit_magic @ format_digest sha256 @ feature_digest sha256) = 68"
  by (simp add: digest_ok_def unit_magic_def format_digest_def feature_digest_def)

lemma length_image_bytes:
  assumes "digest_ok sha256"
  shows "length (image_bytes sha256 s) =
    u_eval_sites_at (sections_unit sha256 s) + length (s_eval_sites s)"
  using image_prefix_length [OF assms]
  by (simp add: image_bytes_def sections_unit_def Let_def record_sizes length_concat_uniform
      [where k = 12] length_concat_uniform [where k = 4] length_concat_uniform [where k = 5]
      length_concat_uniform [where k = 3] length_concat_uniform [where k = 2])

lemma read_header_image:
  assumes "digest_ok sha256" "sections_wf s"
  shows "read_header (image_bytes sha256 s) = Inr (u_header (sections_unit sha256 s))"
proof -
  define pre where "pre = unit_magic @ format_digest sha256 @ feature_digest sha256"
  have len: "length pre = 68" unfolding pre_def by (rule image_prefix_length [OF assms(1)])
  obtain post where img: "image_bytes sha256 s = pre @ words_bytes (header_words s) @ post"
    unfolding image_bytes_def pre_def by simp
  have word: "read_u32 (image_bytes sha256 s) (68 + 4 * j) = Inr (header_words s ! j)"
    if "j < 11" "header_words s ! j \<le> u32_max" for j
    unfolding read_u32_def img using read_word [of j "header_words s" pre post] that len by simp
  show ?thesis
    using assms(2) word [of 0] word [of 1] word [of 2] word [of 3] word [of 4] word [of 5] word [of 6]
      word [of 7] word [of 8] word [of 9] word [of 10]
    by (simp add: read_header_def sections_unit_def sections_wf_def header_words_def Let_def len32_def)
qed

lemma advance_le: "at + n * sz \<le> m \<Longrightarrow> advance m at n sz = Inr (at + n * sz)"
  by (simp add: advance_def)

lemma parse_image:
  assumes "digest_ok sha256" "sections_wf s" "length (image_bytes sha256 s) \<le> usize_max"
  shows "parse_unit sha256 usize_max (image_bytes sha256 s) = Inr (sections_unit sha256 s)"
proof -
  have len: "length (format_digest sha256) = 32" "length (feature_digest sha256) = 32"
    "length unit_magic = 4"
    using assms(1) by (simp_all add: digest_ok_def format_digest_def feature_digest_def unit_magic_def)
  have magic: "subrange (image_bytes sha256 s) 0 4 = Some unit_magic"
    and format: "subrange (image_bytes sha256 s) 4 36 = Some (format_digest sha256)"
    and feature: "subrange (image_bytes sha256 s) 36 68 = Some (feature_digest sha256)"
    using len by (simp_all add: image_bytes_def subrange_Some)
  note total = length_image_bytes [OF assms(1), of s]
  have size: "header_size \<le> length (image_bytes sha256 s)"
    unfolding total by (simp add: sections_unit_def Let_def)
  note end_at = assms(3) [unfolded total]
  have "parse_admitted usize_max (image_bytes sha256 s) = Inr (sections_unit sha256 s)"
    using size end_at total magic assms(2)
    by (simp add: parse_admitted_def read_header_image [OF assms(1,2)])
      (simp add: sections_unit_def sections_wf_def Let_def advance_le)
  then show ?thesis using size magic format feature by (simp add: parse_unit_def)
qed

lemma words_ok_nth:
  "list_all (words_ok \<circ> enc) rs \<Longrightarrow> i < length rs \<Longrightarrow> \<forall>w \<in> set (enc (rs ! i)). w \<le> u32_max"
  by (auto simp: words_ok_def list_all_iff)

lemma unit_function_image:
  assumes "digest_ok sha256" "sections_wf s" "i < length (s_functions s)"
  shows "unit_function (sections_unit sha256 s) i = Some (s_functions s ! i)"
proof -
  let ?f = "s_functions s ! i"
  obtain pre post where img: "image_bytes sha256 s =
      pre @ words_bytes (concat (map function_words (s_functions s))) @ post" and pre: "header_size = length pre"
    using image_prefix_length [OF assms(1)]
    by (rule_tac that [of "unit_magic @ format_digest sha256 @ feature_digest sha256 @ words_bytes (header_words s)"])
      (simp_all add: image_bytes_def header_size_def)
  have ok: "\<forall>w \<in> set (function_words ?f). w \<le> u32_max"
    using assms(2,3) by (intro words_ok_nth) (auto simp: sections_wf_def)
  note word = table_word [OF img pre record_word_lengths(2) assms(3) _ ok]
  show ?thesis
    using assms(3) word [of 0] word [of 1] word [of 2] word [of 3] word [of 4] word [of 5] word [of 6]
      word [of 7] word [of 8] word [of 9] word [of 10] word [of 11]
    by (simp add: unit_function_def sections_unit_def Let_def function_record_size_def function_words_def)
qed

text \<open>Where each section stands in the image.\<close>

definition image_head :: "(byte list \<Rightarrow> byte list) \<Rightarrow> unit_sections \<Rightarrow> byte list" where
  "image_head sha256 s =
     unit_magic @ format_digest sha256 @ feature_digest sha256 @ words_bytes (header_words s) @
     words_bytes (concat (map function_words (s_functions s)))"

definition image_mid :: "(byte list \<Rightarrow> byte list) \<Rightarrow> unit_sections \<Rightarrow> byte list" where
  "image_mid sha256 s =
     image_head sha256 s @ words_bytes (concat (map constant_words (s_constants s))) @
     s_constant_data s @ s_code s"

definition image_tables :: "(byte list \<Rightarrow> byte list) \<Rightarrow> unit_sections \<Rightarrow> byte list" where
  "image_tables sha256 s =
     image_mid sha256 s @ words_bytes (concat (map region_words (s_exceptions s))) @
     words_bytes (s_safe_points s)"

lemmas concat_word_lengths [simp] =
  length_concat_uniform [where f = function_words and k = 12, simplified]
  length_concat_uniform [where f = constant_words and k = 4, simplified]
  length_concat_uniform [where f = region_words and k = 5, simplified]
  length_concat_uniform [where f = import_words and k = 3, simplified]
  length_concat_uniform [where f = export_words and k = 2, simplified]

lemma image_lengths:
  assumes "digest_ok sha256"
  shows "u_constants_at (sections_unit sha256 s) = length (image_head sha256 s)"
    "u_exceptions_at (sections_unit sha256 s) = length (image_mid sha256 s)"
    "u_imports_at (sections_unit sha256 s) = length (image_tables sha256 s)"
  using image_prefix_length [OF assms]
  by (simp_all add: image_head_def image_mid_def image_tables_def sections_unit_def Let_def record_sizes)

lemma image_splits:
  "image_bytes sha256 s = image_head sha256 s @ words_bytes (concat (map constant_words (s_constants s))) @
     s_constant_data s @ s_code s @ drop (length (image_mid sha256 s)) (image_bytes sha256 s)"
  "image_bytes sha256 s = image_mid sha256 s @ words_bytes (concat (map region_words (s_exceptions s))) @
     words_bytes (s_safe_points s) @ drop (length (image_tables sha256 s)) (image_bytes sha256 s)"
  "image_bytes sha256 s = image_tables sha256 s @ words_bytes (concat (map import_words (s_imports s))) @
     words_bytes (concat (map export_words (s_exports s))) @ s_eval_sites s"
  by (simp_all add: image_bytes_def image_head_def image_mid_def image_tables_def)

lemma sections_unit_fields [simp]:
  "u_bytes (sections_unit sha256 s) = image_bytes sha256 s"
  "hd_function_count (u_header (sections_unit sha256 s)) = length (s_functions s)"
  "hd_constant_count (u_header (sections_unit sha256 s)) = length (s_constants s)"
  "hd_exception_count (u_header (sections_unit sha256 s)) = length (s_exceptions s)"
  "hd_safe_point_count (u_header (sections_unit sha256 s)) = length (s_safe_points s)"
  "hd_import_count (u_header (sections_unit sha256 s)) = length (s_imports s)"
  "hd_export_count (u_header (sections_unit sha256 s)) = length (s_exports s)"
  "hd_eval_site_length (u_header (sections_unit sha256 s)) = length (s_eval_sites s)"
  by (simp_all add: sections_unit_def Let_def)

lemma unit_exception_region_image:
  assumes "digest_ok sha256" "sections_wf s" "i < length (s_exceptions s)"
  shows "unit_exception_region (sections_unit sha256 s) i = Some (s_exceptions s ! i)"
proof -
  let ?r = "s_exceptions s ! i"
  have ok: "\<forall>w \<in> set (region_words ?r). w \<le> u32_max"
    using assms(2,3) by (intro words_ok_nth) (auto simp: sections_wf_def)
  note word = table_word [OF image_splits(2) image_lengths(2) [OF assms(1)] record_word_lengths(4)
      assms(3) _ ok]
  show ?thesis
    using assms(3) word [of 0] word [of 1] word [of 2] word [of 3] word [of 4]
    by (simp add: unit_exception_region_def Let_def exception_record_size_def region_words_def)
qed

lemma unit_safe_point_image:
  assumes "digest_ok sha256" "sections_wf s" "i < length (s_safe_points s)"
  shows "unit_safe_point (sections_unit sha256 s) i = Some (s_safe_points s ! i)"
proof -
  let ?pre = "image_mid sha256 s @ words_bytes (concat (map region_words (s_exceptions s)))"
  have img: "image_bytes sha256 s = ?pre @ words_bytes (s_safe_points s) @
      drop (length (image_tables sha256 s)) (image_bytes sha256 s)"
    using image_splits(2) [of sha256 s] by simp
  have at: "u_safe_points_at (sections_unit sha256 s) = length ?pre"
    using image_lengths(2) [OF assms(1), of s] by (simp add: sections_unit_def Let_def exception_record_size_def)
  have "s_safe_points s ! i \<le> u32_max"
    using assms(2,3) by (auto simp: sections_wf_def words_ok_def list_all_length)
  from read_word [OF assms(3) this, of ?pre "drop (length (image_tables sha256 s)) (image_bytes sha256 s)",
      folded img] show ?thesis
    using assms(3) by (simp add: unit_safe_point_def at mult.commute)
qed

lemma unit_import_image:
  assumes "digest_ok sha256" "sections_wf s" "i < length (s_imports s)"
  shows "unit_import (sections_unit sha256 s) i = Some (s_imports s ! i)"
proof -
  have ok: "\<forall>w \<in> set (import_words (s_imports s ! i)). w \<le> u32_max"
    using assms(2,3) by (intro words_ok_nth) (auto simp: sections_wf_def)
  note word = table_word [OF image_splits(3) image_lengths(3) [OF assms(1)] record_word_lengths(5)
      assms(3) _ ok]
  show ?thesis
    using assms(3) word [of 0] word [of 1] word [of 2]
    by (simp add: unit_import_def Let_def import_record_size_def import_words_def)
qed

lemma unit_export_image:
  assumes "digest_ok sha256" "sections_wf s" "i < length (s_exports s)"
  shows "unit_export (sections_unit sha256 s) i = Some (s_exports s ! i)"
proof -
  have ok: "\<forall>w \<in> set (export_words (s_exports s ! i)). w \<le> u32_max"
    using assms(2,3) by (intro words_ok_nth) (auto simp: sections_wf_def)
  have img: "image_bytes sha256 s =
      (image_tables sha256 s @ words_bytes (concat (map import_words (s_imports s)))) @
      words_bytes (concat (map export_words (s_exports s))) @ s_eval_sites s"
    using image_splits(3) [of sha256 s] by simp
  have at: "u_exports_at (sections_unit sha256 s) =
      length (image_tables sha256 s @ words_bytes (concat (map import_words (s_imports s))))"
    using image_lengths(3) [OF assms(1), of s] by (simp add: sections_unit_def Let_def import_record_size_def)
  note word = table_word [OF img at record_word_lengths(6) assms(3) _ ok]
  show ?thesis
    using assms(3) word [of 0] word [of 1]
    by (simp add: unit_export_def Let_def export_record_size_def export_words_def)
qed

lemma read_le32_first: "read_le32 bytes at = Some v \<Longrightarrow> get_at bytes at = Some (of_nat v)"
proof -
  assume "read_le32 bytes at = Some v"
  then obtain ys where ys: "subrange bytes at (at + 4) = Some ys" "v = of_le ys"
    by (auto simp: read_le32_def)
  then obtain y zs where z: "ys = y # zs"
    using length_subrange by (cases ys) fastforce+
  have "get_at bytes at = Some y"
    using ys(1) subrange_nth [OF ys(1), of 0, unfolded z]
    by (simp add: subrange_Some get_at_def)
  moreover have "(of_nat v :: byte) = y"
  proof -
    have "(of_nat 256 :: byte) = 0" by simp
    then have "(of_nat (256 * of_le zs) :: byte) = 0" by (simp only: of_nat_mult mult_zero_left)
    then show ?thesis unfolding ys(2) z of_le.simps of_nat_add by simp
  qed
  ultimately show ?thesis by simp
qed

lemma unit_constant_image:
  assumes "digest_ok sha256" "sections_wf s" "i < length (s_constants s)"
  shows "unit_constant (sections_unit sha256 s) i = Some (s_constants s ! i)"
proof -
  let ?c = "s_constants s ! i"
  have ok: "\<forall>w \<in> set (constant_words ?c). w \<le> u32_max"
    using assms(2,3) by (intro words_ok_nth) (auto simp: sections_wf_def)
  note word = table_word [OF image_splits(1) image_lengths(1) [OF assms(1)] record_word_lengths(3)
      assms(3) _ ok]
  have kind: "constant_kind_from_byte (of_nat (unat (constant_kind_byte k))) = Some k" for k
    by (cases k) (simp_all add: constant_kind_from_byte_def)
  show ?thesis
    using assms(3) word [of 1] word [of 2] read_le32_first [OF word [of 0]] kind [of "k_kind ?c"]
    by (simp add: unit_constant_def Let_def constant_record_size_def constant_words_def)
qed

lemma unit_code_image:
  assumes "digest_ok sha256" "fn_code_offset f + fn_code_length f \<le> length (s_code s)"
  shows "unit_code (sections_unit sha256 s) f =
    subrange (s_code s) (fn_code_offset f) (fn_code_offset f + fn_code_length f)"
proof -
  let ?pre = "image_head sha256 s @ words_bytes (concat (map constant_words (s_constants s))) @
      s_constant_data s"
  have img: "image_bytes sha256 s = ?pre @ s_code s @
      drop (length (image_mid sha256 s)) (image_bytes sha256 s)"
    using image_splits(1) [of sha256 s] by simp
  have at: "u_code_at (sections_unit sha256 s) = length ?pre"
    using image_lengths(1) [OF assms(1), of s] by (simp add: sections_unit_def Let_def constant_record_size_def)
  show ?thesis
    using assms(2) unfolding unit_code_def sections_unit_fields at Let_def
    by (subst img) (simp add: subrange_append2)
qed

lemma unit_eval_sites_image:
  assumes "digest_ok sha256"
  shows "unit_eval_sites (sections_unit sha256 s) = s_eval_sites s"
proof -
  let ?pre = "image_tables sha256 s @ words_bytes (concat (map import_words (s_imports s))) @
      words_bytes (concat (map export_words (s_exports s)))"
  have img: "image_bytes sha256 s = ?pre @ s_eval_sites s"
    using image_splits(3) [of sha256 s] by simp
  have at: "u_eval_sites_at (sections_unit sha256 s) = length ?pre"
    using image_lengths(3) [OF assms, of s]
    by (simp add: sections_unit_def Let_def import_record_size_def export_record_size_def)
  show ?thesis
    unfolding unit_eval_sites_def sections_unit_fields at by (subst img) (simp add: subrange_append2)
qed

subsection \<open>Properties\<close>

text \<open>
  C7: what the writer lays out, the reader reads. When writing well-formed sections succeeds,
  the image written parses, and every function, constant, exception region, safe point, import
  and export record, the code of every function and the evaluation sites come back as they were
  given. The hash is only assumed to give digests of 32 bytes.
\<close>

theorem write_parse_roundtrip:
  assumes "digest_ok sha256" "sections_wf s" "write_module sha256 (uw_new storage) s = Inr (bytes, n)"
    "n \<le> usize_max"
  shows "\<exists>u. parse_unit sha256 usize_max (take n bytes) = Inr u \<and>
    map (unit_function u) [0..<hd_function_count (u_header u)] = map Some (s_functions s) \<and>
    map (unit_constant u) [0..<hd_constant_count (u_header u)] = map Some (s_constants s) \<and>
    map (unit_exception_region u) [0..<hd_exception_count (u_header u)] = map Some (s_exceptions s) \<and>
    map (unit_safe_point u) [0..<hd_safe_point_count (u_header u)] = map Some (s_safe_points s) \<and>
    map (unit_import u) [0..<hd_import_count (u_header u)] = map Some (s_imports s) \<and>
    map (unit_export u) [0..<hd_export_count (u_header u)] = map Some (s_exports s) \<and>
    (\<forall>f. fn_code_offset f + fn_code_length f \<le> length (s_code s) \<longrightarrow>
       unit_code u f = Some (take (fn_code_length f) (drop (fn_code_offset f) (s_code s)))) \<and>
    unit_eval_sites u = s_eval_sites s"
proof -
  have img: "take n bytes = image_bytes sha256 s" "n = length (image_bytes sha256 s)"
    using write_module_image [OF assms(3)] by auto
  have "parse_unit sha256 usize_max (take n bytes) = Inr (sections_unit sha256 s)"
    using parse_image [OF assms(1,2)] img assms(4) by simp
  then show ?thesis
    using assms(1,2)
    by (intro exI [of _ "sections_unit sha256 s"] conjI nth_equalityI)
      (simp_all add: unit_function_image unit_constant_image unit_exception_region_image
        unit_safe_point_image unit_import_image unit_export_image unit_code_image
        unit_eval_sites_image subrange_def)
qed

definition sample_sections :: unit_sections where
  "sample_sections =
     \<lparr>s_functions = [\<lparr>fn_code_offset = 0, fn_code_length = 2, fn_register_count = 1,
        fn_argument_count = 0, fn_frame_extent = 1, fn_exception_offset = 0, fn_exception_count = 0,
        fn_safe_point_offset = 0, fn_safe_point_count = 1, fn_context_depth = 0,
        fn_context_slots = 0, fn_flags = 0\<rparr>],
      s_constants = [\<lparr>k_kind = KString, k_first = 0, k_second = 1\<rparr>], s_constant_data = [97, 0],
      s_code = [0x00, 0x97], s_exceptions = [], s_safe_points = [0], s_entry_function = 0,
      s_imports = [\<lparr>im_specifier = 0, im_name = 0, im_slot = 0\<rparr>],
      s_exports = [\<lparr>ex_name = 0, ex_slot = 1\<rparr>], s_flags = 1, s_eval_sites = []\<rparr>"

lemma sample_sections_image:
  "sections_wf sample_sections" "digest_ok (\<lambda>_. replicate 32 0)"
  "length (image_bytes (\<lambda>_. replicate 32 0) sample_sections) = 204"
  by (simp_all add: sections_wf_def sample_sections_def words_ok_def function_words_def
      constant_words_def import_words_def export_words_def digest_ok_def image_bytes_def
      unit_magic_def format_digest_def feature_digest_def)

theorem write_parse_roundtrip_witness:
  "\<exists>bytes u. write_module (\<lambda>_. replicate 32 0) (uw_new (replicate 256 0)) sample_sections = Inr (bytes, 204) \<and>
     parse_unit (\<lambda>_. replicate 32 0) u64_max (take 204 bytes) = Inr u \<and>
     map (unit_import u) [0..<hd_import_count (u_header u)] = map Some (s_imports sample_sections)"
proof -
  obtain bytes where
    "write_module (\<lambda>_. replicate 32 0) (uw_new (replicate 256 0)) sample_sections = Inr (bytes, 204)"
    using write_module_total [of "\<lambda>_. replicate 32 0" sample_sections "replicate 256 0"]
      sample_sections_image(3) by auto
  with write_parse_roundtrip [OF sample_sections_image(2,1) this, of u64_max] show ?thesis by auto
qed

text \<open>
  C32: writing fails exactly for want of room: given storage at least as long as the image it
  succeeds, and given less it answers that the storage is full.
\<close>

theorem write_full_iff:
  "write_module sha256 (uw_new storage) s = Inl BuildFull \<longleftrightarrow>
   length storage < length (image_bytes sha256 s)"
proof -
  have "write_module sha256 (uw_new storage) s = Inl BuildFull \<or>
      (\<exists>bytes n. write_module sha256 (uw_new storage) s = Inr (bytes, n))"
    by (simp add: write_module_def Let_def)
  then show ?thesis
    using write_module_image [of sha256 storage s] write_module_total [of sha256 s storage] by force
qed

end
