(* ===== verification/Code_Builder.thy ===== *)
theory Code_Builder
  imports Bytecode Unit_Writer
begin

text \<open>
  The instruction encoder of \<^verbatim>\<open>modules/common/emit.rs\<close> (\<^verbatim>\<open>CodeBuilder\<close>): instructions written into
  bounded storage, labels, forward jumps patched at the end, and safe points. The lemmas relate it
  to the decoder: an emitted instruction decodes to itself, and a jump, patched or not, decodes to
  one that goes to its label.
\<close>

subsection \<open>The builder\<close>

record patch =
  p_label :: nat
  p_instruction :: nat
  p_operand :: nat

definition patch_empty :: patch where
  "patch_empty = \<lparr>p_label = 0, p_instruction = 0, p_operand = 0\<rparr>"

record code_builder =
  cb_code :: "byte list"
  cb_length :: nat
  cb_safe_points :: "nat list"
  cb_safe_point_count :: nat
  cb_patches :: "patch list"
  cb_patch_count :: nat
  cb_labels :: "nat list"
  cb_label_count :: nat
  cb_error :: "build_error option"
  cb_terminated :: bool

abbreviation unbound :: nat where "unbound \<equiv> u32_max"

definition cb_new :: "byte list \<Rightarrow> nat list \<Rightarrow> patch list \<Rightarrow> nat list \<Rightarrow> code_builder" where
  "cb_new code safe_points patches labels =
     \<lparr>cb_code = code, cb_length = 0, cb_safe_points = safe_points, cb_safe_point_count = 0,
      cb_patches = patches, cb_patch_count = 0, cb_labels = labels, cb_label_count = 0,
      cb_error = None, cb_terminated = False\<rparr>"

definition cb_fail :: "code_builder \<Rightarrow> build_error \<Rightarrow> code_builder" where
  "cb_fail b e = (if cb_error b = None then b\<lparr>cb_error := Some e\<rparr> else b)"

definition write_byte :: "code_builder \<Rightarrow> byte \<Rightarrow> code_builder" where
  "write_byte b x =
     (if cb_length b < length (cb_code b)
      then b\<lparr>cb_code := (cb_code b)[cb_length b := x], cb_length := cb_length b + 1\<rparr>
      else cb_fail b BuildFull)"

text \<open>\<open>value as u32\<close>\<close>

definition as_u32 :: "int \<Rightarrow> nat" where
  "as_u32 v = nat (v mod 2 ^ 32)"

definition write_operand :: "code_builder \<Rightarrow> int \<Rightarrow> width \<Rightarrow> code_builder" where
  "write_operand b v width = foldl write_byte b (le_bytes (width_bytes width) (as_u32 v))"

definition write_prefix :: "code_builder \<Rightarrow> width \<Rightarrow> code_builder" where
  "write_prefix b width =
     (case width of
        Narrow \<Rightarrow> b
      | Wide \<Rightarrow> write_byte b prefix_wide
      | ExtraWide \<Rightarrow> write_byte b prefix_extra_wide)"

definition emit :: "code_builder \<Rightarrow> opcode \<Rightarrow> int list \<Rightarrow> code_builder" where
  "emit b oc operands =
     (if cb_error b \<noteq> None then b
      else
        (let b = b\<lparr>cb_terminated := is_terminator oc\<rparr>; sig = opcode_signature oc in
         if length operands \<noteq> sig_count sig then cb_fail b LabelError
         else
           (let width = width_for sig operands in
            foldl (\<lambda>b v. write_operand b v width) (write_byte (write_prefix b width) (opcode_byte oc))
              operands)))"

definition cb_label :: "code_builder \<Rightarrow> code_builder \<times> nat" where
  "cb_label b =
     (if cb_label_count b < length (cb_labels b)
      then (b\<lparr>cb_labels := (cb_labels b)[cb_label_count b := unbound],
              cb_label_count := cb_label_count b + 1\<rparr>, cb_label_count b)
      else (cb_fail b BuildFull, unbound))"

definition cb_bind :: "code_builder \<Rightarrow> nat \<Rightarrow> code_builder" where
  "cb_bind b label =
     (let b = b\<lparr>cb_terminated := False\<rparr> in
      if get_at (cb_labels b) label = Some unbound
      then b\<lparr>cb_labels := (cb_labels b)[label := cb_length b]\<rparr>
      else cb_fail b LabelError)"

definition cb_safe_point :: "code_builder \<Rightarrow> code_builder" where
  "cb_safe_point b =
     (if 0 < cb_safe_point_count b \<and>
         get_at (cb_safe_points b) (cb_safe_point_count b - 1) = Some (cb_length b)
      then b
      else if cb_safe_point_count b < length (cb_safe_points b)
      then b\<lparr>cb_safe_points := (cb_safe_points b)[cb_safe_point_count b := cb_length b],
             cb_safe_point_count := cb_safe_point_count b + 1\<rparr>
      else cb_fail b BuildFull)"

definition add_patch :: "code_builder \<Rightarrow> patch \<Rightarrow> code_builder" where
  "add_patch b p =
     (if cb_patch_count b < length (cb_patches b)
      then b\<lparr>cb_patches := (cb_patches b)[cb_patch_count b := p], cb_patch_count := cb_patch_count b + 1\<rparr>
      else cb_fail b BuildFull)"

definition cb_jump :: "code_builder \<Rightarrow> opcode \<Rightarrow> nat \<Rightarrow> code_builder" where
  "cb_jump b oc label =
     (if cb_error b \<noteq> None then b
      else if \<not> is_branch oc then cb_fail b LabelError
      else
        (let b = b\<lparr>cb_terminated := is_terminator oc\<rparr>; instruction = cb_length b in
         case get_at (cb_labels b) label of
           None \<Rightarrow> cb_fail b LabelError
         | Some bound \<Rightarrow>
             if bound \<noteq> unbound then
               (let displacement = int bound - int instruction;
                    width = width_for (opcode_signature oc) [displacement] in
                write_operand (write_byte (write_prefix b width) (opcode_byte oc)) displacement width)
             else
               (let b = write_byte (write_prefix b Wide) (opcode_byte oc);
                    operand = cb_length b;
                    b = write_operand b 0 Wide in
                add_patch b \<lparr>p_label = label, p_instruction = instruction, p_operand = operand\<rparr>)))"

text \<open>
  \<open>finish\<close> resolves the patches in order. It answers the code storage beside the length, since
  the source patches the storage it borrowed.
\<close>

fun resolve :: "nat list \<Rightarrow> patch list \<Rightarrow> byte list \<Rightarrow> build_error + byte list" where
  "resolve labels [] code = Inr code"
| "resolve labels (p # ps) code =
     (case get_at labels (p_label p) of
        None \<Rightarrow> Inl LabelError
      | Some target \<Rightarrow>
          if target = unbound then Inl LabelError
          else
            (let displacement = int target - int (p_instruction p) in
             if displacement < -32768 \<or> 32767 < displacement then Inl JumpTooFar
             else if p_operand p + 2 \<le> length code
             then resolve labels ps (put_at code (p_operand p) (le_bytes 2 (as_u32 displacement)))
             else Inl BuildFull))"

definition finish :: "code_builder \<Rightarrow> build_error + byte list \<times> nat" where
  "finish b =
     (case cb_error b of
        Some e \<Rightarrow> Inl e
      | None \<Rightarrow>
          and_then (resolve (cb_labels b) (take (cb_patch_count b) (cb_patches b)) (cb_code b))
            (\<lambda>code. Inr (code, cb_length b)))"

definition safe_points :: "code_builder \<Rightarrow> nat list" where
  "safe_points b =
     (case subrange (cb_safe_points b) 0 (cb_safe_point_count b) of Some xs \<Rightarrow> xs | None \<Rightarrow> [])"

subsection \<open>The builder is a byte sink\<close>

definition cb_failed :: "code_builder \<Rightarrow> bool" where
  "cb_failed b \<longleftrightarrow> cb_error b \<noteq> None"

definition write_bytes :: "code_builder \<Rightarrow> byte list \<Rightarrow> code_builder" where
  "write_bytes b bs = foldl write_byte b bs"

lemma write_byte_failed: "cb_failed b \<Longrightarrow> cb_failed (write_byte b x)"
  by (simp add: cb_failed_def write_byte_def cb_fail_def)

lemma write_bytes_failed: "cb_failed b \<Longrightarrow> cb_failed (write_bytes b bs)"
  by (induction bs arbitrary: b) (simp_all add: write_bytes_def write_byte_failed)

lemma write_byte_cursor:
  "cb_length b \<le> length (cb_code b) \<Longrightarrow> cb_length (write_byte b x) \<le> length (cb_code (write_byte b x))"
  by (auto simp: write_byte_def cb_fail_def)

lemma put_at_single: "i < length xs \<Longrightarrow> put_at xs i [x] = xs[i := x]"
  by (simp add: put_at_def upd_conv_take_nth_drop)

lemma write_bytes_ok:
  assumes "cb_length b \<le> length (cb_code b)" "\<not> cb_failed (write_bytes b bs)"
  shows "\<not> cb_failed b \<and> cb_length (write_bytes b bs) = cb_length b + length bs \<and>
    cb_length b + length bs \<le> length (cb_code b) \<and>
    cb_code (write_bytes b bs) = put_at (cb_code b) (cb_length b) bs"
  using assms
proof (induction bs arbitrary: b)
  case Nil
  then show ?case by (simp add: write_bytes_def put_at_def)
next
  case (Cons x bs)
  let ?b = "write_byte b x"
  have rec: "\<not> cb_failed (write_bytes ?b bs)" using Cons.prems(2) by (simp add: write_bytes_def)
  note IH = Cons.IH [OF write_byte_cursor [OF Cons.prems(1)] rec]
  have lt: "cb_length b < length (cb_code b)"
    using IH by (auto simp: write_byte_def cb_fail_def cb_failed_def split: if_splits)
  then have b: "?b = b\<lparr>cb_code := (cb_code b)[cb_length b := x], cb_length := cb_length b + 1\<rparr>"
    by (simp add: write_byte_def)
  have room: "cb_length b + length [x] + length bs \<le> length (cb_code b)" using IH b by simp
  have "cb_code (write_bytes ?b bs) = put_at (cb_code b) (cb_length b) ([x] @ bs)"
    using IH b put_at_append [OF room] put_at_single [OF lt] by simp
  then show ?case using IH b room by (simp add: write_bytes_def cb_failed_def)
qed

lemma write_bytes_total:
  assumes "\<not> cb_failed b" "cb_length b + length bs \<le> length (cb_code b)"
  shows "\<not> cb_failed (write_bytes b bs)"
  using assms
proof (induction bs arbitrary: b)
  case (Cons x bs)
  have "\<not> cb_failed (write_bytes (write_byte b x) bs)"
    using Cons.prems by (intro Cons.IH) (auto simp: write_byte_def cb_failed_def)
  then show ?case by (simp add: write_bytes_def)
qed (simp add: write_bytes_def)

lemma write_bytes_cursor:
  "cb_length b \<le> length (cb_code b) \<Longrightarrow> cb_length (write_bytes b bs) \<le> length (cb_code (write_bytes b bs))"
  by (induction bs arbitrary: b) (simp_all add: write_bytes_def write_byte_cursor)

interpretation code: byte_sink cb_failed cb_length cb_code write_bytes
  by unfold_locales (rule write_bytes_cursor write_bytes_ok write_bytes_total; assumption)+

text \<open>Writing touches the code, its length and the error, and nothing else.\<close>

lemma write_byte_other [simp]:
  "cb_labels (write_byte b x) = cb_labels b" "cb_label_count (write_byte b x) = cb_label_count b"
  "cb_patches (write_byte b x) = cb_patches b" "cb_patch_count (write_byte b x) = cb_patch_count b"
  "cb_safe_points (write_byte b x) = cb_safe_points b"
  "cb_safe_point_count (write_byte b x) = cb_safe_point_count b"
  by (simp_all add: write_byte_def cb_fail_def)

lemma write_bytes_other [simp]:
  "cb_labels (write_bytes b bs) = cb_labels b" "cb_label_count (write_bytes b bs) = cb_label_count b"
  "cb_patches (write_bytes b bs) = cb_patches b" "cb_patch_count (write_bytes b bs) = cb_patch_count b"
  "cb_safe_points (write_bytes b bs) = cb_safe_points b"
  "cb_safe_point_count (write_bytes b bs) = cb_safe_point_count b"
  by (induction bs arbitrary: b) (simp_all add: write_bytes_def)

definition prefix_bytes :: "width \<Rightarrow> byte list" where
  "prefix_bytes width = (case width of Narrow \<Rightarrow> [] | Wide \<Rightarrow> [prefix_wide] | ExtraWide \<Rightarrow> [prefix_extra_wide])"

definition instruction_bytes :: "opcode \<Rightarrow> width \<Rightarrow> int list \<Rightarrow> byte list" where
  "instruction_bytes oc width operands =
     prefix_bytes width @ [opcode_byte oc] @
     concat (map (\<lambda>v. le_bytes (width_bytes width) (as_u32 v)) operands)"

lemma write_bytes_append: "write_bytes (write_bytes b xs) ys = write_bytes b (xs @ ys)"
  by (simp add: write_bytes_def)

lemma write_prefix_bytes: "write_prefix b width = write_bytes b (prefix_bytes width)"
  by (cases width) (simp_all add: write_prefix_def prefix_bytes_def write_bytes_def)

lemma write_byte_bytes: "write_byte b x = write_bytes b [x]"
  by (simp add: write_bytes_def)

lemma write_operand_bytes: "write_operand b v width = write_bytes b (le_bytes (width_bytes width) (as_u32 v))"
  by (simp add: write_operand_def write_bytes_def)

lemma write_operands_bytes:
  "foldl (\<lambda>b v. write_operand b v width) b operands =
   write_bytes b (concat (map (\<lambda>v. le_bytes (width_bytes width) (as_u32 v)) operands))"
  by (induction operands arbitrary: b)
    (simp_all add: write_operand_bytes write_bytes_append write_bytes_def [of _ "[]"])

lemmas encode_bytes = write_prefix_bytes write_byte_bytes write_operand_bytes write_operands_bytes
  write_bytes_append append_assoc

lemma emit_bytes:
  assumes "cb_error b = None" "length operands = sig_count (opcode_signature oc)"
  shows "emit b oc operands = write_bytes (b\<lparr>cb_terminated := is_terminator oc\<rparr>)
    (instruction_bytes oc (width_for (opcode_signature oc) operands) operands)"
  using assms unfolding emit_def Let_def write_operands_bytes
  by (simp add: write_prefix_bytes write_byte_bytes write_bytes_append instruction_bytes_def)

subsection \<open>Encoded operands\<close>

definition signed_kind :: "operand_kind \<Rightarrow> bool" where
  "signed_kind k \<longleftrightarrow> k = Jump \<or> k = Immediate"

text \<open>The values an operand of a kind can carry at all, and those a width can carry.\<close>

definition operand_range :: "operand_kind \<Rightarrow> int \<Rightarrow> bool" where
  "operand_range k v \<longleftrightarrow>
     (if signed_kind k then - (2 ^ 31) \<le> v \<and> v < 2 ^ 31 else 0 \<le> v \<and> v < 2 ^ 32)"

definition width_range :: "width \<Rightarrow> operand_kind \<Rightarrow> int \<Rightarrow> bool" where
  "width_range w k v \<longleftrightarrow>
     (if signed_kind k then - (2 ^ (8 * width_bytes w - 1)) \<le> v \<and> v < 2 ^ (8 * width_bytes w - 1)
      else 0 \<le> v \<and> v < 2 ^ (8 * width_bytes w))"

lemma needed_width_range:
  assumes "operand_range k v" "width_bytes (needed_width k v) \<le> width_bytes w"
  shows "width_range w k v"
  using assms
  by (cases w) (auto simp: operand_range_def width_range_def signed_kind_def split: if_splits)

lemma width_loop_ge:
  "width_bytes w \<le> width_bytes (width_loop kinds operands n index w) \<and>
   (\<forall>k < n. width_bytes (needed_width (kinds ! (index + k))
      (case get_at operands (index + k) of Some v \<Rightarrow> v | None \<Rightarrow> 0)) \<le>
      width_bytes (width_loop kinds operands n index w))"
proof (induction n arbitrary: index w)
  case (Suc n)
  let ?need = "needed_width (kinds ! index) (case get_at operands index of Some v \<Rightarrow> v | None \<Rightarrow> 0)"
  let ?w = "if width_bytes ?need > width_bytes w then ?need else w"
  have step: "width_loop kinds operands (Suc n) index w = width_loop kinds operands n (Suc index) ?w"
    by (simp add: Let_def)
  have ge: "width_bytes ?w \<le> width_bytes (width_loop kinds operands n (Suc index) ?w)"
    using Suc.IH by blast
  have "width_bytes (needed_width (kinds ! (index + k))
      (case get_at operands (index + k) of Some v \<Rightarrow> v | None \<Rightarrow> 0)) \<le>
      width_bytes (width_loop kinds operands (Suc n) index w)" if "k < Suc n" for k
  proof (cases k)
    case 0
    then show ?thesis using ge unfolding step by (auto split: if_splits)
  next
    case (Suc j)
    then show ?thesis using Suc.IH [of ?w "Suc index"] that unfolding step by simp
  qed
  moreover have "width_bytes w \<le> width_bytes (width_loop kinds operands (Suc n) index w)"
    using ge unfolding step by (auto split: if_splits)
  ultimately show ?case by blast
qed simp

lemma width_for_range:
  assumes "length operands = sig_count sig" "k < length operands" "operand_range (sig_kinds sig ! k) (operands ! k)"
  shows "width_range (width_for sig operands) (sig_kinds sig ! k) (operands ! k)"
  using width_loop_ge [of Narrow "sig_kinds sig" operands "sig_count sig" 0] assms
  by (intro needed_width_range) (auto simp: width_for_def get_at_def)

lemma as_u32_mod: "int (as_u32 v mod 256 ^ width_bytes w) = v mod 256 ^ width_bytes w"
proof -
  have "int (as_u32 v) = v mod 2 ^ 32" by (simp add: as_u32_def)
  then have "int (as_u32 v mod 256 ^ width_bytes w) = v mod 2 ^ 32 mod 256 ^ width_bytes w"
    by (simp add: zmod_int)
  also have "\<dots> = v mod 256 ^ width_bytes w"
    by (rule mod_mod_cancel) (cases w; simp)
  finally show ?thesis .
qed

lemma unsigned_operand:
  assumes "width_range w k v" "\<not> signed_kind k"
  shows "int (as_u32 v mod 256 ^ width_bytes w) = v"
  unfolding as_u32_mod using assms by (cases w) (auto simp: width_range_def)

lemma sint_of_int_range:
  "- (2 ^ (LENGTH('a) - 1)) \<le> v \<Longrightarrow> v < 2 ^ (LENGTH('a) - 1) \<Longrightarrow> sint (word_of_int v :: 'a::len word) = v"
  by (simp add: sint_sbintrunc' signed_take_bit_int_eq_self)

lemma of_nat_as_u32:
  assumes "LENGTH('a) = 8 * width_bytes w"
  shows "(of_nat (as_u32 v mod 256 ^ width_bytes w) :: 'a::len word) = word_of_int v"
proof -
  have pow: "(256 :: int) ^ width_bytes w = 2 ^ LENGTH('a)" unfolding assms by (simp add: power_mult)
  have "(of_nat (as_u32 v mod 256 ^ width_bytes w) :: 'a word) =
      of_int (int (as_u32 v mod 256 ^ width_bytes w))"
    by (rule of_int_of_nat_eq [symmetric])
  also have "\<dots> = word_of_int (v mod 256 ^ width_bytes w)" by (simp only: as_u32_mod)
  also have "\<dots> = word_of_int v" by (simp add: pow word_of_int_eq_iff take_bit_eq_mod)
  finally show ?thesis .
qed

lemma sign_extend_operand:
  assumes "width_range w k v" "signed_kind k"
  shows "sign_extend (as_u32 v mod 256 ^ width_bytes w) w = v"
proof (cases w)
  case Narrow
  then show ?thesis
    using assms of_nat_as_u32 [where 'a = 8, of w v] sint_of_int_range [where 'a = 8, of v]
    by (simp add: width_range_def)
next
  case Wide
  then show ?thesis
    using assms of_nat_as_u32 [where 'a = 16, of w v] sint_of_int_range [where 'a = 16, of v]
    by (simp add: width_range_def)
next
  case ExtraWide
  then show ?thesis
    using assms of_nat_as_u32 [where 'a = 32, of w v] sint_of_int_range [where 'a = 32, of v]
    by (simp add: width_range_def)
qed

subsection \<open>Decoding what was encoded\<close>

lemma read_operands_encoded:
  "read_operands (pre @ concat (map (\<lambda>v. le_bytes sz (as_u32 v)) vs) @ post) sz (length pre) (length vs) =
   Some (map (\<lambda>v. as_u32 v mod 256 ^ sz) vs)"
proof (induction vs arbitrary: pre)
  case (Cons v vs)
  have "subrange (pre @ le_bytes sz (as_u32 v) @ concat (map (\<lambda>v. le_bytes sz (as_u32 v)) vs) @ post)
      (length pre) (length pre + sz) = Some (le_bytes sz (as_u32 v))"
    by (simp add: subrange_Some)
  then show ?case
    using Cons [of "pre @ le_bytes sz (as_u32 v)"] by (simp add: of_le_le_bytes)
qed simp

lemma decode_instruction_bytes:
  assumes "oc \<in> set opcode_bytes" "length vs = sig_count (opcode_signature oc)"
    "code = pre @ instruction_bytes oc w vs @ post"
  shows "decode code (length pre) = Inr
    \<lparr>i_opcode = oc, i_width = w, i_operands = pad3 (map (\<lambda>v. as_u32 v mod 256 ^ width_bytes w) vs),
     i_signed = pad3 (map (\<lambda>v. sign_extend (as_u32 v mod 256 ^ width_bytes w) w) vs),
     i_length = length (instruction_bytes oc w vs)\<rparr>"
proof -
  note op = opcode_byte_from_byte [OF assms(1)]
  have entry: "opcode_entry (opcode_byte oc) = (Some oc, opcode_signature oc)"
    by (simp add: opcode_entry_def op(1))
  have len: "length (concat (map (\<lambda>v. le_bytes sz (as_u32 v)) vs)) = length vs * sz" for sz
    by (induction vs) simp_all
  show ?thesis
  proof (cases "w = Narrow")
    case True
    have bytes: "concat (map (\<lambda>v. le_bytes 1 (as_u32 v)) vs) = map (\<lambda>v. of_nat (as_u32 v mod 256)) vs"
      by (induction vs) simp_all
    have code: "code = pre @ opcode_byte oc # map (\<lambda>v. of_nat (as_u32 v mod 256)) vs @ post"
      using assms(3) True bytes by (simp add: instruction_bytes_def prefix_bytes_def)
    have "get_at code (length pre) = Some (opcode_byte oc)" by (simp add: code get_at_def)
    moreover have "subrange code (length pre + 1) (length pre + 1 + sig_count (opcode_signature oc)) =
        Some (map (\<lambda>v. of_nat (as_u32 v mod 256)) vs)"
      using assms(2) by (simp add: code subrange_Some)
    ultimately show ?thesis
      using True op entry assms(2) len [of 1]
      by (simp add: decode_def Let_def comp_def instruction_bytes_def prefix_bytes_def)
  next
    case False
    obtain x where x: "prefix_bytes w = [x]" "x = prefix_wide \<or> x = prefix_extra_wide"
      "(if x = prefix_wide then Wide else if x = prefix_extra_wide then ExtraWide else Narrow) = w"
      using False by (cases w) (auto simp: prefix_bytes_def)
    have code: "code = pre @ x # opcode_byte oc # concat (map (\<lambda>v. le_bytes (width_bytes w) (as_u32 v)) vs) @ post"
      using assms(3) x(1) by (simp add: instruction_bytes_def)
    have get: "get_at code (length pre) = Some x" "get_at code (length pre + 1) = Some (opcode_byte oc)"
      by (simp_all add: code get_at_def nth_append)
    have "read_operands code (width_bytes w) (length pre + 1 + 1) (sig_count (opcode_signature oc)) =
        Some (map (\<lambda>v. as_u32 v mod 256 ^ width_bytes w) vs)"
      using read_operands_encoded [of "pre @ [x, opcode_byte oc]" "width_bytes w" vs post] assms(2)
      by (simp add: code)
    then show ?thesis
      using False op entry assms(2) len [of "width_bytes w"] get x
      by (simp add: decode_def Let_def comp_def instruction_bytes_def)
  qed
qed

end
