(* ===== verification/Code_Assembly.thy ===== *)
theory Code_Assembly
  imports Code_Builder "HOL-Library.Code_Target_Nat"
begin

text \<open>
  What a whole use of the code builder produces. A client's calls are a sequence of pseudo
  instructions: emitted instructions, jumps to labels, label bindings and safe points. The
  invariant \<open>builder_inv\<close> describes the storage as the chunks those calls wrote, a forward jump's
  chunk still pending; resolving the patches then gives code that decodes to the sequence the
  client asked for, each jump to the place where its label was bound.
\<close>

subsection \<open>Client calls\<close>

datatype asm = AEmit opcode "int list" | AJump opcode nat | ABind nat | AMark

definition build_step :: "code_builder \<Rightarrow> asm \<Rightarrow> code_builder" where
  "build_step b a =
     (case a of
        AEmit oc vs \<Rightarrow> emit b oc vs
      | AJump oc l \<Rightarrow> cb_jump b oc l
      | ABind l \<Rightarrow> cb_bind b l
      | AMark \<Rightarrow> cb_safe_point b)"

definition emit_ok :: "opcode \<Rightarrow> int list \<Rightarrow> bool" where
  "emit_ok oc vs \<longleftrightarrow> oc \<in> set opcode_bytes \<and> length vs = sig_count (opcode_signature oc) \<and>
     list_all2 operand_range (take (length vs) (sig_kinds (opcode_signature oc))) vs"

text \<open>A client emits what the signature admits, and uses the labels it was given.\<close>

definition asm_ok :: "code_builder \<Rightarrow> asm \<Rightarrow> bool" where
  "asm_ok b a =
     (case a of
        AEmit oc vs \<Rightarrow> emit_ok oc vs
      | AJump oc l \<Rightarrow> is_branch oc \<and> l < cb_label_count b
      | ABind l \<Rightarrow> l < cb_label_count b
      | AMark \<Rightarrow> True)"

inductive builds :: "code_builder \<Rightarrow> asm list \<Rightarrow> bool" where
  builds_new: "length code \<le> 2 ^ 31 \<Longrightarrow> builds (cb_new code sps patches labels) []"
| builds_label: "builds b as \<Longrightarrow> builds (fst (cb_label b)) as"
| builds_step: "builds b as \<Longrightarrow> asm_ok b a \<Longrightarrow> builds (build_step b a) (as @ [a])"

subsection \<open>What the code should be\<close>

definition decoded_ok :: "nat list \<Rightarrow> nat \<Rightarrow> instruction \<Rightarrow> asm \<Rightarrow> bool" where
  "decoded_ok labels at i a \<longleftrightarrow>
     (case a of
        AEmit oc vs \<Rightarrow> i_opcode i = oc \<and>
          list_all (\<lambda>k. if signed_kind (sig_kinds (opcode_signature oc) ! k)
            then i_signed i ! k = vs ! k else int (i_operands i ! k) = vs ! k) [0..<length vs]
      | AJump oc l \<Rightarrow> i_opcode i = oc \<and>
          (case get_at labels l of
             Some t \<Rightarrow> t \<noteq> unbound \<and> int at + i_signed i ! 0 = int t | None \<Rightarrow> False)
      | _ \<Rightarrow> False)"

text \<open>
  \<open>assembled code labels sps at as stop\<close>: from \<open>at\<close>, the code decodes to \<open>as\<close> one after the other
  and ends at \<open>stop\<close>; a binding says its label's position, a mark that the position is a safe point.
\<close>

fun assembled :: "byte list \<Rightarrow> nat list \<Rightarrow> nat list \<Rightarrow> nat \<Rightarrow> asm list \<Rightarrow> nat \<Rightarrow> bool" where
  "assembled code labels sps at [] stop \<longleftrightarrow> at = stop"
| "assembled code labels sps at (ABind l # as) stop \<longleftrightarrow>
     get_at labels l = Some at \<and> assembled code labels sps at as stop"
| "assembled code labels sps at (AMark # as) stop \<longleftrightarrow>
     at \<in> set sps \<and> assembled code labels sps at as stop"
| "assembled code labels sps at (a # as) stop \<longleftrightarrow>
     (case decode code at of
        Inl _ \<Rightarrow> False
      | Inr i \<Rightarrow> decoded_ok labels at i a \<and> assembled code labels sps (at + i_length i) as stop)"

subsection \<open>Chunks\<close>

record chunk =
  ch_asm :: asm
  ch_bytes :: "byte list"
  ch_pending :: bool

definition jump_bytes :: "opcode \<Rightarrow> nat \<Rightarrow> nat \<Rightarrow> byte list" where
  "jump_bytes oc pos target =
     (let d = int target - int pos in
      instruction_bytes oc (width_for (opcode_signature oc) [d]) [d])"

definition chunk_ok :: "nat list \<Rightarrow> nat list \<Rightarrow> nat \<Rightarrow> chunk \<Rightarrow> bool" where
  "chunk_ok labels sps pos c \<longleftrightarrow>
     (case ch_asm c of
        AEmit oc vs \<Rightarrow> emit_ok oc vs \<and> \<not> ch_pending c \<and>
          ch_bytes c = instruction_bytes oc (width_for (opcode_signature oc) vs) vs
      | AJump oc l \<Rightarrow> is_branch oc \<and>
          (if ch_pending c then ch_bytes c = instruction_bytes oc Wide [0]
           else \<exists>t. get_at labels l = Some t \<and> t \<le> pos \<and> pos \<le> 2 ^ 31 \<and> ch_bytes c = jump_bytes oc pos t)
      | ABind l \<Rightarrow> \<not> ch_pending c \<and> ch_bytes c = [] \<and> get_at labels l = Some pos \<and> pos \<le> 2 ^ 31
      | AMark \<Rightarrow> \<not> ch_pending c \<and> ch_bytes c = [] \<and> pos \<in> set sps)"

fun chunks_ok :: "nat list \<Rightarrow> nat list \<Rightarrow> nat \<Rightarrow> chunk list \<Rightarrow> bool" where
  "chunks_ok labels sps pos [] \<longleftrightarrow> True"
| "chunks_ok labels sps pos (c # cs) \<longleftrightarrow>
     chunk_ok labels sps pos c \<and> chunks_ok labels sps (pos + length (ch_bytes c)) cs"

fun pending_patches :: "nat \<Rightarrow> chunk list \<Rightarrow> patch list" where
  "pending_patches pos [] = []"
| "pending_patches pos (c # cs) =
     (if ch_pending c then
        (case ch_asm c of
           AJump oc l \<Rightarrow> [\<lparr>p_label = l, p_instruction = pos, p_operand = pos + 2\<rparr>] | _ \<Rightarrow> [])
      else []) @ pending_patches (pos + length (ch_bytes c)) cs"

definition code_of :: "chunk list \<Rightarrow> byte list" where
  "code_of cs = concat (map ch_bytes cs)"

lemma code_of_simps [simp]:
  "code_of [] = []" "code_of (c # cs) = ch_bytes c @ code_of cs"
  "code_of (xs @ ys) = code_of xs @ code_of ys"
  by (simp_all add: code_of_def)

lemma chunks_ok_append:
  "chunks_ok labels sps pos (xs @ ys) \<longleftrightarrow>
   chunks_ok labels sps pos xs \<and> chunks_ok labels sps (pos + length (code_of xs)) ys"
  by (induction xs arbitrary: pos) (auto simp: add.assoc)

lemma pending_patches_append:
  "pending_patches pos (xs @ ys) = pending_patches pos xs @ pending_patches (pos + length (code_of xs)) ys"
  by (induction xs arbitrary: pos) (auto simp: add.assoc split: asm.split)

text \<open>Bound labels stay bound and safe points stay marked.\<close>

definition labels_below :: "nat \<Rightarrow> chunk \<Rightarrow> bool" where
  "labels_below n c = (case ch_asm c of AJump _ l \<Rightarrow> l < n | ABind l \<Rightarrow> l < n | _ \<Rightarrow> True)"

definition labels_extend :: "nat \<Rightarrow> nat list \<Rightarrow> nat list \<Rightarrow> bool" where
  "labels_extend n labels labels' \<longleftrightarrow>
     (\<forall>l < n. \<forall>t. get_at labels l = Some t \<longrightarrow> t \<le> 2 ^ 31 \<longrightarrow> get_at labels' l = Some t)"

lemma chunk_ok_mono:
  assumes "chunk_ok labels sps pos c" "labels_below n c" "labels_extend n labels labels'" "set sps \<subseteq> set sps'"
  shows "chunk_ok labels' sps' pos c"
proof (cases "ch_asm c")
  case (AJump oc l)
  then show ?thesis
    using assms by (auto simp: chunk_ok_def labels_below_def labels_extend_def dest: order_trans split: if_splits)
qed (use assms in \<open>auto simp: chunk_ok_def labels_below_def labels_extend_def\<close>)

lemma chunks_ok_mono:
  assumes "chunks_ok labels sps pos cs" "list_all (labels_below n) cs" "labels_extend n labels labels'"
    "set sps \<subseteq> set sps'"
  shows "chunks_ok labels' sps' pos cs"
  using assms by (induction cs arbitrary: pos) (auto intro: chunk_ok_mono)

lemma branch_signature_count: "is_branch oc \<Longrightarrow> sig_count (opcode_signature oc) = 1 \<and>
    sig_kinds (opcode_signature oc) = [Jump, Count, Count]"
  using is_branch_signature by (simp add: signature_new_def)

lemma branch_opcode: "is_branch oc \<Longrightarrow> oc \<in> set opcode_bytes"
  unfolding is_branch_def by (elim disjE) (simp_all add: opcode_bytes_def)

subsection \<open>Resolving patches\<close>

lemma le_bytes_2: "le_bytes 2 x = [of_nat (x mod 256), of_nat (x div 256 mod 256)]"
  by (simp add: numeral_2_eq_2)

lemma wide_jump_bytes:
  "instruction_bytes oc Wide [v] = [prefix_wide, opcode_byte oc] @ le_bytes 2 (as_u32 v)"
  by (simp add: instruction_bytes_def prefix_bytes_def)

lemma put_at_middle:
  "length ys = length zs \<Longrightarrow> put_at (xs @ ys @ ws) (length xs) zs = xs @ zs @ ws"
  by (simp add: put_at_def)

definition resolved :: "nat list \<Rightarrow> nat \<Rightarrow> chunk \<Rightarrow> chunk \<Rightarrow> bool" where
  "resolved labels pos c c' \<longleftrightarrow>
     ch_asm c' = ch_asm c \<and> length (ch_bytes c') = length (ch_bytes c) \<and>
     (if ch_pending c then
        (\<exists>oc l t. ch_asm c = AJump oc l \<and> get_at labels l = Some t \<and> t \<noteq> unbound \<and>
           -32768 \<le> int t - int pos \<and> int t - int pos \<le> 32767 \<and>
           ch_bytes c' = instruction_bytes oc Wide [int t - int pos])
      else c' = c)"

fun all_resolved :: "nat list \<Rightarrow> nat \<Rightarrow> chunk list \<Rightarrow> chunk list \<Rightarrow> bool" where
  "all_resolved labels pos [] cs' \<longleftrightarrow> cs' = []"
| "all_resolved labels pos (c # cs) cs' \<longleftrightarrow>
     (\<exists>d ds. cs' = d # ds \<and> resolved labels pos c d \<and>
        all_resolved labels (pos + length (ch_bytes c)) cs ds)"

lemma resolve_chunks:
  assumes "resolve labels (pending_patches (length pre) cs) (pre @ code_of cs @ post) = Inr code"
    "chunks_ok labels sps (length pre) cs"
  shows "\<exists>cs'. all_resolved labels (length pre) cs cs' \<and> code = pre @ code_of cs' @ post"
  using assms
proof (induction cs arbitrary: pre)
  case (Cons c cs)
  show ?case
  proof (cases "ch_pending c")
    case False
    then have "resolve labels (pending_patches (length (pre @ ch_bytes c)) cs)
        ((pre @ ch_bytes c) @ code_of cs @ post) = Inr code"
      using Cons.prems(1) by simp
    from Cons.IH [OF this] Cons.prems(2) obtain cs' where
      "all_resolved labels (length (pre @ ch_bytes c)) cs cs'" "code = (pre @ ch_bytes c) @ code_of cs' @ post"
      by auto
    then show ?thesis using False by (intro exI [of _ "c # cs'"]) (simp add: resolved_def)
  next
    case True
    then obtain oc l where jump: "ch_asm c = AJump oc l" and bytes: "ch_bytes c = instruction_bytes oc Wide [0]"
      using Cons.prems(2) by (auto simp: chunk_ok_def split: asm.splits)
    obtain t where t: "get_at labels l = Some t" "t \<noteq> unbound"
      "-32768 \<le> int t - int (length pre)" "int t - int (length pre) \<le> 32767"
      using Cons.prems(1) True jump by (auto simp: Let_def split: option.splits if_splits)
    let ?d = "int t - int (length pre)"
    let ?c = "c\<lparr>ch_bytes := instruction_bytes oc Wide [?d]\<rparr>"
    have len: "length (ch_bytes c) = 4" "length (ch_bytes ?c) = 4"
      by (simp_all add: bytes wide_jump_bytes)
    have "put_at (pre @ code_of (c # cs) @ post) (length pre + 2) (le_bytes 2 (as_u32 ?d)) =
        (pre @ ch_bytes ?c) @ code_of cs @ post"
      using put_at_middle [of "le_bytes 2 (as_u32 0)" "le_bytes 2 (as_u32 ?d)"
          "pre @ [prefix_wide, opcode_byte oc]" "code_of cs @ post"]
      by (simp add: bytes wide_jump_bytes)
    then have "resolve labels (pending_patches (length (pre @ ch_bytes ?c)) cs)
        ((pre @ ch_bytes ?c) @ code_of cs @ post) = Inr code"
      using Cons.prems(1) True jump t len by (simp add: Let_def split: if_splits)
    from Cons.IH [OF this] Cons.prems(2) len obtain cs' where
      "all_resolved labels (length (pre @ ch_bytes ?c)) cs cs'" "code = (pre @ ch_bytes ?c) @ code_of cs' @ post"
      by auto
    then show ?thesis
      using True jump t len by (intro exI [of _ "?c # cs'"]) (simp add: resolved_def)
  qed
qed simp

subsection \<open>Resolved code decodes\<close>

lemma pad3_nth: "k < length xs \<Longrightarrow> length xs \<le> 3 \<Longrightarrow> pad3 xs ! k = xs ! k"
  by (simp add: pad3_def nth_append)

lemma emit_ok_nth:
  assumes "emit_ok oc vs" "k < length vs"
  shows "width_range (width_for (opcode_signature oc) vs) (sig_kinds (opcode_signature oc) ! k) (vs ! k)"
    "length vs \<le> 3"
proof -
  have "operand_range (sig_kinds (opcode_signature oc) ! k) (vs ! k)"
    using assms by (auto simp: emit_ok_def list_all2_conv_all_nth)
  then show "width_range (width_for (opcode_signature oc) vs) (sig_kinds (opcode_signature oc) ! k) (vs ! k)"
    using assms by (intro width_for_range) (auto simp: emit_ok_def)
  show "length vs \<le> 3" using assms(1) opcode_signature_shape(1) by (simp add: emit_ok_def)
qed

lemma emit_decodes:
  assumes "emit_ok oc vs" "code = pre @ instruction_bytes oc (width_for (opcode_signature oc) vs) vs @ post"
  shows "\<exists>i. decode code (length pre) = Inr i \<and> decoded_ok labels (length pre) i (AEmit oc vs) \<and>
    i_length i = length (instruction_bytes oc (width_for (opcode_signature oc) vs) vs)"
proof -
  let ?w = "width_for (opcode_signature oc) vs"
  note dec = decode_instruction_bytes [OF _ _ assms(2)]
  have "oc \<in> set opcode_bytes" "length vs = sig_count (opcode_signature oc)"
    using assms(1) by (simp_all add: emit_ok_def)
  note dec = dec [OF this]
  have "if signed_kind (sig_kinds (opcode_signature oc) ! k)
      then pad3 (map (\<lambda>v. sign_extend (as_u32 v mod 256 ^ width_bytes ?w) ?w) vs) ! k = vs ! k
      else int (pad3 (map (\<lambda>v. as_u32 v mod 256 ^ width_bytes ?w) vs) ! k) = vs ! k" if "k < length vs" for k
    using emit_ok_nth [OF assms(1) that] that
    by (simp add: pad3_nth sign_extend_operand [of ?w] unsigned_operand [of ?w])
  then show ?thesis unfolding dec by (simp add: decoded_ok_def list_all_iff)
qed

lemma jump_decodes:
  assumes "is_branch oc" "code = pre @ instruction_bytes oc w [d] @ post" "width_range w Jump d"
    "get_at labels l = Some t" "t \<noteq> unbound" "d = int t - int (length pre)"
  shows "\<exists>i. decode code (length pre) = Inr i \<and> decoded_ok labels (length pre) i (AJump oc l) \<and>
    i_length i = length (instruction_bytes oc w [d])"
proof -
  have "length [d] = sig_count (opcode_signature oc)" using branch_signature_count [OF assms(1)] by simp
  note dec = decode_instruction_bytes [OF branch_opcode [OF assms(1)] this assms(2)]
  have "pad3 (map (\<lambda>v. sign_extend (as_u32 v mod 256 ^ width_bytes w) w) [d]) ! 0 = d"
    using sign_extend_operand [OF assms(3)] by (subst pad3_nth) (simp_all add: signed_kind_def)
  then show ?thesis unfolding dec using assms(4-6) by (simp add: decoded_ok_def)
qed

lemma jump_bytes_decodes:
  assumes "is_branch oc" "code = pre @ jump_bytes oc (length pre) t @ post" "get_at labels l = Some t"
    "t \<le> length pre" "length pre \<le> 2 ^ 31"
  shows "\<exists>i. decode code (length pre) = Inr i \<and> decoded_ok labels (length pre) i (AJump oc l) \<and>
    i_length i = length (jump_bytes oc (length pre) t)"
proof -
  let ?d = "int t - int (length pre)" and ?sig = "opcode_signature oc"
  have "operand_range (sig_kinds ?sig ! 0) ([?d] ! 0)"
    using assms(4,5) branch_signature_count [OF assms(1)] by (simp add: operand_range_def signed_kind_def)
  then have "width_range (width_for ?sig [?d]) (sig_kinds ?sig ! 0) ([?d] ! 0)"
    using branch_signature_count [OF assms(1)] by (intro width_for_range) simp_all
  then have "width_range (width_for ?sig [?d]) Jump ?d"
    using branch_signature_count [OF assms(1)] by simp
  moreover have "t \<noteq> unbound" using assms(4,5) by auto
  ultimately show ?thesis
    using jump_decodes [OF assms(1) assms(2) [unfolded jump_bytes_def Let_def] _ assms(3)]
    by (simp add: jump_bytes_def Let_def)
qed

lemma resolved_assembled:
  assumes "chunks_ok labels sps (length pre) cs" "all_resolved labels (length pre) cs cs'"
    "code = pre @ code_of cs' @ post"
  shows "assembled code labels sps (length pre) (map ch_asm cs) (length pre + length (code_of cs))"
  using assms
proof (induction cs arbitrary: pre cs')
  case (Cons c cs)
  obtain d ds where cs': "cs' = d # ds" and d: "resolved labels (length pre) c d"
    and ds: "all_resolved labels (length (pre @ ch_bytes d)) cs ds"
    using Cons.prems(2) by (auto simp: resolved_def)
  have len: "length (ch_bytes d) = length (ch_bytes c)" using d by (simp add: resolved_def)
  have code: "code = pre @ ch_bytes d @ code_of ds @ post" using Cons.prems(3) cs' by simp
  have ok: "chunk_ok labels sps (length pre) c" using Cons.prems(1) by simp
  have rest: "assembled code labels sps (length pre + length (ch_bytes c)) (map ch_asm cs)
      (length pre + length (code_of (c # cs)))"
    using Cons.IH [OF _ ds] Cons.prems(1) code len by (simp add: add.assoc)
  have instr: "\<exists>i. decode code (length pre) = Inr i \<and> decoded_ok labels (length pre) i (ch_asm c) \<and>
      i_length i = length (ch_bytes c)" if "\<nexists>l. ch_asm c = ABind l" "ch_asm c \<noteq> AMark"
  proof (cases "ch_asm c")
    case (AEmit oc vs)
    then have "d = c" "emit_ok oc vs"
      "ch_bytes c = instruction_bytes oc (width_for (opcode_signature oc) vs) vs"
      using ok d by (auto simp: chunk_ok_def resolved_def)
    then show ?thesis using emit_decodes [of oc vs code pre _ labels] code AEmit by simp
  next
    case (AJump oc l)
    then have br: "is_branch oc" using ok by (simp add: chunk_ok_def)
    show ?thesis
    proof (cases "ch_pending c")
      case True
      then obtain t where "get_at labels l = Some t" "t \<noteq> unbound" "-32768 \<le> int t - int (length pre)"
        "int t - int (length pre) \<le> 32767" "ch_bytes d = instruction_bytes oc Wide [int t - int (length pre)]"
        using d AJump by (auto simp: resolved_def)
      then show ?thesis
        using jump_decodes [OF br, of code pre Wide "int t - int (length pre)" "code_of ds @ post" labels l t]
          code AJump len by (simp add: width_range_def signed_kind_def)
    next
      case False
      then obtain t where "get_at labels l = Some t" "t \<le> length pre" "length pre \<le> 2 ^ 31"
        "ch_bytes c = jump_bytes oc (length pre) t" "d = c"
        using ok d AJump by (auto simp: chunk_ok_def resolved_def)
      then show ?thesis
        using jump_bytes_decodes [OF br, of code pre t "code_of ds @ post" labels l] code AJump by simp
    qed
  qed (use that in auto)
  show ?case
  proof (cases "ch_asm c")
    case (AEmit oc vs)
    then show ?thesis using instr rest by auto
  next
    case (AJump oc l)
    then show ?thesis using instr rest by auto
  next
    case (ABind l)
    then show ?thesis using ok rest by (simp add: chunk_ok_def)
  next
    case AMark
    then show ?thesis using ok rest by (simp add: chunk_ok_def)
  qed
qed simp

subsection \<open>The builder's invariant\<close>

definition marks :: "code_builder \<Rightarrow> nat list" where
  "marks b = take (cb_safe_point_count b) (cb_safe_points b)"

definition builder_inv :: "code_builder \<Rightarrow> chunk list \<Rightarrow> bool" where
  "builder_inv b cs \<longleftrightarrow>
     cb_length b \<le> length (cb_code b) \<and> length (cb_code b) \<le> 2 ^ 31 \<and>
     take (cb_length b) (cb_code b) = code_of cs \<and>
     chunks_ok (cb_labels b) (marks b) 0 cs \<and> list_all (labels_below (cb_label_count b)) cs \<and>
     cb_patch_count b \<le> length (cb_patches b) \<and>
     take (cb_patch_count b) (cb_patches b) = pending_patches 0 cs \<and>
     cb_label_count b \<le> length (cb_labels b) \<and>
     (\<forall>l < cb_label_count b. cb_labels b ! l = unbound \<or> cb_labels b ! l \<le> cb_length b) \<and>
     cb_safe_point_count b \<le> length (cb_safe_points b) \<and>
     sorted_wrt (<) (marks b) \<and> (\<forall>p \<in> set (marks b). p \<le> cb_length b)"

lemma builder_invD:
  assumes "builder_inv b cs"
  shows "cb_length b \<le> length (cb_code b)" "length (cb_code b) \<le> 2 ^ 31"
    "take (cb_length b) (cb_code b) = code_of cs" "chunks_ok (cb_labels b) (marks b) 0 cs"
    "list_all (labels_below (cb_label_count b)) cs" "cb_patch_count b \<le> length (cb_patches b)"
    "take (cb_patch_count b) (cb_patches b) = pending_patches 0 cs"
    "cb_label_count b \<le> length (cb_labels b)"
    "\<And>l. l < cb_label_count b \<Longrightarrow> cb_labels b ! l = unbound \<or> cb_labels b ! l \<le> cb_length b"
    "cb_safe_point_count b \<le> length (cb_safe_points b)" "sorted_wrt (<) (marks b)"
    "\<And>p. p \<in> set (marks b) \<Longrightarrow> p \<le> cb_length b"
  using assms unfolding builder_inv_def by blast+

lemma builder_inv_position: "builder_inv b cs \<Longrightarrow> length (code_of cs) = cb_length b"
  by (metis builder_inv_def length_take min.absorb2)

lemma builder_inv_patches: "builder_inv b cs \<Longrightarrow> cb_patch_count b \<le> length (cb_patches b)"
  by (simp add: builder_inv_def)

lemma builder_inv_append:
  assumes "builder_inv b cs" "ch_bytes c = bs" "chunk_ok (cb_labels b) (marks b) (cb_length b) c"
    "labels_below (cb_label_count b) c"
    "cb_length b + length bs \<le> length (cb_code b)"
    "cb_code b' = put_at (cb_code b) (cb_length b) bs" "cb_length b' = cb_length b + length bs"
    "cb_labels b' = cb_labels b" "cb_label_count b' = cb_label_count b"
    "cb_safe_points b' = cb_safe_points b" "cb_safe_point_count b' = cb_safe_point_count b"
    "cb_patch_count b' \<le> length (cb_patches b')"
    "take (cb_patch_count b') (cb_patches b') =
       take (cb_patch_count b) (cb_patches b) @ pending_patches (cb_length b) [c]"
  shows "builder_inv b' (cs @ [c])"
proof -
  note inv = assms(1) [unfolded builder_inv_def]
  have marks: "marks b' = marks b" using assms(10,11) by (simp add: marks_def)
  have "take (cb_length b') (cb_code b') = code_of (cs @ [c])"
    using inv take_put_at [OF assms(5)] assms(2,6,7) by simp
  moreover have "chunks_ok (cb_labels b') (marks b') 0 (cs @ [c])"
    using inv assms(3,8) marks by (simp add: chunks_ok_append builder_inv_position [OF assms(1)])
  moreover have "take (cb_patch_count b') (cb_patches b') = pending_patches 0 (cs @ [c])"
    using inv assms(13) by (simp add: pending_patches_append builder_inv_position [OF assms(1)])
  ultimately show ?thesis
    unfolding builder_inv_def marks using inv assms(4-12) by (auto intro: trans_le_add1)
qed

lemma emit_inv:
  assumes "builder_inv b cs" "emit_ok oc vs" "cb_error (emit b oc vs) = None"
  shows "cb_error b = None \<and>
    builder_inv (emit b oc vs)
      (cs @ [\<lparr>ch_asm = AEmit oc vs,
        ch_bytes = instruction_bytes oc (width_for (opcode_signature oc) vs) vs, ch_pending = False\<rparr>])"
proof -
  let ?bs = "instruction_bytes oc (width_for (opcode_signature oc) vs) vs"
  let ?b = "b\<lparr>cb_terminated := is_terminator oc\<rparr>"
  have none: "cb_error b = None" using assms(3) by (simp add: emit_def split: if_splits)
  have eq: "emit b oc vs = write_bytes ?b ?bs"
    using assms(2) by (intro emit_bytes [OF none]) (simp add: emit_ok_def)
  have "cb_length ?b \<le> length (cb_code ?b)" "\<not> cb_failed (write_bytes ?b ?bs)"
    using assms(1,3) by (simp_all add: builder_inv_def cb_failed_def eq)
  note w = write_bytes_ok [OF this]
  show ?thesis
    unfolding eq using w assms(2) none builder_inv_patches [OF assms(1)]
    by (intro conjI builder_inv_append [OF assms(1)]) (simp_all add: chunk_ok_def labels_below_def)
qed

lemma jump_backward_inv:
  assumes "builder_inv b cs" "is_branch oc" "l < cb_label_count b" "cb_error b = None"
    "cb_labels b ! l \<noteq> unbound" "cb_error (cb_jump b oc l) = None"
  shows "builder_inv (cb_jump b oc l)
    (cs @ [\<lparr>ch_asm = AJump oc l, ch_bytes = jump_bytes oc (cb_length b) (cb_labels b ! l),
      ch_pending = False\<rparr>])"
proof -
  let ?bs = "jump_bytes oc (cb_length b) (cb_labels b ! l)"
  let ?b = "b\<lparr>cb_terminated := is_terminator oc\<rparr>"
  have l: "get_at (cb_labels b) l = Some (cb_labels b ! l)" "cb_labels b ! l \<le> cb_length b"
    using assms(1,3,5) by (auto simp: builder_inv_def get_at_def)
  have eq: "cb_jump b oc l = write_bytes ?b ?bs"
    using assms(2,4,5) l
    by (simp add: cb_jump_def Let_def jump_bytes_def instruction_bytes_def encode_bytes)
  have "cb_length ?b \<le> length (cb_code ?b)" "\<not> cb_failed (write_bytes ?b ?bs)"
    using assms(1,6) by (simp_all add: builder_inv_def cb_failed_def eq)
  note w = write_bytes_ok [OF this]
  have "chunk_ok (cb_labels b) (marks b) (cb_length b)
      \<lparr>ch_asm = AJump oc l, ch_bytes = ?bs, ch_pending = False\<rparr>"
    using l assms(1,2) by (simp add: chunk_ok_def builder_inv_def)
  then show ?thesis
    unfolding eq using w assms(3) builder_inv_patches [OF assms(1)]
    by (intro builder_inv_append [OF assms(1)]) (simp_all add: labels_below_def)
qed

lemma jump_forward_inv:
  assumes "builder_inv b cs" "is_branch oc" "l < cb_label_count b" "cb_error b = None"
    "cb_labels b ! l = unbound" "cb_error (cb_jump b oc l) = None"
  shows "builder_inv (cb_jump b oc l)
    (cs @ [\<lparr>ch_asm = AJump oc l, ch_bytes = instruction_bytes oc Wide [0], ch_pending = True\<rparr>])"
proof -
  let ?bs = "instruction_bytes oc Wide [0]"
  let ?b = "b\<lparr>cb_terminated := is_terminator oc\<rparr>"
  define w where "w = write_bytes ?b ?bs"
  define v where "v = write_bytes ?b [prefix_wide, opcode_byte oc]"
  define p where "p = \<lparr>p_label = l, p_instruction = cb_length b, p_operand = cb_length v\<rparr>"
  have l: "get_at (cb_labels b) l = Some unbound"
    using assms(1,3,5) by (auto simp: builder_inv_def get_at_def)
  have eq: "cb_jump b oc l = add_patch w p"
    using assms(2,4) l unfolding w_def p_def v_def wide_jump_bytes
    by (simp add: cb_jump_def Let_def write_prefix_bytes write_byte_bytes write_operand_bytes
        write_bytes_append prefix_bytes_def)
  have "cb_error w = None" and room: "cb_patch_count w < length (cb_patches w)"
    using assms(6) by (auto simp: eq add_patch_def cb_fail_def split: if_splits)
  then have "cb_length ?b \<le> length (cb_code ?b)" "\<not> cb_failed (write_bytes ?b ?bs)"
    using assms(1) by (simp_all add: builder_inv_def cb_failed_def w_def)
  note ok = write_bytes_ok [OF this, folded w_def]
  have "w = write_bytes v (le_bytes 2 (as_u32 0))"
    by (simp add: w_def v_def write_bytes_append wide_jump_bytes)
  then have "\<not> cb_failed v"
    using \<open>cb_error w = None\<close> write_bytes_failed [of v "le_bytes 2 (as_u32 0)"]
    by (cases "cb_error v") (auto simp: cb_failed_def)
  then have v: "cb_length v = cb_length b + 2"
    using write_bytes_ok [of ?b "[prefix_wide, opcode_byte oc]"] assms(1)
    by (simp add: v_def builder_inv_def)
  have patches: "add_patch w p = w\<lparr>cb_patches := (cb_patches b)[cb_patch_count b := p],
      cb_patch_count := cb_patch_count b + 1\<rparr>"
    using room by (simp add: add_patch_def w_def)
  have "take (Suc (cb_patch_count b)) ((cb_patches b)[cb_patch_count b := p]) =
      take (cb_patch_count b) (cb_patches b) @ [p]"
    using room by (simp add: w_def take_Suc_conv_app_nth)
  moreover have "chunk_ok (cb_labels b) (marks b) (cb_length b)
      \<lparr>ch_asm = AJump oc l, ch_bytes = ?bs, ch_pending = True\<rparr>"
    using assms(2) by (simp add: chunk_ok_def)
  ultimately show ?thesis
    unfolding eq patches using ok assms(1,3) room v
    by (intro builder_inv_append [OF assms(1)]) (simp_all add: labels_below_def w_def p_def)
qed

lemma labels_extend_bind:
  "get_at labels l = Some unbound \<Longrightarrow> labels_extend n labels (labels[l := p])"
  unfolding labels_extend_def
proof (intro allI impI)
  fix k t assume free: "get_at labels l = Some unbound"
    and k: "k < n" "get_at labels k = Some t" "t \<le> 2 ^ 31"
  then have "k \<noteq> l" by auto
  then show "get_at (labels[l := p]) k = Some t" using k(2) by (simp add: get_at_def split: if_splits)
qed

lemma bind_inv:
  assumes "builder_inv b cs" "l < cb_label_count b" "cb_error (cb_bind b l) = None"
  shows "cb_error b = None \<and>
    builder_inv (cb_bind b l) (cs @ [\<lparr>ch_asm = ABind l, ch_bytes = [], ch_pending = False\<rparr>])"
proof -
  note inv = builder_invD [OF assms(1)]
  let ?labels = "(cb_labels b)[l := cb_length b]"
  have free: "get_at (cb_labels b) l = Some unbound" and none: "cb_error b = None"
    using assms(3) by (auto simp: cb_bind_def Let_def cb_fail_def split: if_splits)
  then have b: "cb_bind b l = b\<lparr>cb_terminated := False, cb_labels := ?labels\<rparr>"
    by (simp add: cb_bind_def Let_def)
  have len: "l < length (cb_labels b)" using free by (simp add: slice_simps)
  have small: "cb_length b \<le> 2 ^ 31" using inv(1,2) by linarith
  have "chunks_ok ?labels (marks b) 0 cs"
    using chunks_ok_mono [OF inv(4,5) labels_extend_bind [OF free]] by simp
  moreover have "get_at ?labels l = Some (cb_length b)" using len by (simp add: get_at_def)
  ultimately have ok: "chunks_ok ?labels (marks b) 0
      (cs @ [\<lparr>ch_asm = ABind l, ch_bytes = [], ch_pending = False\<rparr>])"
    using small by (simp add: chunks_ok_append chunk_ok_def builder_inv_position [OF assms(1)])
  have bound: "?labels ! k = unbound \<or> ?labels ! k \<le> cb_length b" if "k < cb_label_count b" for k
    using inv(9) [OF that] len by (cases "k = l") simp_all
  have marks: "marks (cb_bind b l) = marks b" by (simp add: b marks_def)
  show ?thesis
    unfolding builder_inv_def marks
    using none ok bound inv(1-3,5-8,10-12) assms(2)
    by (simp add: b labels_below_def pending_patches_append)
qed

lemma safe_point_inv:
  assumes "builder_inv b cs" "cb_error (cb_safe_point b) = None"
  shows "cb_error b = None \<and>
    builder_inv (cb_safe_point b) (cs @ [\<lparr>ch_asm = AMark, ch_bytes = [], ch_pending = False\<rparr>])"
proof -
  note inv = assms(1) [unfolded builder_inv_def]
  let ?n = "cb_safe_point_count b" and ?c = "\<lparr>ch_asm = AMark, ch_bytes = [], ch_pending = False\<rparr>"
  have none: "cb_error b = None"
    using assms(2) by (auto simp: cb_safe_point_def cb_fail_def split: if_splits)
  show ?thesis
  proof (cases "0 < ?n \<and> get_at (cb_safe_points b) (?n - 1) = Some (cb_length b)")
    case True
    then have b: "cb_safe_point b = b" by (simp add: cb_safe_point_def)
    have "cb_length b = marks b ! (?n - 1)" "?n - 1 < length (marks b)"
      using True inv by (auto simp: marks_def slice_simps)
    then have "cb_length b \<in> set (marks b)" by (metis nth_mem)
    then show ?thesis
      unfolding b using none inv assms(1)
      by (intro conjI builder_inv_append [OF assms(1)])
        (simp_all add: chunk_ok_def labels_below_def)
  next
    case False
    then have room: "?n < length (cb_safe_points b)"
      using assms(2) none by (auto simp: cb_safe_point_def cb_fail_def split: if_splits)
    have b: "cb_safe_point b = b\<lparr>cb_safe_points := (cb_safe_points b)[?n := cb_length b],
        cb_safe_point_count := ?n + 1\<rparr>"
      unfolding cb_safe_point_def if_not_P [OF False] using room by simp
    have marks: "marks (cb_safe_point b) = marks b @ [cb_length b]"
      using room by (simp add: b marks_def take_Suc_conv_app_nth)
    have "cb_length b \<notin> set (marks b)"
    proof
      assume "cb_length b \<in> set (marks b)"
      then obtain k where k: "k < ?n" "marks b ! k = cb_length b"
        using inv by (auto simp: in_set_conv_nth marks_def)
      have "k = ?n - 1"
      proof (rule ccontr)
        assume "k \<noteq> ?n - 1"
        then have "marks b ! k < marks b ! (?n - 1)"
          using inv k by (intro sorted_wrt_nth_less [of "(<)"]) (auto simp: marks_def)
        moreover have "marks b ! (?n - 1) \<in> set (marks b)"
          using inv k by (intro nth_mem) (auto simp: marks_def)
        ultimately show False using inv k(2) by fastforce
      qed
      then show False using False k room by (auto simp: marks_def get_at_def)
    qed
    then have srt: "sorted_wrt (<) (marks b @ [cb_length b])"
      using inv by (auto simp: sorted_wrt_append le_less)
    have ok: "chunks_ok (cb_labels b) (marks b @ [cb_length b]) 0 (cs @ [?c])"
      using inv by (auto simp: chunks_ok_append chunk_ok_def builder_inv_position [OF assms(1)] labels_extend_def
          intro: chunks_ok_mono)
    have "builder_inv (cb_safe_point b) (cs @ [?c])"
      unfolding builder_inv_def marks using inv ok srt room
      by (simp add: b labels_below_def pending_patches_append)
    then show ?thesis using none by simp
  qed
qed

lemma label_inv:
  assumes "builder_inv b cs" "cb_error (fst (cb_label b)) = None"
  shows "cb_error b = None \<and> builder_inv (fst (cb_label b)) cs"
proof -
  note inv = builder_invD [OF assms(1)]
  let ?n = "cb_label_count b"
  let ?labels = "(cb_labels b)[?n := unbound]"
  have room: "?n < length (cb_labels b)" and none: "cb_error b = None"
    using assms(2) by (auto simp: cb_label_def cb_fail_def split: if_splits)
  then have b: "fst (cb_label b) = b\<lparr>cb_labels := ?labels, cb_label_count := ?n + 1\<rparr>"
    by (simp add: cb_label_def)
  have "labels_extend ?n (cb_labels b) ?labels" by (simp add: labels_extend_def get_at_def)
  then have ok: "chunks_ok ?labels (marks b) 0 cs" using chunks_ok_mono [OF inv(4,5)] by simp
  have below: "list_all (labels_below (?n + 1)) cs"
    using inv(5) by (auto simp: list_all_iff labels_below_def split: asm.splits)
  have bound: "?labels ! k = unbound \<or> ?labels ! k \<le> cb_length b" if "k < ?n + 1" for k
    using inv(9) [of k] that room by (cases "k = ?n") simp_all
  have marks: "marks (fst (cb_label b)) = marks b" by (simp add: b marks_def)
  show ?thesis
    unfolding builder_inv_def marks using none ok below bound room inv(1-3,6,7,10-12) by (simp add: b)
qed

lemma build_step_inv:
  assumes "builder_inv b cs" "asm_ok b a" "cb_error b = None" "cb_error (build_step b a) = None"
  shows "\<exists>c. ch_asm c = a \<and> builder_inv (build_step b a) (cs @ [c])"
proof (cases a)
  case (AEmit oc vs)
  then show ?thesis using emit_inv [OF assms(1)] assms(2,4)
    by (intro exI) (auto simp: build_step_def asm_ok_def)
next
  case (AJump oc l)
  then show ?thesis
    using jump_backward_inv [OF assms(1)] jump_forward_inv [OF assms(1)] assms(2-4)
    by (cases "cb_labels b ! l = unbound") (force simp: build_step_def asm_ok_def)+
next
  case (ABind l)
  then show ?thesis using bind_inv [OF assms(1)] assms(2,4)
    by (intro exI) (auto simp: build_step_def asm_ok_def)
next
  case AMark
  then show ?thesis using safe_point_inv [OF assms(1)] assms(4)
    by (intro exI) (auto simp: build_step_def)
qed

lemma build_step_error: "cb_error (build_step b a) = None \<Longrightarrow> cb_error b = None"
  by (cases a)
    (auto simp: build_step_def emit_def cb_jump_def cb_bind_def cb_safe_point_def cb_fail_def Let_def
      split: if_splits)

lemma builds_inv:
  assumes "builds b as" "cb_error b = None"
  shows "\<exists>cs. builder_inv b cs \<and> map ch_asm cs = as"
  using assms
proof (induction rule: builds.induct)
  case (builds_new code sps patches labels)
  then show ?case
    by (intro exI [of _ "[]"]) (simp add: builder_inv_def cb_new_def marks_def)
next
  case (builds_label b as)
  have "cb_error b = None"
    using builds_label.prems by (auto simp: cb_label_def cb_fail_def split: if_splits)
  with builds_label.IH obtain cs where cs: "builder_inv b cs" "map ch_asm cs = as" by blast
  then show ?case using label_inv [OF cs(1) builds_label.prems] by blast
next
  case (builds_step b as a)
  have none: "cb_error b = None" using build_step_error [OF builds_step.prems] .
  with builds_step.IH obtain cs where cs: "builder_inv b cs" "map ch_asm cs = as" by blast
  from build_step_inv [OF cs(1) builds_step.hyps(2) none builds_step.prems] obtain c where
    "ch_asm c = a" "builder_inv (build_step b a) (cs @ [c])" by blast
  then show ?case using cs(2) by (intro exI [of _ "cs @ [c]"]) simp
qed

lemma finish_assembled:
  assumes "builder_inv b cs" "finish b = Inr (code, n)"
  shows "assembled code (cb_labels b) (marks b) 0 (map ch_asm cs) n"
proof -
  note inv = builder_invD [OF assms(1)]
  have n: "n = cb_length b" and
    res: "resolve (cb_labels b) (take (cb_patch_count b) (cb_patches b)) (cb_code b) = Inr code"
    using assms(2) by (auto simp: finish_def and_then_Inr split: option.splits)
  have "cb_code b = code_of cs @ drop (cb_length b) (cb_code b)"
    using inv(3) by (metis append_take_drop_id)
  then have "resolve (cb_labels b) (pending_patches (length []) cs)
      ([] @ code_of cs @ drop (cb_length b) (cb_code b)) = Inr code"
    using res inv(7) by simp
  from resolve_chunks [OF this] inv(4) obtain cs' where
    "all_resolved (cb_labels b) 0 cs cs'" "code = code_of cs' @ drop (cb_length b) (cb_code b)"
    by auto
  then show ?thesis
    using resolved_assembled [of "cb_labels b" "marks b" "[]" cs cs' code] inv(4)
      builder_inv_position [OF assms(1)] n by simp
qed

subsection \<open>Properties\<close>

text \<open>
  C6: the builder assembles what its client asked for. After any sequence of emitted instructions,
  jumps, label bindings and safe points, if \<open>finish\<close> succeeds then the code decodes, from its
  first byte to its last, to exactly the instructions asked for with their operands; every jump,
  forward or backward, goes to the position where its label was bound; and every mark is a safe
  point, the safe points being in strictly ascending order.
\<close>

theorem builder_assembles:
  assumes "builds b as" "finish b = Inr (code, n)"
  shows "assembled code (cb_labels b) (safe_points b) 0 as n \<and> sorted_wrt (<) (safe_points b)"
proof -
  have "cb_error b = None" using assms(2) by (auto simp: finish_def split: option.splits)
  with builds_inv [OF assms(1)] obtain cs where cs: "builder_inv b cs" "map ch_asm cs = as" by blast
  have "safe_points b = marks b"
    using builder_invD(10) [OF cs(1)] by (simp add: safe_points_def subrange_def marks_def)
  then show ?thesis using finish_assembled [OF cs(1) assms(2)] builder_invD(11) [OF cs(1)] cs(2) by simp
qed

definition sample_asm :: "asm list" where
  "sample_asm = [AMark, AJump Op_JumpIfToBooleanFalse 0, AEmit Op_Star [300], ABind 0, AEmit Op_Return []]"

definition sample_builder :: code_builder where
  "sample_builder =
     foldl build_step (fst (cb_label (cb_new (replicate 16 0) [0, 0] [patch_empty] [0]))) sample_asm"

lemma sample_builds: "builds sample_builder sample_asm"
proof -
  let ?b0 = "fst (cb_label (cb_new (replicate 16 0) [0, 0] [patch_empty] [0]))"
  have b0: "builds ?b0 []" by (intro builds_label builds_new) simp
  have 1: "builds (build_step ?b0 AMark) [AMark]"
    using builds_step [OF b0, of AMark] by (simp add: asm_ok_def)
  have 2: "builds (foldl build_step ?b0 (take 2 sample_asm)) (take 2 sample_asm)"
    using builds_step [OF 1, of "AJump Op_JumpIfToBooleanFalse 0"]
    by (simp add: asm_ok_def sample_asm_def is_branch_def build_step_def cb_safe_point_def cb_label_def cb_new_def)
  have ok: "asm_ok (foldl build_step ?b0 (take 2 sample_asm)) (AEmit Op_Star [300])"
    "asm_ok (foldl build_step ?b0 (take 3 sample_asm)) (ABind 0)"
    "asm_ok (foldl build_step ?b0 (take 4 sample_asm)) (AEmit Op_Return [])"
    by code_simp+
  have 3: "builds (foldl build_step ?b0 (take 3 sample_asm)) (take 3 sample_asm)"
    using builds_step [OF 2 ok(1)] by (simp add: sample_asm_def)
  have 4: "builds (foldl build_step ?b0 (take 4 sample_asm)) (take 4 sample_asm)"
    using builds_step [OF 3 ok(2)] by (simp add: sample_asm_def)
  show ?thesis
    using builds_step [OF 4 ok(3)] by (simp add: sample_asm_def sample_builder_def)
qed

theorem builder_assembles_witness:
  "assembled [0xFE, 0x94, 8, 0, 0xFE, 0x11, 0x2C, 1, 0x97, 0, 0, 0, 0, 0, 0, 0] (cb_labels sample_builder)
     (safe_points sample_builder) 0 sample_asm 9 \<and> sorted_wrt (<) (safe_points sample_builder)"
proof -
  have "finish sample_builder = Inr ([0xFE, 0x94, 8, 0, 0xFE, 0x11, 0x2C, 1, 0x97, 0, 0, 0, 0, 0, 0, 0], 9)"
    by code_simp
  from builder_assembles [OF sample_builds this] show ?thesis .
qed

end
