(* ===== verification/Big_Int.thy ===== *)
theory Big_Int
  imports Phasor_Prelude
begin

text \<open>
  The big integers of \<^verbatim>\<open>modules/common/bigint.rs\<close>. A \<open>Number\<close> there is a sign, an array of
  \<open>WORK_LIMBS\<close> limbs and a length; here it is the sign and the list of the limbs below the length,
  least significant first, since no operation reads a limb at or past the length except one that
  was never written and is still zero. \<open>WORK_LIMBS\<close> bounds every growth, as in the source. A limb
  is a 32-bit word; the 64-bit intermediate values are naturals with the wrap written out.

  The conversions from and to \<open>f64\<close> rest on the floating-point unit and are not modelled here.
\<close>

unbundle bit_operations_syntax

subsection \<open>Numbers\<close>

type_synonym limb = "32 word"

abbreviation base32 :: nat where "base32 \<equiv> 4294967296"

definition max_limbs :: nat where "max_limbs = 128"
definition work_limbs :: nat where "work_limbs = max_limbs + 2"

datatype bigint_error = TooLarge | DivisionByZero | NegativeExponent | Malformed

datatype ordering = OLess | OEqual | OGreater

record number =
  n_negative :: bool
  n_limbs :: "limb list"

definition wrap64 :: "nat \<Rightarrow> nat" where
  "wrap64 x = x mod 18446744073709551616"

definition num_zero :: number where
  "num_zero = \<lparr>n_negative = False, n_limbs = []\<rparr>"

definition num_is_zero :: "number \<Rightarrow> bool" where
  "num_is_zero n \<longleftrightarrow> n_limbs n = []"

definition trim_limbs :: "limb list \<Rightarrow> limb list" where
  "trim_limbs xs = rev (dropWhile (\<lambda>x. x = 0) (rev xs))"

definition num_trim :: "number \<Rightarrow> number" where
  "num_trim n =
     (let limbs = trim_limbs (n_limbs n) in
      \<lparr>n_negative = (n_negative n \<and> limbs \<noteq> []), n_limbs = limbs\<rparr>)"

definition num_push :: "number \<Rightarrow> limb \<Rightarrow> bigint_error + number" where
  "num_push n limb =
     (if work_limbs \<le> length (n_limbs n) then Inl TooLarge
      else Inr (n\<lparr>n_limbs := n_limbs n @ [limb]\<rparr>))"

definition num_limb :: "number \<Rightarrow> nat \<Rightarrow> limb" where
  "num_limb n index = (if index < length (n_limbs n) then n_limbs n ! index else 0)"

definition to_i64 :: "number \<Rightarrow> int option" where
  "to_i64 n =
     (if 2 < length (n_limbs n) then None
      else
        (let magnitude = unat (num_limb n 0) + unat (num_limb n 1) * base32 in
         if n_negative n then
           (if 9223372036854775808 < magnitude then None else Some (- int magnitude))
         else
           (if 9223372036854775807 < magnitude then None else Some (int magnitude))))"

subsection \<open>Small operands\<close>

text \<open>Limbs pushed while a carry is left, with \<open>room\<close> limbs to spare.\<close>

function push_carry :: "nat \<Rightarrow> nat \<Rightarrow> bigint_error + limb list" where
  "push_carry room carry =
     (if carry = 0 then Inr []
      else if room = 0 then Inl TooLarge
      else and_then (push_carry (room - 1) (carry div base32)) (\<lambda>rest. Inr (of_nat carry # rest)))"
  by pat_completeness auto
termination by (relation "measure snd") auto

declare push_carry.simps [simp del]

fun multiply_small_limbs :: "nat \<Rightarrow> limb list \<Rightarrow> nat \<Rightarrow> nat \<Rightarrow> bigint_error + limb list" where
  "multiply_small_limbs room [] factor carry = push_carry room carry"
| "multiply_small_limbs room (x # xs) factor carry =
     (let product = wrap64 (unat x * factor + carry) in
      and_then (multiply_small_limbs room xs factor (product div base32)) (\<lambda>rest.
        Inr (of_nat product # rest)))"

definition multiply_small :: "number \<Rightarrow> limb \<Rightarrow> bigint_error + number" where
  "multiply_small n factor =
     and_then (multiply_small_limbs (work_limbs - length (n_limbs n)) (n_limbs n) (unat factor) 0)
       (\<lambda>limbs. Inr (n\<lparr>n_limbs := limbs\<rparr>))"

fun add_small_limbs :: "nat \<Rightarrow> limb list \<Rightarrow> nat \<Rightarrow> bigint_error + limb list" where
  "add_small_limbs room [] carry = push_carry room carry"
| "add_small_limbs room (x # xs) carry =
     (if carry = 0 then Inr (x # xs)
      else
        (let sum = wrap64 (unat x + carry) in
         and_then (add_small_limbs room xs (sum div base32)) (\<lambda>rest. Inr (of_nat sum # rest))))"

definition add_small :: "number \<Rightarrow> limb \<Rightarrow> bigint_error + number" where
  "add_small n addend =
     and_then (add_small_limbs (work_limbs - length (n_limbs n)) (n_limbs n) (unat addend))
       (\<lambda>limbs. Inr (n\<lparr>n_limbs := limbs\<rparr>))"

text \<open>One limb of a division, a bit at a time from the top: \<open>bits\<close> is how many are left.\<close>

fun divide_bits :: "nat \<Rightarrow> limb \<Rightarrow> limb \<Rightarrow> limb \<Rightarrow> limb \<Rightarrow> limb \<times> limb" where
  "divide_bits 0 limb divisor rest quot = (quot, rest)"
| "divide_bits (Suc k) limb divisor rest quot =
     (let carry = drop_bit k limb AND 1;
          overflowed = (drop_bit 31 rest = 1);
          doubled = push_bit 1 rest OR carry
      in if overflowed \<or> divisor \<le> doubled
         then divide_bits k limb divisor (doubled - divisor) (quot OR push_bit k 1)
         else divide_bits k limb divisor doubled quot)"

definition divide_step :: "limb \<Rightarrow> limb \<Rightarrow> limb \<Rightarrow> limb \<times> limb" where
  "divide_step remainder limb divisor = divide_bits 32 limb divisor remainder 0"

text \<open>The limbs from the top, each replaced by its quot.\<close>

fun divide_limbs :: "limb list \<Rightarrow> limb \<Rightarrow> limb \<Rightarrow> limb list \<times> limb" where
  "divide_limbs [] divisor remainder = ([], remainder)"
| "divide_limbs (x # xs) divisor remainder =
     (let (quot, next) = divide_step remainder x divisor;
          (rest, final) = divide_limbs xs divisor next
      in (quot # rest, final))"

definition divide_small :: "number \<Rightarrow> limb \<Rightarrow> number \<times> limb" where
  "divide_small n divisor =
     (if divisor = 0 then (n, 0)
      else
        (let (limbs, remainder) = divide_limbs (rev (n_limbs n)) divisor 0 in
         (num_trim (n\<lparr>n_limbs := rev limbs\<rparr>), remainder)))"

subsection \<open>Comparison, sums and differences\<close>

fun compare_from_top :: "limb list \<Rightarrow> limb list \<Rightarrow> ordering" where
  "compare_from_top (x # xs) (y # ys) =
     (if x \<noteq> y then (if x < y then OLess else OGreater) else compare_from_top xs ys)"
| "compare_from_top _ _ = OEqual"

definition compare_magnitude :: "number \<Rightarrow> number \<Rightarrow> ordering" where
  "compare_magnitude left right =
     (if length (n_limbs left) \<noteq> length (n_limbs right)
      then (if length (n_limbs left) < length (n_limbs right) then OLess else OGreater)
      else compare_from_top (rev (n_limbs left)) (rev (n_limbs right)))"

definition num_compare :: "number \<Rightarrow> number \<Rightarrow> ordering" where
  "num_compare left right =
     (case (n_negative left, n_negative right) of
        (False, True) \<Rightarrow> OGreater
      | (True, False) \<Rightarrow> OLess
      | (False, False) \<Rightarrow> compare_magnitude left right
      | (True, True) \<Rightarrow> compare_magnitude right left)"

fun first_limb :: "limb list \<Rightarrow> limb" where
  "first_limb [] = 0"
| "first_limb (x # xs) = x"

text \<open>The sum's limbs, pushed while either list or a carry is left; \<open>room\<close> limbs remain.\<close>

fun add_limbs :: "nat \<Rightarrow> limb list \<Rightarrow> limb list \<Rightarrow> nat \<Rightarrow> bigint_error + limb list" where
  "add_limbs room xs ys carry =
     (if xs = [] \<and> ys = [] \<and> carry = 0 then Inr []
      else
        (let sum = wrap64 (unat (first_limb xs) + unat (first_limb ys) + carry) in
         case room of
           0 \<Rightarrow> Inl TooLarge
         | Suc room \<Rightarrow>
             and_then (add_limbs room (tl xs) (tl ys) (sum div base32)) (\<lambda>rest.
               Inr (of_nat sum # rest))))"

declare add_limbs.simps [simp del]

definition add_magnitude :: "number \<Rightarrow> number \<Rightarrow> bigint_error + number" where
  "add_magnitude left right =
     and_then (add_limbs work_limbs (n_limbs left) (n_limbs right) 0) (\<lambda>limbs.
       Inr (num_trim \<lparr>n_negative = False, n_limbs = limbs\<rparr>))"

fun subtract_limbs :: "limb list \<Rightarrow> limb list \<Rightarrow> int \<Rightarrow> limb list" where
  "subtract_limbs [] ys borrow = []"
| "subtract_limbs (x # xs) ys borrow =
     (let difference = int (unat x) - int (unat (first_limb ys)) - borrow in
      if difference < 0
      then word_of_int (difference + 2 ^ 32) # subtract_limbs xs (tl ys) 1
      else word_of_int difference # subtract_limbs xs (tl ys) 0)"

definition subtract_magnitude :: "number \<Rightarrow> number \<Rightarrow> number" where
  "subtract_magnitude left right =
     num_trim \<lparr>n_negative = False, n_limbs = subtract_limbs (n_limbs left) (n_limbs right) 0\<rparr>"

definition num_add :: "number \<Rightarrow> number \<Rightarrow> bigint_error + number" where
  "num_add left right =
     (if n_negative left = n_negative right then
        and_then (add_magnitude left right) (\<lambda>result.
          Inr (num_trim (result\<lparr>n_negative := n_negative left\<rparr>)))
      else
        (case compare_magnitude left right of
           OEqual \<Rightarrow> Inr num_zero
         | OGreater \<Rightarrow>
             Inr (num_trim ((subtract_magnitude left right)\<lparr>n_negative := n_negative left\<rparr>))
         | OLess \<Rightarrow>
             Inr (num_trim ((subtract_magnitude right left)\<lparr>n_negative := n_negative right\<rparr>))))"

definition num_negate :: "number \<Rightarrow> number" where
  "num_negate n = (if num_is_zero n then n else n\<lparr>n_negative := \<not> n_negative n\<rparr>)"

definition num_subtract :: "number \<Rightarrow> number \<Rightarrow> bigint_error + number" where
  "num_subtract left right = num_add left (num_negate right)"

subsection \<open>Products\<close>

fun propagate :: "limb list \<Rightarrow> nat \<Rightarrow> bigint_error + limb list" where
  "propagate [] carry = (if carry = 0 then Inr [] else Inl TooLarge)"
| "propagate (r # rs) carry =
     (if carry = 0 then Inr (r # rs)
      else
        (let sum = wrap64 (unat r + carry) in
         and_then (propagate rs (sum div base32)) (\<lambda>rest. Inr (of_nat sum # rest))))"

text \<open>One limb of the left operand times the right, added into the result from its place on.\<close>

fun multiply_row :: "limb \<Rightarrow> limb list \<Rightarrow> limb list \<Rightarrow> nat \<Rightarrow> bigint_error + limb list" where
  "multiply_row a [] rs carry = propagate rs carry"
| "multiply_row a (b # bs) [] carry = Inl TooLarge"
| "multiply_row a (b # bs) (r # rs) carry =
     (let product = wrap64 (unat a * unat b + unat r + carry) in
      and_then (multiply_row a bs rs (product div base32)) (\<lambda>rest. Inr (of_nat product # rest)))"

fun multiply_rows :: "limb list \<Rightarrow> limb list \<Rightarrow> limb list \<Rightarrow> bigint_error + limb list" where
  "multiply_rows [] bs rs = Inr rs"
| "multiply_rows (a # as) bs rs =
     and_then (multiply_row a bs rs 0) (\<lambda>rs.
       case rs of
         [] \<Rightarrow> Inr []
       | r # rs \<Rightarrow> and_then (multiply_rows as bs rs) (\<lambda>rest. Inr (r # rest)))"

definition num_multiply :: "number \<Rightarrow> number \<Rightarrow> bigint_error + number" where
  "num_multiply left right =
     (if num_is_zero left \<or> num_is_zero right then Inr num_zero
      else
        (let n = length (n_limbs left) + length (n_limbs right) in
         if work_limbs < n then Inl TooLarge
         else
           and_then (multiply_rows (n_limbs left) (n_limbs right) (replicate work_limbs 0)) (\<lambda>limbs.
             Inr (num_trim \<lparr>n_negative = (n_negative left \<noteq> n_negative right), n_limbs = take n limbs\<rparr>))))"

subsection \<open>Division\<close>

text \<open>\<open>shift_left_one\<close>: the limbs doubled, and a last carry pushed.\<close>

fun shift_limbs :: "nat \<Rightarrow> limb list \<Rightarrow> limb \<Rightarrow> bigint_error + limb list" where
  "shift_limbs room [] carry =
     (if carry = 0 then Inr [] else if room = 0 then Inl TooLarge else Inr [carry])"
| "shift_limbs room (x # xs) carry =
     and_then (shift_limbs room xs (drop_bit 31 x)) (\<lambda>rest. Inr ((push_bit 1 x OR carry) # rest))"

definition shift_left_one :: "number \<Rightarrow> bigint_error + number" where
  "shift_left_one n =
     and_then (shift_limbs (work_limbs - length (n_limbs n)) (n_limbs n) 0) (\<lambda>limbs.
       Inr (n\<lparr>n_limbs := limbs\<rparr>))"

definition set_low_bit :: "number \<Rightarrow> number" where
  "set_low_bit n = n\<lparr>n_limbs := (case n_limbs n of [] \<Rightarrow> [1] | x # xs \<Rightarrow> (x OR 1) # xs)\<rparr>"

text \<open>Long division, one bit at a time: \<open>bits\<close> bits of the left operand are still to come.\<close>

fun long_divide ::
  "nat \<Rightarrow> number \<Rightarrow> number \<Rightarrow> limb list \<Rightarrow> number \<Rightarrow> bigint_error + limb list \<times> number" where
  "long_divide 0 left right quot remainder = Inr (quot, remainder)"
| "long_divide (Suc k) left right quot remainder =
     and_then (shift_left_one remainder) (\<lambda>remainder.
       let limb = k div 32; offset = k mod 32;
           remainder = (if drop_bit offset (num_limb left limb) AND 1 = 1
                        then set_low_bit remainder else remainder);
           magnitude = right\<lparr>n_negative := False\<rparr>
       in if compare_magnitude remainder magnitude \<noteq> OLess
          then long_divide k left right (quot[limb := quot ! limb OR push_bit offset 1])
                 (subtract_magnitude remainder magnitude)
          else long_divide k left right quot remainder)"

definition num_divide :: "number \<Rightarrow> number \<Rightarrow> bigint_error + number \<times> number" where
  "num_divide left right =
     (if num_is_zero right then Inl DivisionByZero
      else if compare_magnitude left right = OLess
      then Inr (num_zero, left\<lparr>n_negative := n_negative left \<and> \<not> num_is_zero left\<rparr>)
      else if length (n_limbs right) = 1 \<and> n_limbs right ! 0 \<noteq> 0 then
        (let (quot, limb) = divide_small (left\<lparr>n_negative := False\<rparr>) (n_limbs right ! 0);
             quot = quot\<lparr>n_negative := (n_negative left \<noteq> n_negative right) \<and> \<not> num_is_zero quot\<rparr>;
             remainder = (if limb \<noteq> 0 then \<lparr>n_negative = n_negative left, n_limbs = [limb]\<rparr> else num_zero)
         in Inr (quot, remainder))
      else
        and_then (long_divide (length (n_limbs left) * 32) left right
                    (replicate (length (n_limbs left)) 0) num_zero)
          (\<lambda>(quot, remainder).
             Inr (num_trim \<lparr>n_negative = (n_negative left \<noteq> n_negative right) \<and> quot \<noteq> [], n_limbs = quot\<rparr>,
                  num_trim (remainder\<lparr>n_negative := n_negative left \<and> \<not> num_is_zero remainder\<rparr>))))"

subsection \<open>Powers and shifts\<close>

definition num_one :: number where
  "num_one = \<lparr>n_negative = False, n_limbs = [1]\<rparr>"

definition num_two :: number where
  "num_two = \<lparr>n_negative = False, n_limbs = [2]\<rparr>"

fun power_loop :: "nat \<Rightarrow> number \<Rightarrow> number \<Rightarrow> bigint_error + number" where
  "power_loop 0 result base = Inr result"
| "power_loop (Suc turns) result base =
     and_then (num_multiply result base) (\<lambda>result. power_loop turns result base)"

definition num_power :: "number \<Rightarrow> number \<Rightarrow> bigint_error + number" where
  "num_power base exponent =
     (if n_negative exponent then Inl NegativeExponent
      else
        (case to_i64 exponent of
           None \<Rightarrow> Inl TooLarge
         | Some turns \<Rightarrow> power_loop (nat turns) num_one base))"

fun shift_left_loop :: "nat \<Rightarrow> number \<Rightarrow> bigint_error + number" where
  "shift_left_loop 0 n = Inr n"
| "shift_left_loop (Suc turns) n = and_then (shift_left_one n) (shift_left_loop turns)"

definition num_shift_left :: "number \<Rightarrow> nat \<Rightarrow> bigint_error + number" where
  "num_shift_left n turns = and_then (shift_left_loop turns n) (\<lambda>n. Inr (num_trim n))"

fun shift_right_loop :: "nat \<Rightarrow> bool \<Rightarrow> number \<Rightarrow> bigint_error + number" where
  "shift_right_loop 0 negative n = Inr n"
| "shift_right_loop (Suc turns) negative n =
     (if num_is_zero n then Inr n
      else
        and_then (num_divide n num_two) (\<lambda>(quot, remainder).
        and_then (if negative \<and> \<not> num_is_zero remainder then num_subtract quot num_one else Inr quot)
          (shift_right_loop turns negative)))"

definition num_shift_right :: "number \<Rightarrow> nat \<Rightarrow> bigint_error + number" where
  "num_shift_right n turns =
     and_then (shift_right_loop turns (n_negative n) n) (\<lambda>result.
       if n_negative n \<and> num_is_zero result then Inr (num_one\<lparr>n_negative := True\<rparr>) else Inr result)"

subsection \<open>Numerals\<close>

record accumulator =
  acc_value :: number
  acc_radix :: nat
  acc_digits :: nat

definition acc_new :: "nat \<Rightarrow> accumulator" where
  "acc_new radix = \<lparr>acc_value = num_zero, acc_radix = radix, acc_digits = 0\<rparr>"

definition digit_value :: "byte \<Rightarrow> nat option" where
  "digit_value b =
     (let n = unat b in
      if 48 \<le> n \<and> n \<le> 57 then Some (n - 48)
      else if 97 \<le> n \<and> n \<le> 122 then Some (n - 97 + 10)
      else if 65 \<le> n \<and> n \<le> 90 then Some (n - 65 + 10)
      else None)"

definition acc_push :: "accumulator \<Rightarrow> byte \<Rightarrow> bigint_error + accumulator" where
  "acc_push acc b =
     (if \<not> (2 \<le> acc_radix acc \<and> acc_radix acc \<le> 36) then Inl Malformed
      else if b = 95 then Inr acc
      else
        (case digit_value b of
           None \<Rightarrow> Inl Malformed
         | Some digit \<Rightarrow>
             if acc_radix acc \<le> digit then Inl Malformed
             else
               and_then (multiply_small (acc_value acc) (of_nat (acc_radix acc))) (\<lambda>v.
               and_then (add_small v (of_nat digit)) (\<lambda>v.
                 Inr (acc\<lparr>acc_value := v, acc_digits := acc_digits acc + 1\<rparr>)))))"

definition acc_finish :: "accumulator \<Rightarrow> number" where
  "acc_finish acc = num_trim (acc_value acc)"

definition acc_finish_signed :: "accumulator \<Rightarrow> bool \<Rightarrow> number" where
  "acc_finish_signed acc negative =
     acc_finish (acc\<lparr>acc_value := (acc_value acc)\<lparr>n_negative := negative \<and> \<not> num_is_zero (acc_value acc)\<rparr>\<rparr>)"

fun acc_push_all :: "accumulator \<Rightarrow> byte list \<Rightarrow> bigint_error + accumulator" where
  "acc_push_all acc [] = Inr acc"
| "acc_push_all acc (b # bs) = and_then (acc_push acc b) (\<lambda>acc. acc_push_all acc bs)"

definition from_digits :: "byte list \<Rightarrow> nat \<Rightarrow> bool \<Rightarrow> bigint_error + number" where
  "from_digits digits radix negative =
     (if \<not> (2 \<le> radix \<and> radix \<le> 36) then Inl Malformed
      else and_then (acc_push_all (acc_new radix) digits) (\<lambda>acc. Inr (acc_finish_signed acc negative)))"

record text_from_end =
  t_magnitude :: number
  t_radix :: nat
  t_negative :: bool
  t_remaining :: nat

text \<open>
  The digit count. The source divides until nothing is left; \<open>fuel\<close> is one more than the bits of
  the value, which is enough for every radix from two on (lemma \<open>count_digits_fuel\<close>).
\<close>

fun count_digits :: "nat \<Rightarrow> number \<Rightarrow> nat \<Rightarrow> nat option" where
  "count_digits 0 n radix = None"
| "count_digits (Suc fuel) n radix =
     (if num_is_zero n then Some 0
      else map_option Suc (count_digits fuel (fst (divide_small n (of_nat radix))) radix))"

definition text_new :: "number \<Rightarrow> nat \<Rightarrow> text_from_end option" where
  "text_new n radix =
     (let magnitude = n\<lparr>n_negative := False\<rparr> in
      map_option (\<lambda>digits.
          \<lparr>t_magnitude = magnitude, t_radix = radix, t_negative = n_negative n \<and> \<not> num_is_zero n,
           t_remaining = (if num_is_zero magnitude then 1 else digits)\<rparr>)
        (count_digits (length (n_limbs n) * 32 + 1) magnitude radix))"

definition text_length :: "text_from_end \<Rightarrow> nat" where
  "text_length t = t_remaining t + (if t_negative t then 1 else 0)"

definition digit_char :: "nat \<Rightarrow> byte" where
  "digit_char d = (if d < 10 then of_nat (48 + d) else of_nat (97 + d - 10))"

definition next_char :: "text_from_end \<Rightarrow> byte \<times> text_from_end" where
  "next_char t =
     (if t_remaining t = 0 then (if t_negative t then 45 else 48, t)
      else
        (let (magnitude, digit) = divide_small (t_magnitude t) (of_nat (t_radix t)) in
         (digit_char (unat digit), t\<lparr>t_magnitude := magnitude, t_remaining := t_remaining t - 1\<rparr>)))"

text \<open>
  The text of a number as the interpreter asks for it: \<open>big_int_text\<close> fills a string of \<open>length\<close>
  characters from its end, one \<open>next_char\<close> each.
\<close>

fun chars_from_end :: "nat \<Rightarrow> text_from_end \<Rightarrow> byte list" where
  "chars_from_end 0 t = []"
| "chars_from_end (Suc n) t = (let (c, t) = next_char t in chars_from_end n t @ [c])"

definition number_text :: "number \<Rightarrow> nat \<Rightarrow> byte list option" where
  "number_text n radix = map_option (\<lambda>t. chars_from_end (text_length t) t) (text_new n radix)"

subsection \<open>Bitwise operations\<close>

datatype bitwise_op = BitAnd | BitOr | BitXor

definition twos_complement_limb :: "number \<Rightarrow> nat \<Rightarrow> nat \<Rightarrow> limb \<times> nat" where
  "twos_complement_limb n index borrow =
     (let limb = num_limb n index in
      if \<not> n_negative n then (limb, borrow)
      else
        (let sum = unat (NOT limb) + borrow in (of_nat sum, sum div base32)))"

fun bitwise_combine :: "bitwise_op \<Rightarrow> limb \<Rightarrow> limb \<Rightarrow> limb" where
  "bitwise_combine BitAnd a b = a AND b"
| "bitwise_combine BitOr a b = a OR b"
| "bitwise_combine BitXor a b = a XOR b"

fun bitwise_sign :: "bitwise_op \<Rightarrow> bool \<Rightarrow> bool \<Rightarrow> bool" where
  "bitwise_sign BitAnd a b \<longleftrightarrow> a \<and> b"
| "bitwise_sign BitOr a b \<longleftrightarrow> a \<or> b"
| "bitwise_sign BitXor a b \<longleftrightarrow> a \<noteq> b"

text \<open>The limb loop: \<open>n\<close> limbs from \<open>index\<close>, with the three carries threaded through.\<close>

fun bitwise_limbs ::
  "bitwise_op \<Rightarrow> number \<Rightarrow> number \<Rightarrow> bool \<Rightarrow> nat \<Rightarrow> nat \<Rightarrow> nat \<Rightarrow> nat \<Rightarrow> nat \<Rightarrow> limb list" where
  "bitwise_limbs oper left right negative 0 index lb rb carry = []"
| "bitwise_limbs oper left right negative (Suc n) index lb rb carry =
     (let (l, lb) = twos_complement_limb left index lb;
          (r, rb) = twos_complement_limb right index rb;
          combined = bitwise_combine oper l r
      in if negative then
           (let sum = unat (NOT combined) + carry in
            of_nat sum # bitwise_limbs oper left right negative n (index + 1) lb rb (sum div base32))
         else combined # bitwise_limbs oper left right negative n (index + 1) lb rb carry)"

definition num_bitwise :: "bitwise_op \<Rightarrow> number \<Rightarrow> number \<Rightarrow> bigint_error + number" where
  "num_bitwise oper left right =
     (let n = max (length (n_limbs left)) (length (n_limbs right)) + 1;
          negative = bitwise_sign oper (n_negative left) (n_negative right)
      in if work_limbs < n then Inl TooLarge
         else Inr (num_trim \<lparr>n_negative = negative,
                n_limbs = bitwise_limbs oper left right negative n 0 1 1 1\<rparr>))"

end
