(* ===== verification/Big_Int_Exact.thy ===== *)
theory Big_Int_Exact
  imports Big_Int
begin

text \<open>
  The big integers are exact: every operation of \<open>Big_Int\<close> on well-formed numbers is the operation
  on the integers they denote, and where it fails the result would not have fitted. \<open>num_int\<close> is
  the abstraction, and each operation's lemma is its refinement of the integer operation.
\<close>

subsection \<open>What limbs denote\<close>

primrec mag :: "limb list \<Rightarrow> nat" where
  "mag [] = 0"
| "mag (x # xs) = unat x + base32 * mag xs"

definition num_int :: "number \<Rightarrow> int" where
  "num_int n = (if n_negative n then - int (mag (n_limbs n)) else int (mag (n_limbs n)))"

definition num_wf :: "number \<Rightarrow> bool" where
  "num_wf n \<longleftrightarrow> (n_limbs n \<noteq> [] \<longrightarrow> last (n_limbs n) \<noteq> 0) \<and> (n_negative n \<longrightarrow> n_limbs n \<noteq> []) \<and>
     length (n_limbs n) \<le> work_limbs"

text \<open>What the heap holds: \<open>read\<close> admits no more limbs than this.\<close>

definition num_stored :: "number \<Rightarrow> bool" where
  "num_stored n \<longleftrightarrow> num_wf n \<and> length (n_limbs n) \<le> max_limbs"

lemma unat_limb: "unat (x :: limb) < base32"
  using unat_bound [of x] by simp

lemma unat_of_nat_limb [simp]: "unat (of_nat x :: limb) = x mod base32"
  by (simp add: unat_of_nat)

lemma mag_append: "mag (xs @ ys) = mag xs + base32 ^ length xs * mag ys"
  by (induction xs) (simp_all add: algebra_simps)

lemma mag_bound: "mag xs < base32 ^ length xs"
proof (induction xs)
  case (Cons x xs)
  have "unat x < base32" by (rule unat_limb)
  with Cons show ?case by simp
qed simp

lemma mag_replicate_zero [simp]: "mag (replicate n 0) = 0"
  by (induction n) simp_all

lemma mag_zero_iff: "mag xs = 0 \<longleftrightarrow> (\<forall>x \<in> set xs. x = 0)"
  by (induction xs) (simp_all add: unat_eq_0)

lemma mag_last:
  assumes "xs \<noteq> []" "last xs \<noteq> 0"
  shows "base32 ^ (length xs - 1) \<le> mag xs"
proof -
  have "mag xs = mag (butlast xs @ [last xs])" using assms(1) by simp
  also have "\<dots> = mag (butlast xs) + base32 ^ (length xs - 1) * unat (last xs)"
    by (simp add: mag_append)
  finally have "mag xs = mag (butlast xs) + base32 ^ (length xs - 1) * unat (last xs)" .
  moreover have "1 \<le> unat (last xs)" using assms(2) by (simp add: Suc_le_eq unat_gt_0)
  ultimately show ?thesis by (metis mult_le_mono2 nat_mult_1_right trans_le_add2)
qed

lemma mag_length_le:
  assumes "xs \<noteq> []" "last xs \<noteq> 0" "mag xs < base32 ^ k"
  shows "length xs \<le> k"
proof (rule ccontr)
  assume "\<not> length xs \<le> k"
  then have "base32 ^ k \<le> base32 ^ (length xs - 1)" by (intro power_increasing) auto
  with mag_last [OF assms(1,2)] assms(3) show False by linarith
qed

lemma trim_limbs_append: "\<exists>k. xs = trim_limbs xs @ replicate k 0"
proof -
  let ?z = "takeWhile (\<lambda>x. x = 0) (rev xs)"
  have "?z = replicate (length ?z) 0"
    by (rule replicate_eqI) (auto dest: set_takeWhileD)
  moreover have "xs = rev (dropWhile (\<lambda>x. x = 0) (rev xs)) @ rev ?z"
    by (metis rev_append rev_rev_ident takeWhile_dropWhile_id)
  ultimately show ?thesis unfolding trim_limbs_def by (metis rev_replicate)
qed

lemma mag_trim [simp]: "mag (trim_limbs xs) = mag xs"
proof -
  obtain k where "xs = trim_limbs xs @ replicate k 0" using trim_limbs_append by blast
  then show ?thesis by (metis add_0_right mag_append mag_replicate_zero mult_0_right)
qed

lemma length_trim: "length (trim_limbs xs) \<le> length xs"
  by (metis length_append le_add1 trim_limbs_append)

lemma last_trim: "trim_limbs xs \<noteq> [] \<Longrightarrow> last (trim_limbs xs) \<noteq> 0"
  unfolding trim_limbs_def using hd_dropWhile [of "\<lambda>x. x = 0" "rev xs"] by (simp add: last_rev)

lemma trim_limbs_id: "xs = [] \<or> last xs \<noteq> 0 \<Longrightarrow> trim_limbs xs = xs"
  by (cases xs rule: rev_cases) (auto simp: trim_limbs_def)

lemma num_trim_wf: "length (n_limbs n) \<le> work_limbs \<Longrightarrow> num_wf (num_trim n)"
  using length_trim [of "n_limbs n"] last_trim [of "n_limbs n"]
  by (auto simp: num_wf_def num_trim_def Let_def)

lemma num_trim_int [simp]: "num_int (num_trim n) = num_int n"
proof (cases "trim_limbs (n_limbs n) = []")
  case True
  then have "mag (n_limbs n) = 0" using mag_trim [of "n_limbs n"] by simp
  then show ?thesis using True by (simp add: num_int_def num_trim_def Let_def)
qed (simp add: num_int_def num_trim_def Let_def)

lemma num_trim_length: "length (n_limbs (num_trim n)) \<le> length (n_limbs n)"
  by (simp add: num_trim_def Let_def length_trim)

lemma num_wf_zero [simp]: "num_wf num_zero" "num_int num_zero = 0" "mag (n_limbs num_zero) = 0"
  by (simp_all add: num_wf_def num_int_def num_zero_def)

lemma num_is_zero_iff: "num_wf n \<Longrightarrow> num_is_zero n \<longleftrightarrow> mag (n_limbs n) = 0"
proof (cases "n_limbs n = []")
  case False
  assume "num_wf n"
  then have "base32 ^ (length (n_limbs n) - 1) \<le> mag (n_limbs n)"
    using False by (intro mag_last) (simp_all add: num_wf_def)
  moreover have "0 < base32 ^ (length (n_limbs n) - 1)" by simp
  ultimately have "mag (n_limbs n) \<noteq> 0" by linarith
  then show ?thesis using False by (simp add: num_is_zero_def)
qed (simp add: num_is_zero_def)

lemma num_int_zero_iff: "num_wf n \<Longrightarrow> num_is_zero n \<longleftrightarrow> num_int n = 0"
  by (simp add: num_is_zero_iff num_int_def)

lemma num_trim_id: "num_wf n \<Longrightarrow> num_trim n = n"
  by (auto simp: num_trim_def num_wf_def trim_limbs_id Let_def)

subsection \<open>Bounded results\<close>

text \<open>
  \<open>exact cap v r\<close>: the result is limbs denoting \<open>v\<close>, at most \<open>cap\<close> of them, or the failure that
  \<open>v\<close> needs more.
\<close>

definition exact :: "nat \<Rightarrow> nat \<Rightarrow> bigint_error + limb list \<Rightarrow> bool" where
  "exact cap v r \<longleftrightarrow>
     (case r of Inr xs \<Rightarrow> mag xs = v \<and> length xs \<le> cap | Inl e \<Rightarrow> e = TooLarge \<and> base32 ^ cap \<le> v)"

lemma exact_Cons:
  assumes "exact cap (v div base32) r"
  shows "exact (Suc cap) v (and_then r (\<lambda>rest. Inr (of_nat v # rest)))"
proof (cases r)
  case (Inl e)
  have "base32 ^ Suc cap \<le> base32 * (v div base32)" using assms Inl by (simp add: exact_def)
  also have "\<dots> \<le> v" by simp
  finally show ?thesis using assms Inl by (simp add: exact_def)
next
  case (Inr xs)
  then show ?thesis using assms by (simp add: exact_def)
qed

lemma exact_Cons_word:
  assumes "exact cap (v div base32 + w) r"
  shows "exact (Suc cap) (v + base32 * w) (and_then r (\<lambda>rest. Inr (of_nat v # rest)))"
proof (cases r)
  case (Inl e)
  have "base32 ^ Suc cap \<le> base32 * (v div base32 + w)" using assms Inl by (simp add: exact_def)
  also have "\<dots> \<le> v + base32 * w" by simp
  finally show ?thesis using assms Inl by (simp add: exact_def)
next
  case (Inr xs)
  then show ?thesis using assms by (simp add: exact_def distrib_left)
qed

lemma wrap64_exact [simp]: "x < 18446744073709551616 \<Longrightarrow> wrap64 x = x"
  by (simp add: wrap64_def)

lemma product_fits:
  assumes "a < base32" "b < base32" "c < base32" "d < base32"
  shows "a * b + c + d < 18446744073709551616" "(a * b + c + d) div base32 < base32"
proof -
  have "a * b \<le> 4294967295 * 4294967295" using assms by (intro mult_le_mono) auto
  then show "a * b + c + d < 18446744073709551616" using assms by simp
  then show "(a * b + c + d) div base32 < base32" by (simp add: div_less_iff_less_mult)
qed

lemma push_carry_exact: "exact room carry (push_carry room carry)"
proof (induction room carry rule: push_carry.induct)
  case (1 room carry)
  show ?case
  proof (cases "carry = 0 \<or> room = 0")
    case True
    then show ?thesis by (subst push_carry.simps) (auto simp: exact_def)
  next
    case False
    then have "exact (room - 1) (carry div base32) (push_carry (room - 1) (carry div base32))"
      using 1 by simp
    from exact_Cons [OF this] False show ?thesis by (subst push_carry.simps) simp
  qed
qed

lemma multiply_small_limbs_exact:
  assumes "factor < base32" "carry < base32"
  shows "exact (length xs + room) (mag xs * factor + carry) (multiply_small_limbs room xs factor carry)"
  using assms
proof (induction xs arbitrary: carry)
  case Nil
  then show ?case by (simp add: push_carry_exact)
next
  case (Cons x xs)
  let ?p = "unat x * factor + carry"
  have fits: "?p < 18446744073709551616" "?p div base32 < base32"
    using product_fits [OF unat_limb [of x] Cons.prems(1) Cons.prems(2), of 0] by simp_all
  have "exact (length xs + room) (?p div base32 + mag xs * factor)
      (multiply_small_limbs room xs factor (?p div base32))"
    using Cons.IH [OF Cons.prems(1) fits(2)] by (simp add: add.commute)
  from exact_Cons_word [OF this] show ?case
    using fits(1) by (simp add: Let_def algebra_simps)
qed

lemma add_small_limbs_exact:
  assumes "carry < base32"
  shows "exact (length xs + room) (mag xs + carry) (add_small_limbs room xs carry)"
  using assms
proof (induction xs arbitrary: carry)
  case Nil
  then show ?case by (simp add: push_carry_exact)
next
  case (Cons x xs)
  let ?s = "unat x + carry"
  have fits: "?s < 18446744073709551616" "?s div base32 < base32"
    using product_fits [OF _ _ unat_limb [of x] Cons.prems, of 0 0] by simp_all
  have "exact (length xs + room) (?s div base32 + mag xs) (add_small_limbs room xs (?s div base32))"
    using Cons.IH [OF fits(2)] by (simp add: add.commute)
  from exact_Cons_word [OF this] show ?case
    using fits(1) by (cases "carry = 0") (simp_all add: Let_def exact_def algebra_simps)
qed

text \<open>A carry is never more than one when two limbs are added.\<close>

lemma first_limb_mag: "mag xs = unat (first_limb xs) + base32 * mag (tl xs)"
  by (cases xs) simp_all

lemma add_limbs_exact:
  assumes "carry \<le> 1" "length xs \<le> room" "length ys \<le> room"
  shows "exact room (mag xs + mag ys + carry) (add_limbs room xs ys carry)"
  using assms
proof (induction room arbitrary: xs ys carry)
  case 0
  then show ?case by (auto simp: add_limbs.simps exact_def)
next
  case (Suc room)
  let ?s = "unat (first_limb xs) + unat (first_limb ys) + carry"
  have x: "unat (first_limb xs) < base32" and y: "unat (first_limb ys) < base32"
    by (rule unat_limb)+
  have fits: "?s < 18446744073709551616" using x y Suc.prems(1) by linarith
  have small: "?s div base32 \<le> 1" using x y Suc.prems(1) by linarith
  have len: "length (tl xs) \<le> room" "length (tl ys) \<le> room" using Suc.prems by auto
  have "exact room (?s div base32 + (mag (tl xs) + mag (tl ys)))
      (add_limbs room (tl xs) (tl ys) (?s div base32))"
    using Suc.IH [OF small len] by (simp add: add.commute)
  from exact_Cons_word [OF this] show ?case
    using fits first_limb_mag [of xs] first_limb_mag [of ys]
    by (cases "xs = [] \<and> ys = [] \<and> carry = 0")
      (simp_all add: add_limbs.simps [of "Suc room"] Let_def exact_def algebra_simps)
qed

lemma num_int_magnitude: "mag (n_limbs n) = nat \<bar>num_int n\<bar>"
  by (simp add: num_int_def)

lemma num_wf_length_le:
  assumes "num_wf n" "mag (n_limbs n) < base32 ^ k"
  shows "length (n_limbs n) \<le> k"
  using assms mag_length_le [of "n_limbs n" k] by (cases "n_limbs n = []") (auto simp: num_wf_def)

subsection \<open>Comparison\<close>

lemma top_digit_less:
  assumes "(a :: nat) < p" "i < j"
  shows "a + p * i < b + p * j"
proof -
  have "a + p * i < p * (i + 1)" using assms(1) by simp
  also have "\<dots> \<le> p * j" using assms(2) by (intro mult_le_mono2) simp
  finally show ?thesis by simp
qed

lemma compare_from_top_mag:
  assumes "length xs = length ys"
  shows "compare_from_top (rev xs) (rev ys) =
    (if mag xs < mag ys then OLess else if mag xs = mag ys then OEqual else OGreater)"
  using assms
proof (induction xs ys rule: rev_induct2)
  case (4 x xs y ys)
  let ?p = "base32 ^ length xs"
  have m: "mag (xs @ [x]) = mag xs + ?p * unat x" "mag (ys @ [y]) = mag ys + ?p * unat y"
    using 4 by (simp_all add: mag_append)
  have b: "mag xs < ?p" "mag ys < ?p" using mag_bound [of xs] mag_bound [of ys] 4 by simp_all
  consider "x = y" | "unat x < unat y" | "unat y < unat x"
    by (metis linorder_neqE_nat word_unat_eq_iff)
  then show ?case
  proof cases
    case 1
    then show ?thesis using 4 m by simp
  next
    case 2
    then show ?thesis using top_digit_less [OF b(1) 2, of "mag ys"] m by (auto simp: word_less_nat_alt)
  next
    case 3
    then show ?thesis using top_digit_less [OF b(2) 3, of "mag xs"] m by (auto simp: word_less_nat_alt)
  qed
qed simp_all

lemma wf_length_less:
  assumes "num_wf a" "num_wf b" "length (n_limbs a) < length (n_limbs b)"
  shows "mag (n_limbs a) < mag (n_limbs b)"
proof -
  have "mag (n_limbs a) < base32 ^ length (n_limbs a)" by (rule mag_bound)
  also have "\<dots> \<le> base32 ^ (length (n_limbs b) - 1)" using assms(3) by (intro power_increasing) auto
  also have "\<dots> \<le> mag (n_limbs b)" using assms(2,3) by (intro mag_last) (auto simp: num_wf_def)
  finally show ?thesis .
qed

lemma compare_magnitude_exact:
  assumes "num_wf a" "num_wf b"
  shows "compare_magnitude a b =
    (if mag (n_limbs a) < mag (n_limbs b) then OLess
     else if mag (n_limbs a) = mag (n_limbs b) then OEqual else OGreater)"
  using compare_from_top_mag [of "n_limbs a" "n_limbs b"] wf_length_less [OF assms] wf_length_less [OF assms(2,1)]
  by (auto simp: compare_magnitude_def linorder_neq_iff)

lemma num_compare_exact:
  assumes "num_wf a" "num_wf b"
  shows "num_compare a b =
    (if num_int a < num_int b then OLess else if num_int a = num_int b then OEqual else OGreater)"
proof -
  have pos: "n_negative a \<Longrightarrow> 0 < mag (n_limbs a)" "n_negative b \<Longrightarrow> 0 < mag (n_limbs b)"
    using assms num_is_zero_iff [of a] num_is_zero_iff [of b] by (auto simp: num_wf_def num_is_zero_def)
  show ?thesis
    unfolding num_compare_def compare_magnitude_exact [OF assms] compare_magnitude_exact [OF assms(2,1)]
    using pos by (cases "n_negative a"; cases "n_negative b") (auto simp: num_int_def)
qed

subsection \<open>Sums and differences\<close>

text \<open>
  \<open>exact_num v r\<close>: the result is the well-formed number \<open>v\<close>, or the failure that \<open>v\<close> does not fit
  the working limbs.
\<close>

definition exact_num :: "int \<Rightarrow> bigint_error + number \<Rightarrow> bool" where
  "exact_num v r \<longleftrightarrow>
     (case r of
        Inr n \<Rightarrow> num_wf n \<and> num_int n = v
      | Inl e \<Rightarrow> e = TooLarge \<and> int (base32 ^ work_limbs) \<le> \<bar>v\<bar>)"

lemma exact_num_Inr: "exact_num v r \<Longrightarrow> \<bar>v\<bar> < int (base32 ^ work_limbs) \<Longrightarrow>
    \<exists>n. r = Inr n \<and> num_wf n \<and> num_int n = v"
  by (cases r) (auto simp: exact_num_def)

lemma exact_to_num:
  assumes "exact work_limbs v r"
  shows "exact_num (if negative then - int v else int v)
    (and_then r (\<lambda>limbs. Inr (num_trim \<lparr>n_negative = negative, n_limbs = limbs\<rparr>)))"
proof (cases r)
  case (Inr limbs)
  let ?n = "\<lparr>n_negative = negative, n_limbs = limbs\<rparr>"
  have "num_wf (num_trim ?n)" using assms Inr by (intro num_trim_wf) (simp add: exact_def)
  moreover have "num_int (num_trim ?n) = (if negative then - int v else int v)"
    unfolding num_trim_int using assms Inr by (simp add: num_int_def exact_def)
  ultimately show ?thesis using Inr by (simp add: exact_num_def)
qed (use assms in \<open>simp add: exact_def exact_num_def\<close>)

lemma add_magnitude_exact:
  assumes "num_wf a" "num_wf b"
  shows "exact_num (int (mag (n_limbs a) + mag (n_limbs b))) (add_magnitude a b)"
  using exact_to_num [OF add_limbs_exact [of 0 "n_limbs a" work_limbs "n_limbs b"], of False] assms
  by (simp add: add_magnitude_def num_wf_def)

lemma limb_of_int:
  assumes "0 \<le> d" "d < 4294967296"
  shows "int (unat (word_of_int d :: limb)) = d"
proof -
  have "uint (word_of_int d :: limb) = d"
    using assms by (simp add: uint_word_of_int)
  then show ?thesis by (simp only: uint_nat)
qed

lemma subtract_limbs_exact:
  assumes "borrow = 0 \<or> borrow = 1" "length ys \<le> length xs" "int (mag ys) + borrow \<le> int (mag xs)"
  shows "int (mag (subtract_limbs xs ys borrow)) = int (mag xs) - int (mag ys) - borrow \<and>
    length (subtract_limbs xs ys borrow) = length xs"
  using assms
proof (induction xs arbitrary: ys borrow)
  case (Cons x xs)
  define a b where "a = unat x" and "b = unat (first_limb ys)"
  let ?d = "int a - int b - borrow"
  have x: "a < 4294967296" and y: "b < 4294967296"
    unfolding a_def b_def by (rule unat_limb)+
  have ys: "int (mag ys) = int b + 4294967296 * int (mag (tl ys))"
    using first_limb_mag [of ys] by (simp only: b_def of_nat_add of_nat_mult of_nat_numeral)
  have xs: "int (mag (x # xs)) = int a + 4294967296 * int (mag xs)"
    by (simp only: mag.simps a_def of_nat_add of_nat_mult of_nat_numeral)
  have len: "length (tl ys) \<le> length xs" using Cons.prems(2) by auto
  have step: "subtract_limbs (x # xs) ys borrow =
      (if ?d < 0 then word_of_int (?d + 4294967296) # subtract_limbs xs (tl ys) 1
       else word_of_int ?d # subtract_limbs xs (tl ys) 0)"
    by (simp only: subtract_limbs.simps Let_def a_def b_def) simp
  have le: "int b + 4294967296 * int (mag (tl ys)) + borrow \<le> int a + 4294967296 * int (mag xs)"
    using Cons.prems(3) unfolding xs ys .
  have cons: "int (mag (w # ws)) = int (unat w) + 4294967296 * int (mag ws)" for w ws
    by (simp only: mag.simps of_nat_add of_nat_mult of_nat_numeral)
  show ?case
  proof (cases "?d < 0")
    case True
    have "0 \<le> ?d + 4294967296" "?d + 4294967296 < 4294967296"
      using True y Cons.prems(1) by auto
    note limb = limb_of_int [OF this]
    have "int (mag (tl ys)) + 1 \<le> int (mag xs)" using le True x by linarith
    from Cons.IH [OF _ len this] show ?thesis
      unfolding step if_P [OF True] xs ys unfolding cons limb by simp
  next
    case False
    have "0 \<le> ?d" "?d < 4294967296" using False x Cons.prems(1) by auto
    note limb = limb_of_int [OF this]
    have "int (mag (tl ys)) + 0 \<le> int (mag xs)" using le False x Cons.prems(1) by auto
    from Cons.IH [OF _ len this] show ?thesis
      unfolding step if_not_P [OF False] xs ys unfolding cons limb by simp
  qed
qed simp

lemma subtract_magnitude_exact:
  assumes "num_wf a" "num_wf b" "mag (n_limbs b) \<le> mag (n_limbs a)"
  shows "num_wf (subtract_magnitude a b) \<and> \<not> n_negative (subtract_magnitude a b) \<and>
    int (mag (n_limbs (subtract_magnitude a b))) = int (mag (n_limbs a)) - int (mag (n_limbs b)) \<and>
    length (n_limbs (subtract_magnitude a b)) \<le> length (n_limbs a)"
proof -
  have "length (n_limbs b) \<le> length (n_limbs a)"
    using wf_length_less [OF assms(1,2)] assms(3) by (meson not_le)
  with subtract_limbs_exact [of 0 "n_limbs b" "n_limbs a"] assms(3)
  have sub: "int (mag (subtract_limbs (n_limbs a) (n_limbs b) 0)) =
      int (mag (n_limbs a)) - int (mag (n_limbs b))"
    "length (subtract_limbs (n_limbs a) (n_limbs b) 0) = length (n_limbs a)" by auto
  show ?thesis
    using sub num_trim_wf [of "\<lparr>n_negative = False, n_limbs = subtract_limbs (n_limbs a) (n_limbs b) 0\<rparr>"]
      num_trim_length [of "\<lparr>n_negative = False, n_limbs = subtract_limbs (n_limbs a) (n_limbs b) 0\<rparr>"] assms(1)
    by (simp add: subtract_magnitude_def num_trim_def Let_def num_wf_def)
qed

lemma num_negate_exact: "num_wf n \<Longrightarrow> num_wf (num_negate n) \<and> num_int (num_negate n) = - num_int n"
  by (auto simp: num_negate_def num_wf_def num_int_def num_is_zero_def)

lemma num_signed:
  assumes "num_wf n" "\<not> n_negative n"
  shows "num_wf (num_trim (n\<lparr>n_negative := s\<rparr>)) \<and>
    num_int (num_trim (n\<lparr>n_negative := s\<rparr>)) = (if s then - int (mag (n_limbs n)) else int (mag (n_limbs n)))"
  using num_trim_wf [of "n\<lparr>n_negative := s\<rparr>"] assms unfolding num_trim_int
  by (simp add: num_wf_def num_int_def)

lemma exact_num_signed:
  assumes "num_wf n" "\<not> n_negative n" "v = (if s then - int (mag (n_limbs n)) else int (mag (n_limbs n)))"
  shows "exact_num v (Inr (num_trim (n\<lparr>n_negative := s\<rparr>)))"
  using num_signed [OF assms(1,2), of s] assms(3) by (simp add: exact_num_def del: num_trim_int)

lemma add_magnitude_sign: "add_magnitude a b = Inr n \<Longrightarrow> \<not> n_negative n"
  by (auto simp: add_magnitude_def and_then_Inr num_trim_def Let_def)

lemma num_add_exact:
  assumes "num_wf a" "num_wf b"
  shows "exact_num (num_int a + num_int b) (num_add a b)"
proof (cases "n_negative a = n_negative b")
  case True
  show ?thesis
  proof (cases "add_magnitude a b")
    case (Inl e)
    then show ?thesis
      using add_magnitude_exact [OF assms] True by (auto simp: num_add_def exact_num_def num_int_def)
  next
    case (Inr n)
    note sign = add_magnitude_sign [OF Inr]
    have n: "num_wf n" "int (mag (n_limbs n)) = int (mag (n_limbs a)) + int (mag (n_limbs b))"
      using add_magnitude_exact [OF assms] Inr sign by (simp_all add: exact_num_def num_int_def)
    have "num_add a b = Inr (num_trim (n\<lparr>n_negative := n_negative a\<rparr>))"
      using Inr True by (simp add: num_add_def)
    moreover have "num_int a + num_int b =
        (if n_negative a then - int (mag (n_limbs n)) else int (mag (n_limbs n)))"
      using n(2) True by (simp add: num_int_def)
    ultimately show ?thesis using exact_num_signed [OF n(1) sign] by simp
  qed
next
  case False
  note cmp = compare_magnitude_exact [OF assms]
  consider "mag (n_limbs a) < mag (n_limbs b)" | "mag (n_limbs a) = mag (n_limbs b)"
    | "mag (n_limbs b) < mag (n_limbs a)" by linarith
  then show ?thesis
  proof cases
    case 1
    note sub = subtract_magnitude_exact [OF assms(2,1) less_imp_le [OF 1]]
    have "num_add a b = Inr (num_trim ((subtract_magnitude b a)\<lparr>n_negative := n_negative b\<rparr>))"
      using 1 False cmp by (simp add: num_add_def)
    moreover have "num_int a + num_int b = (if n_negative b then - int (mag (n_limbs (subtract_magnitude b a)))
        else int (mag (n_limbs (subtract_magnitude b a))))"
      using sub False by (simp add: num_int_def)
    ultimately show ?thesis using exact_num_signed sub by simp
  next
    case 2
    then show ?thesis
      using False cmp num_wf_zero
      by (auto simp: num_add_def exact_num_def num_int_def num_zero_def)
  next
    case 3
    note sub = subtract_magnitude_exact [OF assms less_imp_le [OF 3]]
    have "num_add a b = Inr (num_trim ((subtract_magnitude a b)\<lparr>n_negative := n_negative a\<rparr>))"
      using 3 False cmp by (simp add: num_add_def)
    moreover have "num_int a + num_int b = (if n_negative a then - int (mag (n_limbs (subtract_magnitude a b)))
        else int (mag (n_limbs (subtract_magnitude a b))))"
      using sub False by (simp add: num_int_def)
    ultimately show ?thesis using exact_num_signed sub by simp
  qed
qed

lemma num_subtract_exact:
  assumes "num_wf a" "num_wf b"
  shows "exact_num (num_int a - num_int b) (num_subtract a b)"
  using num_add_exact [OF assms(1) conjunct1 [OF num_negate_exact [OF assms(2)]]]
    num_negate_exact [OF assms(2)] by (simp add: num_subtract_def)

subsection \<open>Products\<close>

lemma propagate_exact:
  assumes "carry < base32"
  shows "exact (length rs) (mag rs + carry) (propagate rs carry)"
  using assms
proof (induction rs arbitrary: carry)
  case Nil
  then show ?case by (simp add: exact_def)
next
  case (Cons r rs)
  let ?s = "unat r + carry"
  have fits: "?s < 18446744073709551616" "?s div base32 < base32"
    using product_fits [OF _ _ unat_limb [of r] Cons.prems, of 0 0] by simp_all
  have "exact (length rs) (?s div base32 + mag rs) (propagate rs (?s div base32))"
    using Cons.IH [OF fits(2)] by (simp add: add.commute)
  from exact_Cons_word [OF this] show ?case
    using fits(1) by (cases "carry = 0") (simp_all add: Let_def exact_def algebra_simps)
qed

lemma propagate_length: "propagate rs carry = Inr xs \<Longrightarrow> length xs = length rs"
  by (induction rs arbitrary: carry xs) (auto simp: and_then_Inr Let_def split: if_splits)

lemma multiply_row_length: "multiply_row a bs rs carry = Inr xs \<Longrightarrow> length xs = length rs"
  by (induction a bs rs carry arbitrary: xs rule: multiply_row.induct)
    (auto simp: and_then_Inr Let_def propagate_length)

lemma multiply_row_exact:
  assumes "carry < base32" "length bs \<le> length rs"
  shows "exact (length rs) (mag rs + unat a * mag bs + carry) (multiply_row a bs rs carry)"
  using assms
proof (induction a bs rs carry rule: multiply_row.induct)
  case (1 a rs carry)
  then show ?case using propagate_exact by simp
next
  case (3 a b bs r rs carry)
  let ?p = "unat a * unat b + unat r + carry"
  have fits: "?p < 18446744073709551616" "?p div base32 < base32"
    using product_fits [OF unat_limb [of a] unat_limb [of b] unat_limb [of r] "3.prems"(1)] .
  have IH: "exact (length rs) (mag rs + unat a * mag bs + ?p div base32) (multiply_row a bs rs (?p div base32))"
    using "3.IH" [of ?p] fits "3.prems"(2) by simp
  then have "exact (length rs) (?p div base32 + (mag rs + unat a * mag bs))
      (multiply_row a bs rs (?p div base32))"
    by (simp add: add.commute)
  from exact_Cons_word [OF this] show ?case
    using fits(1) by (simp add: Let_def algebra_simps)
qed simp

lemma multiply_rows_exact:
  assumes "length as + length bs \<le> length rs" "mag rs + mag as * mag bs < base32 ^ length rs"
  shows "\<exists>xs. multiply_rows as bs rs = Inr xs \<and> mag xs = mag rs + mag as * mag bs \<and> length xs = length rs"
  using assms
proof (induction as arbitrary: rs)
  case (Cons a as)
  have "unat a * mag bs \<le> mag (a # as) * mag bs" by simp
  then have small: "mag rs + unat a * mag bs < base32 ^ length rs" using Cons.prems(2) by linarith
  then obtain xs where xs: "multiply_row a bs rs 0 = Inr xs" "mag xs = mag rs + unat a * mag bs"
    using multiply_row_exact [of 0 bs rs a] Cons.prems(1)
    by (cases "multiply_row a bs rs 0") (auto simp: exact_def)
  have len: "length xs = length rs" using multiply_row_length [OF xs(1)] .
  then obtain y ys where ys: "xs = y # ys" "length rs = Suc (length ys)"
    using Cons.prems(1) by (cases xs) auto
  have total: "mag rs + mag (a # as) * mag bs = unat y + base32 * (mag ys + mag as * mag bs)"
    using xs(2) ys(1) by (simp add: algebra_simps)
  have "base32 * (mag ys + mag as * mag bs) < base32 * base32 ^ length ys"
    using Cons.prems(2) ys(2) total by simp
  then have "mag ys + mag as * mag bs < base32 ^ length ys" by simp
  from Cons.IH [OF _ this] Cons.prems(1) ys(2) obtain zs where
    "multiply_rows as bs ys = Inr zs" "mag zs = mag ys + mag as * mag bs" "length zs = length ys"
    by auto
  then show ?case using xs(1) ys total by auto
qed auto

lemma mag_take:
  assumes "mag xs < base32 ^ n"
  shows "mag (take n xs) = mag xs"
proof (cases "n \<le> length xs")
  case True
  have split: "mag xs = mag (take n xs) + base32 ^ n * mag (drop n xs)"
    using mag_append [of "take n xs" "drop n xs"] True by simp
  have "mag (drop n xs) = 0"
  proof (rule ccontr)
    assume "mag (drop n xs) \<noteq> 0"
    then have "base32 ^ n \<le> base32 ^ n * mag (drop n xs)" by simp
    then show False using split assms by linarith
  qed
  then show ?thesis using split by simp
qed simp

lemma num_multiply_exact:
  assumes "num_wf a" "num_wf b" "length (n_limbs a) + length (n_limbs b) \<le> work_limbs"
  shows "\<exists>n. num_multiply a b = Inr n \<and> num_wf n \<and> num_int n = num_int a * num_int b"
proof (cases "num_is_zero a \<or> num_is_zero b")
  case True
  then show ?thesis
    using num_int_zero_iff [OF assms(1)] num_int_zero_iff [OF assms(2)] by (auto simp: num_multiply_def)
next
  case False
  let ?k = "length (n_limbs a) + length (n_limbs b)"
  have "mag (n_limbs a) * mag (n_limbs b) < base32 ^ length (n_limbs a) * base32 ^ length (n_limbs b)"
    by (intro mult_strict_mono mag_bound) auto
  then have small: "mag (n_limbs a) * mag (n_limbs b) < base32 ^ ?k" by (simp add: power_add)
  also have "\<dots> \<le> base32 ^ work_limbs" using assms(3) by (intro power_increasing) auto
  finally obtain xs where
    xs: "multiply_rows (n_limbs a) (n_limbs b) (replicate work_limbs 0) = Inr xs"
    "mag xs = mag (n_limbs a) * mag (n_limbs b)" "length xs = work_limbs"
    using multiply_rows_exact [of "n_limbs a" "n_limbs b" "replicate work_limbs 0"] assms(3) by auto
  let ?n = "\<lparr>n_negative = (n_negative a \<noteq> n_negative b), n_limbs = take ?k xs\<rparr>"
  have "num_multiply a b = Inr (num_trim ?n)"
    using False xs(1) assms(3) by (simp add: num_multiply_def Let_def)
  moreover have "num_wf (num_trim ?n)" using xs(3) by (intro num_trim_wf) simp
  moreover have "num_int (num_trim ?n) = num_int a * num_int b"
    unfolding num_trim_int using mag_take [of xs ?k] small xs(2) by (simp add: num_int_def)
  ultimately show ?thesis by blast
qed

end
