(* ===== verification/Big_Int_Divide.thy ===== *)
theory Big_Int_Divide
  imports Big_Int_Exact
begin

text \<open>
  Division, shifts and powers of the big integers. Both divisions of \<^verbatim>\<open>modules/common/bigint.rs\<close>
  work a bit at a time; \<open>divide_bits\<close> does it inside one limb with the bit that leaves the top of the
  word watched, \<open>long_divide\<close> over the whole magnitude. Each is the quotient and remainder of the
  naturals it denotes, and \<open>num_divide\<close> truncates towards zero as the language requires.
\<close>

unbundle bit_operations_syntax

subsection \<open>Bits of limbs\<close>

lemma unat_low_bit: "unat ((x :: limb) AND 1) = unat x mod 2"
  by (simp add: and_one_eq unat_mod)

lemma unat_bit_at: "unat (drop_bit k (x :: limb) AND 1) = unat x div 2 ^ k mod 2"
  unfolding unat_low_bit unat_drop_bit_eq by (simp add: drop_bit_eq_div)

lemma unat_double_or:
  assumes "c = 0 \<or> c = 1"
  shows "unat (push_bit 1 (x :: limb) OR c) = (2 * unat x + unat c) mod base32"
proof -
  have "push_bit 1 x AND c = 0"
    using assms by (auto simp: and_one_eq even_iff_mod_2_eq_zero [symmetric])
  then have "push_bit 1 x OR c = push_bit 1 x + c" by (simp add: disjunctive_add_eq_or)
  also have "\<dots> = 2 * x + c" by (simp add: push_bit_eq_mult)
  finally show ?thesis by (simp add: unat_word_ariths mod_simps)
qed

lemma unat_or_bit:
  assumes "unat (q :: limb) div 2 ^ k mod 2 = 0" "k < 32"
  shows "unat (q OR push_bit k 1) = unat q + 2 ^ k"
proof -
  have u: "unat (push_bit k 1 :: limb) = push_bit k 1"
    using assms(2) power_strict_increasing [of k 32 "2::nat"]
    unfolding push_bit_of_1 by (simp add: unat_of_nat [of "2 ^ k", simplified])
  have "\<not> bit (unat q) k"
    using assms(1) by (simp add: bit_iff_odd even_iff_mod_2_eq_zero)
  then have "unat q AND push_bit k 1 = 0" by (auto intro!: bit_eqI simp: bit_simps)
  then have "unat q OR push_bit k 1 = unat q + push_bit k 1" by (simp only: disjunctive_add_eq_or)
  then show ?thesis unfolding unsigned_or_eq u by (simp add: push_bit_of_1)
qed

subsection \<open>Division by a limb\<close>

lemma div_mod_step:
  fixes D d n L :: nat
  assumes "L < n" "d \<le> D" "0 < d"
  shows "(D * n + L) mod d = ((D - d) * n + L) mod d" "(D * n + L) div d = n + ((D - d) * n + L) div d"
proof -
  have "D * n = (D - d) * n + d * n" using assms(2) by (simp flip: add_mult_distrib)
  then have eq: "D * n + L = ((D - d) * n + L) + d * n" by simp
  then show "(D * n + L) mod d = ((D - d) * n + L) mod d" "(D * n + L) div d = n + ((D - d) * n + L) div d"
    unfolding eq using assms(3) by simp_all
qed

lemma divide_bits_exact:
  assumes "rest < divisor" "2 ^ k dvd unat quot" "k \<le> 32"
  shows "divide_bits k limb divisor rest quot = (q, r) \<Longrightarrow>
    unat q = unat quot + (unat rest * 2 ^ k + unat limb mod 2 ^ k) div unat divisor \<and>
    unat r = (unat rest * 2 ^ k + unat limb mod 2 ^ k) mod unat divisor"
  using assms
proof (induction k arbitrary: rest quot)
  case 0
  then show ?case by (auto simp: word_less_nat_alt)
next
  case (Suc k)
  define c where "c = drop_bit k limb AND 1"
  define w where "w = push_bit 1 rest OR c"
  define D where "D = 2 * unat rest + unat c"
  have c: "c = 0 \<or> c = 1"
    using unat_bit_at [of k limb] by (simp add: c_def and_one_eq mod_2_eq_odd)
  have uc: "unat c = unat limb div 2 ^ k mod 2" by (simp add: c_def unat_bit_at)
  have lt: "unat rest < unat divisor" using Suc.prems(2) by (simp add: word_less_nat_alt)
  have doubled: "unat w = D mod base32"
    unfolding D_def w_def by (rule unat_double_or [OF c])
  have top: "drop_bit 31 rest = 1 \<longleftrightarrow> 2147483648 \<le> unat rest"
  proof -
    have "drop_bit 31 rest = 1 \<longleftrightarrow> unat rest div 2147483648 = 1"
      unfolding word_unat_eq_iff unat_drop_bit_eq by (simp add: drop_bit_eq_div)
    then show ?thesis using unat_limb [of rest] by linarith
  qed
  have d: "unat divisor < base32" by (rule unat_limb)
  have split: "unat rest * 2 ^ Suc k + unat limb mod 2 ^ Suc k = D * 2 ^ k + unat limb mod 2 ^ k"
    by (simp add: D_def uc mod_mult2_eq [of _ "2 ^ k" 2, simplified mult.commute [of _ 2]] algebra_simps)
  have test: "(drop_bit 31 rest = 1 \<or> divisor \<le> w) \<longleftrightarrow> unat divisor \<le> D"
  proof (cases "2147483648 \<le> unat rest")
    case True
    then show ?thesis unfolding top using d by (simp add: D_def)
  next
    case False
    moreover have "unat c \<le> 1" using c by auto
    ultimately have "D < base32" by (simp add: D_def)
    then show ?thesis unfolding top word_le_nat_alt doubled using False by simp
  qed
  have step: "divide_bits (Suc k) limb divisor rest quot =
      (if drop_bit 31 rest = 1 \<or> divisor \<le> w
       then divide_bits k limb divisor (w - divisor) (quot OR push_bit k 1)
       else divide_bits k limb divisor w quot)"
    by (simp only: divide_bits.simps Let_def c_def w_def)
  show ?case
  proof (cases "unat divisor \<le> D")
    case True
    let ?n = "w - divisor"
    have D: "D < 2 * unat divisor" using lt c by (auto simp: D_def)
    have n: "unat ?n = D - unat divisor"
    proof (cases "D < base32")
      case True
      then show ?thesis using doubled \<open>unat divisor \<le> D\<close> by (simp add: unat_sub_if')
    next
      case False
      then have "D mod base32 = D - base32" using D d by (simp add: le_mod_geq)
      then show ?thesis using doubled D d False by (simp add: unat_sub_if')
    qed
    have "?n < divisor" using n D True by (simp add: word_less_nat_alt)
    moreover have "unat quot div 2 ^ k mod 2 = 0" using Suc.prems(3) by (auto elim!: dvdE)
    from unat_or_bit [OF this] have or: "unat (quot OR push_bit k 1) = unat quot + 2 ^ k"
      using Suc.prems(4) by simp
    moreover have "2 ^ k dvd unat (quot OR push_bit k 1)"
      unfolding or using Suc.prems(3) dvd_mult_left by auto
    moreover have "divide_bits k limb divisor ?n (quot OR push_bit k 1) = (q, r)"
      using Suc.prems(1) True unfolding step test by simp
    ultimately show ?thesis
      using Suc.IH [of ?n "quot OR push_bit k 1"] Suc.prems(4) True
        div_mod_step [of "unat limb mod 2 ^ k" "2 ^ k" "unat divisor" D] lt
      unfolding split by (simp add: n)
  next
    case False
    then have "unat w = D" using doubled d by simp
    moreover have "2 ^ k dvd unat quot" using Suc.prems(3) dvd_mult_left by auto
    moreover have "divide_bits k limb divisor w quot = (q, r)"
      using Suc.prems(1) False unfolding step test by simp
    ultimately show ?thesis
      using Suc.IH [of w quot] Suc.prems(4) False
      unfolding split by (simp add: word_less_nat_alt)
  qed
qed

lemma divide_step_exact:
  assumes "rest < divisor" "divide_step rest limb divisor = (q, r)"
  shows "unat q = (unat rest * base32 + unat limb) div unat divisor \<and>
    unat r = (unat rest * base32 + unat limb) mod unat divisor"
  using divide_bits_exact [OF assms(1), of 32 0 limb q r] assms(2) unat_limb [of limb]
  by (simp add: divide_step_def)

lemma div_mod_shift:
  fixes t b m d :: nat
  assumes "0 < d"
  shows "(t * b + m) div d = t div d * b + (t mod d * b + m) div d"
    "(t * b + m) mod d = (t mod d * b + m) mod d"
proof -
  have "t * b = (t mod d + d * (t div d)) * b" by simp
  also have "\<dots> = t mod d * b + d * (t div d * b)" by (simp only: distrib_right mult.assoc)
  finally have eq: "t * b + m = (t mod d * b + m) + d * (t div d * b)" by simp
  show "(t * b + m) div d = t div d * b + (t mod d * b + m) div d"
    "(t * b + m) mod d = (t mod d * b + m) mod d"
    using assms by (subst eq; simp)+
qed

lemma divide_limbs_exact:
  assumes "rest < divisor" "divide_limbs xs divisor rest = (qs, r)"
  shows "length qs = length xs \<and>
    mag (rev qs) = (unat rest * base32 ^ length xs + mag (rev xs)) div unat divisor \<and>
    unat r = (unat rest * base32 ^ length xs + mag (rev xs)) mod unat divisor"
  using assms
proof (induction xs arbitrary: rest qs)
  case Nil
  then show ?case by (auto simp: word_less_nat_alt)
next
  case (Cons x xs)
  obtain q nxt where q: "divide_step rest x divisor = (q, nxt)" by (cases "divide_step rest x divisor") simp
  obtain qt where qt: "divide_limbs xs divisor nxt = (qt, r)" "qs = q # qt"
    using Cons.prems(2) q by (cases "divide_limbs xs divisor nxt") simp
  let ?b = "base32 ^ length xs" and ?d = "unat divisor" and ?t = "unat rest * base32 + unat x"
  have d: "0 < ?d" using Cons.prems(1) by (simp add: word_less_nat_alt)
  note step = divide_step_exact [OF Cons.prems(1) q]
  have "nxt < divisor" using step d by (simp add: word_less_nat_alt)
  note IH = Cons.IH [OF this qt(1)]
  have total: "unat rest * base32 ^ length (x # xs) + mag (rev (x # xs)) = ?t * ?b + mag (rev xs)"
    by (simp only: mag_append mag.simps rev.simps length_rev list.size power_add power_Suc add_Suc_right)
      (simp add: distrib_right)
  have m: "mag (rev qs) = ?t div ?d * ?b + (?t mod ?d * ?b + mag (rev xs)) div ?d"
    using IH step unfolding qt(2) by (simp add: mag_append mult.commute)
  show ?case
    unfolding total div_mod_shift [OF d, of ?t ?b "mag (rev xs)"] m using IH step qt(2) by simp
qed

lemma divide_small_exact:
  assumes "num_wf n" "divisor \<noteq> 0" "divide_small n divisor = (q, r)"
  shows "num_wf q \<and> mag (n_limbs q) = mag (n_limbs n) div unat divisor \<and>
    unat r = mag (n_limbs n) mod unat divisor \<and> (n_negative q \<longrightarrow> n_negative n) \<and>
    length (n_limbs q) \<le> length (n_limbs n)"
proof -
  obtain qs where qs: "divide_limbs (rev (n_limbs n)) divisor 0 = (qs, r)"
    "q = num_trim (n\<lparr>n_limbs := rev qs\<rparr>)"
    using assms(2,3) by (auto simp: divide_small_def split: prod.splits)
  have "0 < divisor" using assms(2) by (simp add: word_neq_0_conv)
  note lim = divide_limbs_exact [OF this qs(1)]
  have len: "length qs = length (n_limbs n)" using lim by simp
  show ?thesis
    using lim num_trim_wf [of "n\<lparr>n_limbs := rev qs\<rparr>"] num_trim_length [of "n\<lparr>n_limbs := rev qs\<rparr>"] assms(1)
    unfolding qs(2) by (simp add: num_wf_def) (simp add: num_trim_def Let_def)
qed
subsection \<open>Doubling\<close>

lemma drop_top: "unat (drop_bit 31 (x :: limb)) = 2 * unat x div base32"
    "drop_bit 31 x = 0 \<or> drop_bit 31 x = 1"
proof -
  have eq: "unat (drop_bit 31 x) = unat x div 2147483648"
    unfolding unat_drop_bit_eq by (simp add: drop_bit_eq_div)
  have "unat x div 2147483648 = 2 * unat x div (2 * 2147483648)" by (rule div_mult_mult1 [symmetric]) simp
  then show "unat (drop_bit 31 (x :: limb)) = 2 * unat x div base32" using eq by simp
  have "unat x div 2147483648 \<le> 1" using unat_limb [of x] by linarith
  then show "drop_bit 31 x = 0 \<or> drop_bit 31 x = 1"
    using eq by (auto simp: word_unat_eq_iff le_Suc_eq)
qed

lemma shift_limbs_exact:
  assumes "c = 0 \<or> c = 1"
  shows "exact (length xs + room) (2 * mag xs + unat c) (shift_limbs room xs c)"
  using assms
proof (induction xs arbitrary: c)
  case Nil
  then show ?case by (auto simp: exact_def)
next
  case (Cons x xs)
  let ?v = "2 * unat x + unat c"
  have c: "unat c \<le> 1" using Cons.prems by auto
  have "?v div base32 = ?v div 2 div 2147483648" by (simp flip: div_mult2_eq)
  also have "?v div 2 = 2 * unat x div 2" using c by simp
  also have "2 * unat x div 2 div 2147483648 = 2 * unat x div base32" by (simp flip: div_mult2_eq)
  finally have "?v div base32 = 2 * unat x div base32" .
  then have "exact (length xs + room) (?v div base32 + 2 * mag xs) (shift_limbs room xs (drop_bit 31 x))"
    using Cons.IH [OF drop_top(2)] by (simp add: drop_top(1) add.commute)
  moreover have "push_bit 1 x OR c = of_nat ?v"
    unfolding word_unat_eq_iff unat_double_or [OF Cons.prems] unat_of_nat_limb ..
  ultimately show ?case using exact_Cons_word [of "length xs + room" ?v "2 * mag xs"]
    by (simp add: algebra_simps)
qed

lemma shift_limbs_length: "shift_limbs room xs c = Inr ys \<Longrightarrow> length xs \<le> length ys"
  by (induction xs arbitrary: c ys) (auto simp: and_then_Inr split: if_splits)

lemma shift_limbs_last:
  assumes "shift_limbs room xs c = Inr ys" "c = 0 \<or> c = 1" "xs \<noteq> [] \<longrightarrow> last xs \<noteq> 0" "ys \<noteq> []"
  shows "last ys \<noteq> 0"
  using assms
proof (induction xs arbitrary: c ys)
  case Nil
  then show ?case by (auto split: if_splits)
next
  case (Cons x xs)
  obtain rest where rest: "shift_limbs room xs (drop_bit 31 x) = Inr rest" "ys = (push_bit 1 x OR c) # rest"
    using Cons.prems(1) by (auto simp: and_then_Inr)
  show ?case
  proof (cases "rest = []")
    case True
    then have nil: "xs = []" "drop_bit 31 x = 0"
      using rest(1) shift_limbs_length [OF rest(1)] by (auto split: if_splits)
    then have "x \<noteq> 0" using Cons.prems(3) by simp
    moreover have "2 * unat x < base32" using drop_top(1) [of x] nil(2) by (simp add: div_eq_0_iff)
    ultimately have "unat (push_bit 1 x OR c) \<noteq> 0"
      unfolding unat_double_or [OF Cons.prems(2)] using Cons.prems(2) by (auto simp: unat_gt_0)
    then show ?thesis using rest True by (auto simp: unat_eq_0)
  next
    case False
    then show ?thesis using Cons.IH [OF rest(1) drop_top(2) _ False] Cons.prems(3) rest(2)
      by (cases "xs = []") auto
  qed
qed

lemma shift_left_one_exact:
  assumes "num_wf n"
  shows "exact_num (2 * num_int n) (shift_left_one n)"
    "shift_left_one n = Inr m \<Longrightarrow> n_negative m = n_negative n \<and> mag (n_limbs m) = 2 * mag (n_limbs n)"
proof -
  let ?r = "shift_limbs (work_limbs - length (n_limbs n)) (n_limbs n) 0"
  have e: "exact work_limbs (2 * mag (n_limbs n)) ?r"
    using shift_limbs_exact [of 0 "n_limbs n" "work_limbs - length (n_limbs n)"] assms by (simp add: num_wf_def)
  have last: "ys \<noteq> [] \<Longrightarrow> last ys \<noteq> 0" if "?r = Inr ys" for ys
    using shift_limbs_last [OF that] assms by (simp add: num_wf_def)
  have int_bound: "4294967296 ^ k \<le> 2 * int (mag xs)" if "base32 ^ k \<le> 2 * mag xs" for k xs
  proof -
    have "int (base32 ^ k) \<le> int (2 * mag xs)" using that by (rule of_nat_mono)
    then show ?thesis by simp
  qed
  have "n_limbs n \<noteq> [] \<Longrightarrow> ys \<noteq> []" if "?r = Inr ys" for ys
    using shift_limbs_length [OF that] by auto
  with e last show "exact_num (2 * num_int n) (shift_left_one n)"
    using assms int_bound [of _ "n_limbs n"]
    by (cases ?r) (auto simp: shift_left_one_def exact_num_def exact_def num_wf_def num_int_def)
  show "shift_left_one n = Inr m \<Longrightarrow> n_negative m = n_negative n \<and> mag (n_limbs m) = 2 * mag (n_limbs n)"
    using e by (auto simp: shift_left_one_def and_then_Inr exact_def)
qed

lemma mag_set_low_bit:
  assumes "even (mag (n_limbs n))"
  shows "mag (n_limbs (set_low_bit n)) = mag (n_limbs n) + 1"
proof (cases "n_limbs n")
  case (Cons x xs)
  then have "unat x div 2 ^ 0 mod 2 = 0" using assms by (simp add: even_iff_mod_2_eq_zero [symmetric])
  from unat_or_bit [OF this] have "unat (x OR 1) = unat x + 1" by simp
  then show ?thesis using Cons by (simp add: set_low_bit_def)
qed (simp add: set_low_bit_def)

lemma set_low_bit_wf:
  assumes "num_wf n"
  shows "num_wf (set_low_bit n)" "n_negative (set_low_bit n) = n_negative n"
proof -
  have "x OR 1 \<noteq> 0" for x :: limb
    by (metis bit.disj_cancel_right bit_or_iff bit_1_0 bit_0_eq bot_fun_def bot_bool_def or.commute)
  then show "num_wf (set_low_bit n)" using assms
    by (auto simp: num_wf_def set_low_bit_def work_limbs_def split: list.splits)
  show "n_negative (set_low_bit n) = n_negative n" by (simp add: set_low_bit_def)
qed

subsection \<open>Long division\<close>

lemma limb_place: "(2::nat) ^ (32 * i + b) = base32 ^ i * 2 ^ b"
  by (simp add: power_add power_mult)

lemma mag_from:
  assumes "i < length xs"
  shows "mag xs div base32 ^ i = unat (xs ! i) + base32 * mag (drop (Suc i) xs)"
proof -
  have "mag xs = mag (take i xs @ drop i xs)" by simp
  also have "\<dots> = mag (take i xs) + base32 ^ i * mag (drop i xs)"
    unfolding mag_append using assms by simp
  also have "mag (drop i xs) = unat (xs ! i) + base32 * mag (drop (Suc i) xs)"
    unfolding Cons_nth_drop_Suc [OF assms, symmetric] by simp
  finally have split: "mag xs = mag (take i xs) + base32 ^ i * (unat (xs ! i) + base32 * mag (drop (Suc i) xs))" .
  have "mag (take i xs) < base32 ^ i" using mag_bound [of "take i xs"] assms by simp
  then show ?thesis unfolding split by simp
qed

lemma mag_bit_at:
  assumes "i < length xs" "b < 32"
  shows "unat (xs ! i) div 2 ^ b mod 2 = mag xs div 2 ^ (32 * i + b) mod 2"
proof -
  define m where "m = unat (xs ! i)"
  define r where "r = mag (drop (Suc i) xs)"
  note high = mag_from [OF assms(1), folded m_def r_def]
  have q: "base32 = 2 ^ b * (2 * 2 ^ (31 - b))" using assms(2) by (simp flip: power_add power_Suc)
  have "(m + base32 * r) div 2 ^ b = (m + 2 ^ b * (2 * (2 ^ (31 - b) * r))) div 2 ^ b"
    unfolding q by (simp only: mult.assoc)
  also have "\<dots> = m div 2 ^ b + 2 * (2 ^ (31 - b) * r)" by simp
  finally have "(m + base32 * r) div 2 ^ b mod 2 = m div 2 ^ b mod 2" by simp
  then show ?thesis unfolding limb_place div_mult2_eq high m_def [symmetric] by simp
qed

lemma mag_update:
  assumes "i < length xs" "unat y = unat (xs ! i) + v"
  shows "mag (xs[i := y]) = mag xs + base32 ^ i * v"
  using assms
proof (induction xs arbitrary: i)
  case (Cons x xs)
  then show ?case by (cases i) (simp_all add: distrib_left)
qed simp

lemma subtract_to_magnitude:
  assumes "num_wf a" "num_wf b" "\<not> n_negative a" "compare_magnitude a b \<noteq> OLess"
  shows "num_wf (subtract_magnitude a b) \<and> \<not> n_negative (subtract_magnitude a b) \<and>
    mag (n_limbs (subtract_magnitude a b)) = mag (n_limbs a) - mag (n_limbs b)"
proof -
  have "mag (n_limbs b) \<le> mag (n_limbs a)"
    using assms(4) compare_magnitude_exact [OF assms(1,2)] by (auto split: if_splits)
  from subtract_magnitude_exact [OF assms(1,2) this] this show ?thesis by linarith
qed

lemma magnitude_wf: "num_wf n \<Longrightarrow> num_wf (n\<lparr>n_negative := False\<rparr>)"
  by (simp add: num_wf_def)

lemma stored_small: "num_stored n \<Longrightarrow> 2 * mag (n_limbs n) < base32 ^ work_limbs"
proof -
  assume "num_stored n"
  then have "base32 ^ length (n_limbs n) \<le> base32 ^ max_limbs"
    by (intro power_increasing) (simp_all add: num_stored_def)
  with mag_bound [of "n_limbs n"] have "mag (n_limbs n) < base32 ^ max_limbs" by (rule less_le_trans)
  then have "2 * mag (n_limbs n) < base32 ^ 2 * base32 ^ max_limbs" by simp
  then show ?thesis unfolding work_limbs_def by (simp only: power_add mult.commute)
qed

lemma long_divide_exact:
  assumes "num_stored right" "num_wf remainder" "\<not> n_negative remainder"
    "mag (n_limbs remainder) < mag (n_limbs right)"
    "length quot = length (n_limbs left)" "k \<le> 32 * length (n_limbs left)" "2 ^ k dvd mag quot"
  shows "\<exists>q r. long_divide k left right quot remainder = Inr (q, r) \<and>
    num_wf r \<and> \<not> n_negative r \<and> length q = length quot \<and>
    mag q = mag quot + (mag (n_limbs remainder) * 2 ^ k + mag (n_limbs left) mod 2 ^ k) div mag (n_limbs right) \<and>
    mag (n_limbs r) = (mag (n_limbs remainder) * 2 ^ k + mag (n_limbs left) mod 2 ^ k) mod mag (n_limbs right)"
  using assms(2-)
proof (induction k arbitrary: remainder quot)
  case 0
  then show ?case by auto
next
  case (Suc k)
  let ?L = "mag (n_limbs left)" and ?d = "mag (n_limbs right)"
  let ?i = "k div 32" and ?o = "k mod 32" and ?m = "right\<lparr>n_negative := False\<rparr>"
  have wf: "num_wf right" "num_wf ?m" using assms(1) by (simp_all add: num_stored_def magnitude_wf)
  have "2 * mag (n_limbs remainder) < base32 ^ work_limbs"
    using stored_small [OF assms(1)] Suc.prems(3) by linarith
  then have "int (2 * mag (n_limbs remainder)) < int (base32 ^ work_limbs)" by (simp only: of_nat_less_iff)
  then have "\<bar>2 * num_int remainder\<bar> < int (base32 ^ work_limbs)"
    using Suc.prems(2) by (simp add: num_int_def)
  note shift = exact_num_Inr [OF shift_left_one_exact(1) [OF Suc.prems(1)] this]
  obtain s where s: "shift_left_one remainder = Inr s" "num_wf s" "\<not> n_negative s"
    "mag (n_limbs s) = 2 * mag (n_limbs remainder)"
    using shift shift_left_one_exact(2) [OF Suc.prems(1)] Suc.prems(2) by blast
  have i: "?i < length (n_limbs left)" using Suc.prems(5) by (simp add: less_mult_imp_div_less mult.commute)
  define c where "c = ?L div 2 ^ k mod 2"
  have test: "drop_bit ?o (num_limb left ?i) AND 1 = 1 \<longleftrightarrow> c = 1"
    unfolding word_unat_eq_iff unat_bit_at c_def using mag_bit_at [OF i, of ?o] i by (simp add: num_limb_def)
  define r where "r = (if c = 1 then set_low_bit s else s)"
  define D where "D = 2 * mag (n_limbs remainder) + c"
  have c: "c = 0 \<or> c = 1" by (auto simp: c_def)
  have r: "num_wf r" "\<not> n_negative r" "mag (n_limbs r) = D"
    using s set_low_bit_wf [of s] mag_set_low_bit [of s] c by (auto simp: r_def D_def)
  have split: "mag (n_limbs remainder) * 2 ^ Suc k + ?L mod 2 ^ Suc k = D * 2 ^ k + ?L mod 2 ^ k"
    by (simp add: D_def c_def mod_mult2_eq [of _ "2 ^ k" 2, simplified mult.commute [of _ 2]] algebra_simps)
  have step: "long_divide (Suc k) left right quot remainder =
      (if compare_magnitude r ?m \<noteq> OLess
       then long_divide k left right (quot[?i := quot ! ?i OR push_bit ?o 1]) (subtract_magnitude r ?m)
       else long_divide k left right quot r)"
    using s(1) test by (simp add: Let_def r_def)
  have less: "compare_magnitude r ?m = OLess \<longleftrightarrow> D < ?d"
    using compare_magnitude_exact [OF r(1) wf(2)] r(3) by simp
  show ?case
  proof (cases "D < ?d")
    case True
    moreover have "2 ^ k dvd mag quot" using Suc.prems(6) dvd_mult_left by auto
    ultimately show ?thesis
      unfolding step split using Suc.IH [of r quot] Suc.prems(4,5) r less by simp
  next
    case False
    have sub: "num_wf (subtract_magnitude r ?m)" "\<not> n_negative (subtract_magnitude r ?m)"
      "mag (n_limbs (subtract_magnitude r ?m)) = D - ?d"
      using subtract_to_magnitude [OF r(1) wf(2) r(2)] less False r(3) by auto
    let ?q = "quot[?i := quot ! ?i OR push_bit ?o 1]"
    have "mag quot div 2 ^ k mod 2 = 0" using Suc.prems(6) by (auto elim!: dvdE)
    then have "unat (quot ! ?i) div 2 ^ ?o mod 2 = 0"
      using mag_bit_at [of ?i quot ?o] i Suc.prems(4) by simp
    from unat_or_bit [OF this] have "unat (quot ! ?i OR push_bit ?o 1) = unat (quot ! ?i) + 2 ^ ?o" by simp
    from mag_update [OF _ this] have q: "mag ?q = mag quot + base32 ^ ?i * 2 ^ ?o"
      using i Suc.prems(4) by simp
    have q': "mag ?q = mag quot + 2 ^ k" using q limb_place [of ?i ?o] by simp
    have dvd: "2 ^ k dvd mag ?q" unfolding q' using Suc.prems(6) dvd_mult_left by auto
    have small: "D - ?d < ?d" using Suc.prems(3) c by (auto simp: D_def)
    show ?thesis
      unfolding step split
      using Suc.IH [OF sub(1,2) _ _ _ dvd] sub(3) small Suc.prems(4,5) less False q'
        div_mod_step [of "?L mod 2 ^ k" "2 ^ k" ?d D] by (simp add: add.assoc)
  qed
qed

text \<open>The quotient and the remainder from the magnitudes and the two signs.\<close>

lemma signed_div_mod:
  fixes a b :: nat
  shows "(if s then - int a else int a) = (if s \<noteq> t then - int (a div b) else int (a div b)) * (if t then - int b else int b) +
      (if s then - int (a mod b) else int (a mod b))"
proof -
  have "int a = int (a div b) * int b + int (a mod b)"
    by (metis div_mult_mod_eq of_nat_add of_nat_mult)
  then show ?thesis by auto
qed

lemma num_divide_shape:
  assumes "num_wf left" "num_stored right" "num_int right \<noteq> 0"
  shows "\<exists>q r. num_divide left right = Inr (q, r) \<and> num_wf q \<and> num_wf r \<and>
    mag (n_limbs q) = mag (n_limbs left) div mag (n_limbs right) \<and>
    mag (n_limbs r) = mag (n_limbs left) mod mag (n_limbs right) \<and>
    num_int q = (if n_negative left \<noteq> n_negative right then - int (mag (n_limbs q)) else int (mag (n_limbs q))) \<and>
    num_int r = (if n_negative left then - int (mag (n_limbs r)) else int (mag (n_limbs r)))"
proof -
  let ?a = "mag (n_limbs left)" and ?b = "mag (n_limbs right)"
  have right: "num_wf right" "\<not> num_is_zero right" "0 < ?b"
    using assms(2,3) num_int_zero_iff [of right] num_is_zero_iff [of right] by (simp_all add: num_stored_def)
  have less: "compare_magnitude left right = OLess \<longleftrightarrow> ?a < ?b"
    using compare_magnitude_exact [OF assms(1) right(1)] by simp
  consider (small) "?a < ?b" | (limb) "\<not> ?a < ?b" "length (n_limbs right) = 1 \<and> n_limbs right ! 0 \<noteq> 0"
    | (long) "\<not> ?a < ?b" "\<not> (length (n_limbs right) = 1 \<and> n_limbs right ! 0 \<noteq> 0)" by blast
  then show ?thesis
  proof cases
    case small
    then show ?thesis
      using right less assms(1) by (auto simp: num_divide_def num_wf_def num_int_def num_is_zero_def num_zero_def)
  next
    case limb
    let ?l = "n_limbs right ! 0" and ?n = "left\<lparr>n_negative := False\<rparr>"
    obtain q r where d: "divide_small ?n ?l = (q, r)" by (cases "divide_small ?n ?l") simp
    have b: "?b = unat ?l" using limb(2) by (cases "n_limbs right") auto
    note e = divide_small_exact [OF magnitude_wf [OF assms(1)] _ d]
    have q: "num_wf q" "mag (n_limbs q) = ?a div ?b" "unat r = ?a mod ?b" using e limb(2) b by auto
    show ?thesis
      using right less limb d q num_is_zero_iff [OF q(1)]
      by (auto simp: num_divide_def Let_def num_wf_def num_int_def num_is_zero_def num_zero_def work_limbs_def)
  next
    case long
    let ?n = "length (n_limbs left)"
    have pow: "(2::nat) ^ (?n * 32) = base32 ^ ?n" using limb_place [of ?n 0] by (simp add: mult.commute)
    obtain q r where d: "long_divide (?n * 32) left right (replicate ?n 0) num_zero = Inr (q, r)"
      "num_wf r" "\<not> n_negative r" "length q = ?n" "mag q = ?a div ?b" "mag (n_limbs r) = ?a mod ?b"
      using long_divide_exact [OF assms(2), of num_zero "replicate ?n 0" left "?n * 32"] right(3)
        mag_bound [of "n_limbs left"] unfolding pow by (auto simp: num_zero_def num_wf_def)
    let ?q = "\<lparr>n_negative = (n_negative left \<noteq> n_negative right) \<and> q \<noteq> [], n_limbs = q\<rparr>"
    let ?r = "r\<lparr>n_negative := n_negative left \<and> \<not> num_is_zero r\<rparr>"
    have eq: "num_divide left right = Inr (num_trim ?q, num_trim ?r)"
      using right(2) less long d(1) by (auto simp: num_divide_def)
    have len: "length q \<le> work_limbs" "length (n_limbs r) \<le> work_limbs"
      using assms(1) d(2,4) by (simp_all add: num_wf_def)
    have "num_wf (num_trim ?q)" "num_wf (num_trim ?r)"
      by (rule num_trim_wf, simp add: len)+
    moreover have "mag (n_limbs (num_trim ?q)) = mag q" "mag (n_limbs (num_trim ?r)) = mag (n_limbs r)"
      by (simp_all add: num_trim_def Let_def)
    moreover have "num_int (num_trim ?q) = (if n_negative left \<noteq> n_negative right then - int (mag q) else int (mag q))"
      unfolding num_trim_int by (cases "q = []") (simp_all add: num_int_def)
    moreover have "num_int (num_trim ?r) = (if n_negative left then - int (mag (n_limbs r)) else int (mag (n_limbs r)))"
      unfolding num_trim_int using num_is_zero_iff [OF d(2)] by (simp add: num_int_def)
    ultimately show ?thesis unfolding eq d(5,6)
      by (intro exI [of _ "num_trim ?q"] exI [of _ "num_trim ?r"]) (simp only: d(5,6) simp_thms)
  qed
qed

text \<open>
  The division of the language: it truncates, the remainder has the sign of the dividend, and the
  two give the dividend back.
\<close>

lemma num_divide_exact:
  assumes "num_wf left" "num_stored right" "num_int right \<noteq> 0"
  shows "\<exists>q r. num_divide left right = Inr (q, r) \<and> num_wf q \<and> num_wf r \<and>
    num_int left = num_int q * num_int right + num_int r \<and> \<bar>num_int r\<bar> < \<bar>num_int right\<bar> \<and>
    (num_int r \<noteq> 0 \<longrightarrow> (num_int r < 0 \<longleftrightarrow> num_int left < 0))"
proof -
  let ?a = "mag (n_limbs left)" and ?b = "mag (n_limbs right)"
  obtain q r where d: "num_divide left right = Inr (q, r)" "num_wf q" "num_wf r"
    "num_int q = (if n_negative left \<noteq> n_negative right then - int (?a div ?b) else int (?a div ?b))"
    "num_int r = (if n_negative left then - int (?a mod ?b) else int (?a mod ?b))"
    using num_divide_shape [OF assms] by auto
  have b: "0 < ?b" using assms(3) by (simp add: num_int_def split: if_splits)
  have "num_int left = num_int q * num_int right + num_int r"
    unfolding d(4,5) num_int_def [of left] num_int_def [of right] by (rule signed_div_mod)
  moreover have "\<bar>num_int r\<bar> < \<bar>num_int right\<bar>"
    unfolding d(5) num_int_def [of right] using b by simp
  moreover have "0 < ?a mod ?b \<Longrightarrow> 0 < ?a" by (cases "?a = 0") simp_all
  then have "num_int r \<noteq> 0 \<longrightarrow> (num_int r < 0 \<longleftrightarrow> num_int left < 0)"
    unfolding d(5) num_int_def [of left] by auto
  ultimately show ?thesis using d(1-3) by blast
qed

subsection \<open>Shifts\<close>

lemma exact_num_scaled:
  assumes "exact_num v r" "\<bar>v\<bar> \<le> \<bar>w\<bar>" "r = Inl e"
  shows "exact_num w (Inl e)"
  using assms by (auto simp: exact_num_def)

lemma shift_left_loop_exact:
  assumes "num_wf n"
  shows "exact_num (num_int n * 2 ^ turns) (shift_left_loop turns n)"
  using assms
proof (induction turns arbitrary: n)
  case (Suc turns)
  note one = shift_left_one_exact(1) [OF Suc.prems]
  show ?case
  proof (cases "shift_left_one n")
    case (Inl e)
    have "\<bar>2 * num_int n\<bar> * 1 \<le> \<bar>2 * num_int n\<bar> * 2 ^ turns" by (intro mult_left_mono) simp_all
    then have "\<bar>2 * num_int n\<bar> \<le> \<bar>num_int n * 2 ^ Suc turns\<bar>" by (simp add: abs_mult)
    then show ?thesis using exact_num_scaled [OF one _ Inl] Inl by simp
  next
    case (Inr m)
    then have "num_wf m" "num_int m = 2 * num_int n" using one by (simp_all add: exact_num_def)
    then show ?thesis using Suc.IH [of m] Inr by (simp add: mult_ac)
  qed
qed (simp add: exact_num_def)

lemma num_shift_left_exact:
  assumes "num_wf n"
  shows "exact_num (num_int n * 2 ^ turns) (num_shift_left n turns)"
  using shift_left_loop_exact [OF assms, of turns] num_trim_id
  by (cases "shift_left_loop turns n") (simp_all add: num_shift_left_def exact_num_def)

lemma num_two_stored: "num_stored num_two" "num_int num_two = 2"
  by (simp_all add: num_stored_def num_wf_def num_two_def work_limbs_def max_limbs_def num_int_def)

lemma num_one_stored: "num_wf num_one" "num_int num_one = 1"
  by (simp_all add: num_wf_def num_one_def work_limbs_def num_int_def)

lemma num_wf_bound: "num_wf n \<Longrightarrow> \<bar>num_int n\<bar> < int (base32 ^ work_limbs)"
proof -
  assume "num_wf n"
  then have "base32 ^ length (n_limbs n) \<le> base32 ^ work_limbs"
    by (intro power_increasing) (simp_all add: num_wf_def)
  with mag_bound [of "n_limbs n"] have "mag (n_limbs n) < base32 ^ work_limbs" by (rule less_le_trans)
  then have "int (mag (n_limbs n)) < int (base32 ^ work_limbs)" by (simp only: of_nat_less_iff)
  then show ?thesis by (simp add: num_int_def)
qed

text \<open>Truncation, corrected by one when a negative number leaves a remainder, is the floor.\<close>

lemma floor_half:
  assumes "(v :: int) = q * 2 + r" "\<bar>r\<bar> < 2" "r \<noteq> 0 \<longrightarrow> (r < 0 \<longleftrightarrow> v < 0)"
  shows "v div 2 = (if v < 0 \<and> r \<noteq> 0 then q - 1 else q)"
  using assms by auto

lemma shift_right_loop_exact:
  assumes "num_wf n" "negative \<longleftrightarrow> num_int n < 0"
  shows "\<exists>m. shift_right_loop turns negative n = Inr m \<and> num_wf m \<and> num_int m = num_int n div 2 ^ turns"
  using assms
proof (induction turns arbitrary: n)
  case (Suc turns)
  show ?case
  proof (cases "num_is_zero n")
    case True
    then show ?thesis using Suc.prems num_int_zero_iff by auto
  next
    case False
    obtain q r where d: "num_divide n num_two = Inr (q, r)" "num_wf q" "num_wf r"
      "num_int n = num_int q * 2 + num_int r" "\<bar>num_int r\<bar> < 2"
      "num_int r \<noteq> 0 \<longrightarrow> (num_int r < 0 \<longleftrightarrow> num_int n < 0)"
      using num_divide_exact [OF Suc.prems(1) num_two_stored(1)] num_two_stored(2) by auto
    note half = floor_half [OF d(4-6)]
    let ?c = "negative \<and> \<not> num_is_zero r"
    have c: "?c \<longleftrightarrow> num_int n < 0 \<and> num_int r \<noteq> 0"
      using Suc.prems(2) num_int_zero_iff [OF d(3)] by simp
    have "\<bar>num_int n div 2\<bar> < int (base32 ^ work_limbs)"
      using num_wf_bound [OF Suc.prems(1)] by linarith
    then have "\<exists>m. (if ?c then num_subtract q num_one else Inr q) = Inr m \<and> num_wf m \<and> num_int m = num_int n div 2"
      using exact_num_Inr [OF num_subtract_exact [OF d(2) num_one_stored(1)]] half d(2)
      unfolding c num_one_stored(2) by auto
    then obtain m where m: "(if ?c then num_subtract q num_one else Inr q) = Inr m" "num_wf m"
      "num_int m = num_int n div 2" by blast
    have "negative \<longleftrightarrow> num_int m < 0" using Suc.prems(2) m(3) by auto
    from Suc.IH [OF m(2) this] show ?thesis
      using d(1) m(1,3) False by (simp add: zdiv_zmult2_eq)
  qed
qed simp

lemma n_negative_iff: "num_wf n \<Longrightarrow> n_negative n \<longleftrightarrow> num_int n < 0"
  using num_is_zero_iff [of n] by (auto simp: num_int_def num_wf_def num_is_zero_def)

lemma num_shift_right_exact:
  assumes "num_wf n"
  shows "\<exists>m. num_shift_right n turns = Inr m \<and> num_wf m \<and> num_int m = num_int n div 2 ^ turns"
proof -
  obtain m where m: "shift_right_loop turns (n_negative n) n = Inr m" "num_wf m"
    "num_int m = num_int n div 2 ^ turns"
    using shift_right_loop_exact [OF assms n_negative_iff [OF assms]] by blast
  have "n_negative n \<Longrightarrow> num_int m < 0"
    unfolding m(3) n_negative_iff [OF assms] by (simp add: pos_imp_zdiv_neg_iff)
  then have "\<not> (n_negative n \<and> num_is_zero m)" using num_int_zero_iff [OF m(2)] by auto
  then show ?thesis using m by (auto simp: num_shift_right_def)
qed

subsection \<open>Powers and the machine integer\<close>

lemma to_i64_exact:
  assumes "num_wf n"
  shows "to_i64 n = (if - (2 ^ 63) \<le> num_int n \<and> num_int n < 2 ^ 63 then Some (num_int n) else None)"
proof (cases "2 < length (n_limbs n)")
  case True
  have "base32 ^ 2 \<le> base32 ^ (length (n_limbs n) - 1)" using True by (intro power_increasing) auto
  also have "\<dots> \<le> mag (n_limbs n)"
    using assms True by (intro mag_last) (auto simp: num_wf_def)
  finally have "18446744073709551616 \<le> mag (n_limbs n)" by simp
  then show ?thesis using True by (simp add: to_i64_def num_int_def)
next
  case False
  have m: "unat (num_limb n 0) + unat (num_limb n 1) * base32 = mag (n_limbs n)"
    using False by (cases "n_limbs n"; cases "tl (n_limbs n)") (auto simp: num_limb_def)
  show ?thesis
    using False unfolding to_i64_def num_int_def Let_def m by auto
qed

text \<open>
  What the heap can hold is a limb or two less than what the operations work in. \<open>heap_exact v r\<close>: the
  result is the well-formed number \<open>v\<close>, or the failure that \<open>v\<close> is too large to be stored.
\<close>

definition heap_exact :: "int \<Rightarrow> bigint_error + number \<Rightarrow> bool" where
  "heap_exact v r \<longleftrightarrow>
     (case r of
        Inr n \<Rightarrow> num_wf n \<and> num_int n = v
      | Inl e \<Rightarrow> e = TooLarge \<and> int (base32 ^ max_limbs) \<le> \<bar>v\<bar>)"

lemma exact_num_heap: "exact_num v r \<Longrightarrow> heap_exact v r"
proof -
  have "int (base32 ^ max_limbs) \<le> int (base32 ^ work_limbs)"
    by (intro of_nat_mono power_increasing) (simp_all add: work_limbs_def)
  then have "int (base32 ^ work_limbs) \<le> \<bar>v\<bar> \<Longrightarrow> int (base32 ^ max_limbs) \<le> \<bar>v\<bar>" by (rule order_trans)
  then show "exact_num v r \<Longrightarrow> heap_exact v r"
    by (cases r) (simp_all only: exact_num_def heap_exact_def sum.case simp_thms)
qed

lemma num_multiply_heap:
  assumes "num_wf a" "num_wf b"
  shows "heap_exact (num_int a * num_int b) (num_multiply a b)"
proof (cases "num_is_zero a \<or> num_is_zero b \<or> length (n_limbs a) + length (n_limbs b) \<le> work_limbs")
  case True
  then have "\<exists>n. num_multiply a b = Inr n \<and> num_wf n \<and> num_int n = num_int a * num_int b"
    using num_multiply_exact [OF assms] num_int_zero_iff [OF assms(1)] num_int_zero_iff [OF assms(2)]
    by (auto simp: num_multiply_def)
  then show ?thesis by (auto simp: heap_exact_def)
next
  case False
  let ?a = "length (n_limbs a)" and ?b = "length (n_limbs b)"
  have nz: "n_limbs a \<noteq> []" "n_limbs b \<noteq> []" using False by (simp_all add: num_is_zero_def)
  have "max_limbs \<le> (?a - 1) + (?b - 1)" using False by (simp add: work_limbs_def) linarith
  then have "base32 ^ max_limbs \<le> base32 ^ ((?a - 1) + (?b - 1))" by (intro power_increasing) auto
  also have "\<dots> \<le> mag (n_limbs a) * mag (n_limbs b)"
    unfolding power_add using assms nz by (intro mult_le_mono mag_last) (simp_all add: num_wf_def)
  finally have "int (base32 ^ max_limbs) \<le> int (mag (n_limbs a) * mag (n_limbs b))" by (rule of_nat_mono)
  also have "\<dots> = \<bar>num_int a * num_int b\<bar>" by (simp add: num_int_def abs_mult)
  finally show ?thesis
    using False by (simp add: heap_exact_def num_multiply_def Let_def del: of_nat_power)
qed

lemma power_loop_heap:
  assumes "num_wf result" "num_wf base"
  shows "heap_exact (num_int result * num_int base ^ turns) (power_loop turns result base)"
  using assms
proof (induction turns arbitrary: result)
  case 0
  then show ?case by (simp add: heap_exact_def)
next
  case (Suc turns)
  note mul = num_multiply_heap [OF Suc.prems(1,2)]
  show ?case
  proof (cases "num_multiply result base")
    case (Inr n)
    then show ?thesis using mul Suc.IH [of n] Suc.prems by (simp add: heap_exact_def mult_ac)
  next
    case (Inl e)
    have "0 < int (base32 ^ max_limbs)" by simp
    also have "\<dots> \<le> \<bar>num_int result * num_int base\<bar>"
      using Inl mul by (simp add: heap_exact_def del: of_nat_power)
    finally have nz: "num_int result * num_int base \<noteq> 0" by simp
    then have "1 \<le> \<bar>num_int base ^ turns\<bar>" unfolding power_abs by (intro one_le_power) auto
    then have "\<bar>num_int result * num_int base\<bar> * 1 \<le> \<bar>num_int result * num_int base\<bar> * \<bar>num_int base ^ turns\<bar>"
      by (intro mult_left_mono) simp_all
    then show ?thesis using Inl mul by (simp add: heap_exact_def abs_mult mult_ac)
  qed
qed

lemma num_power_heap:
  assumes "num_wf base" "num_wf exponent" "0 \<le> num_int exponent" "num_int exponent < 2 ^ 63"
  shows "heap_exact (num_int base ^ nat (num_int exponent)) (num_power base exponent)"
  using power_loop_heap [OF num_one_stored(1) assms(1), of "nat (num_int exponent)"]
    n_negative_iff [OF assms(2)] to_i64_exact [OF assms(2)] assms(3,4) num_one_stored(2)
  by (simp add: num_power_def)

subsection \<open>What the operations promise\<close>

text \<open>C8: sums, differences and products of big integers are exact: the result is the well-formed number
  that denotes the sum, the difference or the product of the integers, and the only failure is the
  size failure, when that integer is too large to be stored. Comparison is the order of the
  integers.\<close>

theorem bigint_ring_exact:
  assumes "num_wf a" "num_wf b"
  shows "heap_exact (num_int a + num_int b) (num_add a b) \<and>
    heap_exact (num_int a - num_int b) (num_subtract a b) \<and>
    heap_exact (num_int a * num_int b) (num_multiply a b) \<and>
    num_compare a b =
      (if num_int a < num_int b then OLess else if num_int a = num_int b then OEqual else OGreater)"
  using exact_num_heap [OF num_add_exact [OF assms]] exact_num_heap [OF num_subtract_exact [OF assms]]
    num_multiply_heap [OF assms] num_compare_exact [OF assms] by blast

theorem bigint_ring_exact_witness:
  "heap_exact (- 4294967296) (num_multiply \<lparr>n_negative = True, n_limbs = [65536]\<rparr> \<lparr>n_negative = False, n_limbs = [65536]\<rparr>)"
  using bigint_ring_exact [of "\<lparr>n_negative = True, n_limbs = [65536]\<rparr>" "\<lparr>n_negative = False, n_limbs = [65536]\<rparr>"]
  by (simp add: num_wf_def work_limbs_def num_int_def)

text \<open>C9: division of big integers truncates: a division by zero is reported as such, and otherwise a
  quotient and a remainder always exist, the dividend is the divisor times the quotient plus the
  remainder, the remainder is smaller than the divisor, and it has the dividend's sign.\<close>

theorem bigint_division:
  assumes "num_wf left" "num_stored right"
  shows "if num_int right = 0 then num_divide left right = Inl DivisionByZero
    else \<exists>q r. num_divide left right = Inr (q, r) \<and> num_wf q \<and> num_wf r \<and>
      num_int left = num_int q * num_int right + num_int r \<and> \<bar>num_int r\<bar> < \<bar>num_int right\<bar> \<and>
      (num_int r = 0 \<or> (num_int r < 0 \<longleftrightarrow> num_int left < 0))"
  using num_divide_exact [OF assms] num_int_zero_iff [of right] assms(2)
  by (auto simp: num_stored_def num_divide_def)

theorem bigint_division_witness:
  "\<exists>q r. num_divide \<lparr>n_negative = True, n_limbs = [7]\<rparr> \<lparr>n_negative = False, n_limbs = [0, 1]\<rparr> = Inr (q, r) \<and>
    num_wf q \<and> num_wf r \<and> - 7 = num_int q * 4294967296 + num_int r \<and> \<bar>num_int r\<bar> < 4294967296 \<and>
    (num_int r = 0 \<or> num_int r < 0)"
  using bigint_division [of "\<lparr>n_negative = True, n_limbs = [7]\<rparr>" "\<lparr>n_negative = False, n_limbs = [0, 1]\<rparr>"]
  by (simp add: num_wf_def num_stored_def work_limbs_def max_limbs_def num_int_def)

text \<open>C11: shifts and powers of big integers are exact: a shift to the left multiplies by the power of two
  or fails because the result is too large, a shift to the right always returns the floor of the
  quotient, for a negative number as well, and a power with an exponent that is a machine integer is the
  integer power or fails because it is too large.\<close>

theorem bigint_shift_power_exact:
  assumes "num_wf n" "num_wf exponent" "0 \<le> num_int exponent" "num_int exponent < 2 ^ 63"
  shows "heap_exact (num_int n * 2 ^ turns) (num_shift_left n turns) \<and>
    (\<exists>m. num_shift_right n turns = Inr m \<and> num_wf m \<and> num_int m = num_int n div 2 ^ turns) \<and>
    heap_exact (num_int n ^ nat (num_int exponent)) (num_power n exponent)"
  using exact_num_heap [OF num_shift_left_exact [OF assms(1)]] num_shift_right_exact [OF assms(1)]
    num_power_heap [OF assms] by blast

theorem bigint_shift_power_exact_witness:
  "heap_exact (- 27) (num_power \<lparr>n_negative = True, n_limbs = [3]\<rparr> \<lparr>n_negative = False, n_limbs = [3]\<rparr>) \<and>
   (\<exists>m. num_shift_right \<lparr>n_negative = True, n_limbs = [3]\<rparr> 1 = Inr m \<and> num_wf m \<and> num_int m = - 2)"
  using bigint_shift_power_exact [of "\<lparr>n_negative = True, n_limbs = [3]\<rparr>" "\<lparr>n_negative = False, n_limbs = [3]\<rparr>" 1]
  by (simp add: num_wf_def work_limbs_def num_int_def)

end
