(* ===== verification/Big_Int_Text.thy ===== *)
theory Big_Int_Text
  imports Big_Int_Divide
begin

text \<open>
  Numerals of the big integers: \<open>Text\<close> writes a number from its last digit to its first and
  \<open>Accumulator\<close> reads digits from the first to the last. What the one writes the other reads back,
  in every radix from two to thirty-six.
\<close>

subsection \<open>Numbers are determined by what they denote\<close>

lemma mag_inj: "length xs = length ys \<Longrightarrow> mag xs = mag ys \<Longrightarrow> xs = ys"
proof (induction xs ys rule: list_induct2)
  case (Cons x xs y ys)
  have "unat x = (unat x + base32 * mag xs) mod base32" using unat_limb [of x] by simp
  also have "\<dots> = (unat y + base32 * mag ys) mod base32" using Cons.prems by simp
  also have "\<dots> = unat y" using unat_limb [of y] by simp
  finally show ?case using Cons by (simp add: word_unat_eq_iff)
qed simp

lemma num_eqI:
  assumes "num_wf a" "num_wf b" "num_int a = num_int b"
  shows "a = b"
proof -
  have m: "mag (n_limbs a) = mag (n_limbs b)" using assms(3) num_int_magnitude by simp
  then have "length (n_limbs a) = length (n_limbs b)"
    using wf_length_less [OF assms(1,2)] wf_length_less [OF assms(2,1)] by (metis less_irrefl linorder_neqE_nat)
  then have "n_limbs a = n_limbs b" using m by (rule mag_inj)
  moreover have "n_negative a = n_negative b"
    using n_negative_iff [OF assms(1)] n_negative_iff [OF assms(2)] assms(3) by simp
  ultimately show ?thesis by (cases a; cases b) simp
qed

subsection \<open>Reading\<close>

lemma digit_value_char: "d < 36 \<Longrightarrow> digit_value (digit_char d) = Some d"
proof -
  assume d: "d < 36"
  have byte: "k < 256 \<Longrightarrow> unat (of_nat k :: byte) = k" for k by (simp add: unat_of_nat)
  have "unat (digit_char d) = (if d < 10 then 48 + d else 97 + d - 10)"
    unfolding digit_char_def using d byte [of "48 + d"] byte [of "97 + d - 10"] by simp
  then show ?thesis using d by (simp add: digit_value_def Let_def)
qed

lemma digit_char_not_separator: "d < 36 \<Longrightarrow> digit_char d \<noteq> 95"
  using digit_value_char [of d] by (auto simp: digit_value_def)

lemma acc_push_digit:
  assumes "2 \<le> acc_radix acc" "acc_radix acc \<le> 36" "d < acc_radix acc"
    "length (n_limbs (acc_value acc)) \<le> work_limbs"
    "mag (n_limbs (acc_value acc)) * acc_radix acc + d < base32 ^ work_limbs"
  shows "\<exists>acc'. acc_push acc (digit_char d) = Inr acc' \<and> acc_radix acc' = acc_radix acc \<and>
    length (n_limbs (acc_value acc')) \<le> work_limbs \<and> n_negative (acc_value acc') = n_negative (acc_value acc) \<and>
    mag (n_limbs (acc_value acc')) = mag (n_limbs (acc_value acc)) * acc_radix acc + d"
proof -
  let ?n = "acc_value acc" and ?r = "acc_radix acc"
  have u: "unat (of_nat ?r :: limb) = ?r" "unat (of_nat d :: limb) = d" using assms(2,3) by simp_all
  have "exact work_limbs (mag (n_limbs ?n) * ?r) (multiply_small_limbs (work_limbs - length (n_limbs ?n)) (n_limbs ?n) ?r 0)"
    using multiply_small_limbs_exact [of ?r 0 "n_limbs ?n" "work_limbs - length (n_limbs ?n)"] assms(2,4) by simp
  then obtain xs where xs: "multiply_small_limbs (work_limbs - length (n_limbs ?n)) (n_limbs ?n) ?r 0 = Inr xs"
    "mag xs = mag (n_limbs ?n) * ?r" "length xs \<le> work_limbs"
    using assms(5) by (auto simp: exact_def split: sum.splits)
  have "exact work_limbs (mag xs + d) (add_small_limbs (work_limbs - length xs) xs d)"
    using add_small_limbs_exact [of d xs "work_limbs - length xs"] assms(2,3) xs(3) by simp
  then obtain ys where ys: "add_small_limbs (work_limbs - length xs) xs d = Inr ys"
    "mag ys = mag xs + d" "length ys \<le> work_limbs"
    using assms(5) xs(2) by (auto simp: exact_def split: sum.splits)
  show ?thesis
    using assms xs ys u digit_value_char [of d] digit_char_not_separator [of d]
    by (simp add: acc_push_def multiply_small_def add_small_def)
qed

text \<open>The digits of \<open>m\<close> in a radix, the last one first.\<close>

definition numeral_digits :: "nat \<Rightarrow> nat \<Rightarrow> nat \<Rightarrow> byte list" where
  "numeral_digits radix m n = map (\<lambda>i. digit_char (m div radix ^ i mod radix)) [0..<n]"

lemma numeral_digits_Suc:
  "numeral_digits radix m (Suc n) = digit_char (m mod radix) # numeral_digits radix (m div radix) n"
  by (simp add: numeral_digits_def upt_conv_Cons map_Suc_upt [symmetric] div_mult2_eq comp_def del: upt_Suc)

lemma acc_push_all_digits:
  assumes "2 \<le> acc_radix acc" "acc_radix acc \<le> 36" "length (n_limbs (acc_value acc)) \<le> work_limbs"
    "mag (n_limbs (acc_value acc)) * acc_radix acc ^ n + m mod acc_radix acc ^ n < base32 ^ work_limbs"
  shows "\<exists>acc'. acc_push_all acc (rev (numeral_digits (acc_radix acc) m n)) = Inr acc' \<and>
    length (n_limbs (acc_value acc')) \<le> work_limbs \<and> n_negative (acc_value acc') = n_negative (acc_value acc) \<and>
    mag (n_limbs (acc_value acc')) = mag (n_limbs (acc_value acc)) * acc_radix acc ^ n + m mod acc_radix acc ^ n"
  using assms
proof (induction n arbitrary: acc)
  case 0
  then show ?case by (auto simp: numeral_digits_def)
next
  case (Suc n)
  let ?r = "acc_radix acc" and ?v = "mag (n_limbs (acc_value acc))"
  define d where "d = m div ?r ^ n mod ?r"
  have d: "d < ?r" using Suc.prems(1) by (simp add: d_def)
  have total: "(?v * ?r + d) * ?r ^ n + m mod ?r ^ n = ?v * ?r ^ Suc n + m mod ?r ^ Suc n"
    by (simp add: d_def mod_mult2_eq [of m "?r ^ n" ?r, simplified mult.commute [of _ ?r]] algebra_simps)
  have "(?v * ?r + d) * 1 \<le> (?v * ?r + d) * ?r ^ n"
    using Suc.prems(1) by (intro mult_le_mono2) simp
  also have "\<dots> \<le> ?v * ?r ^ Suc n + m mod ?r ^ Suc n" unfolding total [symmetric] by (rule le_add1)
  also note Suc.prems(4)
  finally have "?v * ?r + d < base32 ^ work_limbs" by simp
  from acc_push_digit [OF Suc.prems(1,2) d Suc.prems(3) this] obtain b where
    b: "acc_push acc (digit_char d) = Inr b" "acc_radix b = ?r" "length (n_limbs (acc_value b)) \<le> work_limbs"
    "n_negative (acc_value b) = n_negative (acc_value acc)" "mag (n_limbs (acc_value b)) = ?v * ?r + d" by blast
  have "rev (numeral_digits ?r m (Suc n)) = digit_char d # rev (numeral_digits ?r m n)"
    by (simp add: numeral_digits_def d_def)
  then show ?case
    using Suc.IH [of b] Suc.prems b total by simp
qed

subsection \<open>Writing\<close>

lemma radix_limb: "2 \<le> radix \<Longrightarrow> radix \<le> 36 \<Longrightarrow> (of_nat radix :: limb) \<noteq> 0 \<and> unat (of_nat radix :: limb) = radix"
  by (simp add: word_unat_eq_iff)

lemma divide_small_radix:
  assumes "num_wf n" "2 \<le> radix" "radix \<le> 36"
  obtains q d where "divide_small n (of_nat radix) = (q, d)" "num_wf q"
    "mag (n_limbs q) = mag (n_limbs n) div radix" "unat d = mag (n_limbs n) mod radix"
    "n_negative q \<longrightarrow> n_negative n"
proof -
  obtain q d where qd: "divide_small n (of_nat radix) = (q, d)" by (cases "divide_small n (of_nat radix)") simp
  then show ?thesis
    using that divide_small_exact [OF assms(1) _ qd] radix_limb [OF assms(2,3)] by simp
qed

text \<open>The fuel of \<open>count_digits\<close>: a number below \<open>2 ^ fuel\<close> has at most \<open>fuel\<close> digits.\<close>

lemma count_digits_fuel:
  assumes "num_wf n" "2 \<le> radix" "radix \<le> 36" "mag (n_limbs n) < 2 ^ fuel"
  shows "\<exists>k. count_digits (Suc fuel) n radix = Some k \<and> mag (n_limbs n) < radix ^ k \<and>
    (k = 0 \<longleftrightarrow> num_is_zero n)"
  using assms(1,4)
proof (induction fuel arbitrary: n)
  case 0
  then show ?case using num_is_zero_iff [of n] by simp
next
  case (Suc fuel)
  show ?case
  proof (cases "num_is_zero n")
    case True
    then show ?thesis using Suc.prems num_is_zero_iff [of n] by simp
  next
    case False
    obtain q d where q: "divide_small n (of_nat radix) = (q, d)" "num_wf q"
      "mag (n_limbs q) = mag (n_limbs n) div radix"
      by (rule divide_small_radix [OF Suc.prems(1) assms(2,3)])
    have "mag (n_limbs n) div radix \<le> mag (n_limbs n) div 2" using assms(2) by (simp add: div_le_mono2)
    also have "\<dots> < 2 ^ fuel" using Suc.prems(2) by (simp add: div_less_iff_less_mult)
    finally obtain k where k: "count_digits (Suc fuel) q radix = Some k" "mag (n_limbs n) div radix < radix ^ k"
      using Suc.IH [OF q(2)] q(3) by auto
    have "mag (n_limbs n) < radix ^ Suc k"
      using k(2) assms(2) by (simp add: div_less_iff_less_mult mult.commute)
    then show ?thesis
      using k(1) q(1) False by (simp only: count_digits.simps(2) [of "Suc fuel"] fst_conv) auto
  qed
qed

lemma chars_from_end_digits:
  assumes "num_wf (t_magnitude t)" "2 \<le> t_radix t" "t_radix t \<le> 36" "n \<le> t_remaining t"
  shows "\<exists>t'. chars_from_end (n + m) t = chars_from_end m t' @ rev (numeral_digits (t_radix t) (mag (n_limbs (t_magnitude t))) n) \<and>
    t_remaining t' = t_remaining t - n \<and> t_negative t' = t_negative t"
  using assms
proof (induction n arbitrary: t)
  case 0
  then show ?case by (auto simp: numeral_digits_def)
next
  case (Suc n)
  obtain q d where q: "divide_small (t_magnitude t) (of_nat (t_radix t)) = (q, d)" "num_wf q"
    "mag (n_limbs q) = mag (n_limbs (t_magnitude t)) div t_radix t"
    "unat d = mag (n_limbs (t_magnitude t)) mod t_radix t"
    by (rule divide_small_radix [OF Suc.prems(1-3)])
  let ?t = "t\<lparr>t_magnitude := q, t_remaining := t_remaining t - 1\<rparr>"
  have step: "next_char t = (digit_char (unat d), ?t)"
    using q(1) Suc.prems(4) by (simp add: next_char_def)
  have "n \<le> t_remaining t - 1" using Suc.prems(4) by simp
  then obtain t' where "chars_from_end (n + m) ?t =
      chars_from_end m t' @ rev (numeral_digits (t_radix t) (mag (n_limbs q)) n)"
    "t_remaining t' = t_remaining t - 1 - n" "t_negative t' = t_negative t"
    using Suc.IH [of ?t] Suc.prems q(2) by auto
  then show ?case
    using step q(3,4) by (auto simp: numeral_digits_Suc)
qed

lemma text_new_some:
  assumes "num_wf n" "2 \<le> radix" "radix \<le> 36"
  obtains t where "text_new n radix = Some t" "t_radix t = radix" "t_negative t = n_negative n"
    "num_wf (t_magnitude t)" "mag (n_limbs (t_magnitude t)) = mag (n_limbs n)"
    "0 < t_remaining t" "mag (n_limbs n) < radix ^ t_remaining t"
proof -
  let ?m = "n\<lparr>n_negative := False\<rparr>" and ?f = "length (n_limbs n) * 32"
  have "(2::nat) ^ ?f = base32 ^ length (n_limbs n)" using limb_place [of "length (n_limbs n)" 0] by (simp add: mult.commute)
  then have "mag (n_limbs ?m) < 2 ^ ?f" using mag_bound [of "n_limbs n"] by simp
  from count_digits_fuel [OF magnitude_wf [OF assms(1)] assms(2,3) this] obtain k where
    k: "count_digits (?f + 1) ?m radix = Some k" "mag (n_limbs n) < radix ^ k" "k = 0 \<longleftrightarrow> num_is_zero ?m" by auto
  show ?thesis
  proof (rule that)
    show "text_new n radix = Some \<lparr>t_magnitude = ?m, t_radix = radix, t_negative = n_negative n,
        t_remaining = (if num_is_zero ?m then 1 else k)\<rparr>"
      using k(1) assms(1) by (auto simp: text_new_def num_wf_def num_is_zero_def)
  qed (use k magnitude_wf [OF assms(1)] assms(2) in auto)
qed

text \<open>The text is a sign and digits, and the digits denote the magnitude.\<close>

lemma number_text_digits:
  assumes "num_wf n" "2 \<le> radix" "radix \<le> 36"
  shows "\<exists>k > 0. number_text n radix =
      Some ((if n_negative n then [45] else []) @ rev (numeral_digits radix (mag (n_limbs n)) k)) \<and>
    mag (n_limbs n) < radix ^ k"
proof -
  obtain t where t: "text_new n radix = Some t" "t_radix t = radix" "t_negative t = n_negative n"
    "num_wf (t_magnitude t)" "mag (n_limbs (t_magnitude t)) = mag (n_limbs n)"
    "0 < t_remaining t" "mag (n_limbs n) < radix ^ t_remaining t"
    by (rule text_new_some [OF assms])
  obtain t' where t': "chars_from_end (t_remaining t + (if t_negative t then 1 else 0)) t =
      chars_from_end (if t_negative t then 1 else 0) t' @ rev (numeral_digits radix (mag (n_limbs n)) (t_remaining t))"
    "t_remaining t' = 0" "t_negative t' = t_negative t"
    using chars_from_end_digits [OF t(4), of "t_remaining t" "if t_negative t then 1 else 0"] t(2,5) assms(2,3) by auto
  have "chars_from_end (if t_negative t then 1 else 0) t' = (if n_negative n then [45] else [])"
    using t'(2,3) t(3) by (simp add: next_char_def)
  then show ?thesis
    using t t'(1) by (auto simp: number_text_def text_length_def)
qed

lemma from_digits_exact:
  assumes "2 \<le> radix" "radix \<le> 36" "m < radix ^ k" "m < base32 ^ work_limbs"
  shows "\<exists>n. from_digits (rev (numeral_digits radix m k)) radix negative = Inr n \<and> num_wf n \<and>
    num_int n = (if negative then - int m else int m)"
proof -
  obtain acc where acc: "acc_push_all (acc_new radix) (rev (numeral_digits radix m k)) = Inr acc"
    "length (n_limbs (acc_value acc)) \<le> work_limbs" "mag (n_limbs (acc_value acc)) = m"
    using acc_push_all_digits [of "acc_new radix" k m] assms by (auto simp: acc_new_def num_zero_def)
  let ?n = "(acc_value acc)\<lparr>n_negative := negative \<and> \<not> num_is_zero (acc_value acc)\<rparr>"
  have "from_digits (rev (numeral_digits radix m k)) radix negative = Inr (num_trim ?n)"
    using acc(1) assms(1,2) by (simp add: from_digits_def acc_finish_signed_def acc_finish_def)
  moreover have "num_wf (num_trim ?n)" by (rule num_trim_wf) (simp add: acc(2))
  moreover have "num_is_zero (acc_value acc) \<Longrightarrow> m = 0" using acc(3) by (simp add: num_is_zero_def)
  then have "num_int (num_trim ?n) = (if negative then - int m else int m)"
    unfolding num_trim_int using acc(3) by (auto simp: num_int_def)
  ultimately show ?thesis by blast
qed

text \<open>C12: a big integer's text reads back: in every radix from two to thirty-six the text exists, it is
  a minus sign when the number is negative and then at least one digit, and those digits with that sign are
  read as the number itself.\<close>

theorem bigint_text_roundtrip:
  assumes "num_wf n" "2 \<le> radix" "radix \<le> 36"
  shows "\<exists>digits. number_text n radix = Some ((if n_negative n then [45] else []) @ digits) \<and>
    digits \<noteq> [] \<and> from_digits digits radix (n_negative n) = Inr n"
proof -
  obtain k where k: "0 < k" "number_text n radix =
      Some ((if n_negative n then [45] else []) @ rev (numeral_digits radix (mag (n_limbs n)) k))"
    "mag (n_limbs n) < radix ^ k" using number_text_digits [OF assms] by blast
  have "mag (n_limbs n) < base32 ^ work_limbs"
    using num_wf_bound [OF assms(1)] by (simp add: num_int_def split: if_splits del: of_nat_power)
  from from_digits_exact [OF assms(2,3) k(3) this, of "n_negative n"] obtain m where
    "from_digits (rev (numeral_digits radix (mag (n_limbs n)) k)) radix (n_negative n) = Inr m"
    "num_wf m" "num_int m = num_int n" by (auto simp: num_int_def)
  then show ?thesis using k(1,2) num_eqI [OF _ assms(1)] by (auto simp: numeral_digits_def)
qed

theorem bigint_text_roundtrip_witness:
  "\<exists>digits. number_text \<lparr>n_negative = True, n_limbs = [255]\<rparr> 16 = Some ([45] @ digits) \<and>
    digits \<noteq> [] \<and> from_digits digits 16 True = Inr \<lparr>n_negative = True, n_limbs = [255]\<rparr>"
  using bigint_text_roundtrip [of "\<lparr>n_negative = True, n_limbs = [255]\<rparr>" 16]
  by (simp add: num_wf_def work_limbs_def)

end
