(* ===== verification/Big_Int_Bits.thy ===== *)
theory Big_Int_Bits
  imports Big_Int_Divide
begin

text \<open>
  The bitwise operations of the big integers. A number is a sign and a magnitude, the language's
  operations are on two's complement without end: \<open>bitwise\<close> converts limb by limb, with a borrow
  for each operand and a carry for a negative result. It is the operation on the integers.
\<close>

unbundle bit_operations_syntax

abbreviation limb_at :: "int \<Rightarrow> nat \<Rightarrow> limb" where
  "limb_at v i \<equiv> word_of_int (v div 4294967296 ^ i)"

definition low_zero :: "int \<Rightarrow> nat \<Rightarrow> nat" where
  "low_zero v i = (if v mod 4294967296 ^ i = 0 then 1 else 0)"

lemma low_zero_0 [simp]: "low_zero v 0 = 1"
  by (simp add: low_zero_def)

lemma limb_zero_iff: "(word_of_int v :: limb) = 0 \<longleftrightarrow> v mod 4294967296 = 0"
  by (simp add: word_of_int_eq_0_iff dvd_eq_mod_eq_0)

lemma low_zero_Suc: "low_zero v (Suc i) = (if limb_at v i = 0 then low_zero v i else 0)"
proof -
  let ?p = "4294967296 ^ i :: int"
  have "v mod 4294967296 ^ Suc i = v mod (?p * 4294967296)" by (simp add: mult.commute)
  also have "\<dots> = ?p * (v div ?p mod 4294967296) + v mod ?p" by (rule zmod_zmult2_eq) simp
  finally have eq: "v mod 4294967296 ^ Suc i = ?p * (v div ?p mod 4294967296) + v mod ?p" .
  have "0 \<le> ?p * (v div ?p mod 4294967296)" "0 \<le> v mod ?p" by simp_all
  then show ?thesis
    unfolding low_zero_def limb_zero_iff eq by (auto simp: add_nonneg_eq_0_iff)
qed

text \<open>One limb of a two's complement negation.\<close>

lemma negate_limb:
  fixes v :: int and i :: nat
  defines "s \<equiv> unat (NOT (limb_at v i)) + low_zero v i"
  shows "of_nat s = limb_at (- v) i" "s div base32 = low_zero v (Suc i)"
proof -
  have "(- v) div 4294967296 ^ i = - (v div 4294967296 ^ i) - 1 + int (low_zero v i)"
    by (simp add: zdiv_zminus1_eq_if low_zero_def)
  then show "of_nat s = limb_at (- v) i"
    unfolding s_def by (simp add: not_eq_complement)
  have "unat (NOT (limb_at v i)) = base32 - 1 - unat (limb_at v i)"
  proof -
    have "NOT (limb_at v i) = - 1 - limb_at v i" by (simp add: not_eq_complement)
    moreover have "unat (- 1 :: limb) = base32 - 1" by (simp add: unsigned_minus_1_eq_mask mask_eq_exp_minus_1)
    ultimately show ?thesis by (simp add: unat_sub)
  qed
  moreover have "unat (limb_at v i) < base32" by (rule unat_limb)
  ultimately show "s div base32 = low_zero v (Suc i)"
    unfolding low_zero_Suc s_def by (auto simp: low_zero_def unat_gt_0 div_eq_0_iff)
qed

lemma num_limb_at: "num_limb n i = limb_at (int (mag (n_limbs n))) i"
proof -
  let ?xs = "n_limbs n"
  have whole: "int (mag ?xs) div 4294967296 ^ i = int (mag ?xs div base32 ^ i)"
    by (simp add: zdiv_int)
  show ?thesis
  proof (cases "i < length ?xs")
    case True
    have "(of_nat (mag ?xs div base32 ^ i) :: limb) = ?xs ! i"
      unfolding word_unat_eq_iff unat_of_nat_limb mag_from [OF True] using unat_limb [of "?xs ! i"] by simp
    then show ?thesis using True unfolding whole by (simp add: num_limb_def)
  next
    case False
    then have "base32 ^ length ?xs \<le> base32 ^ i" by (intro power_increasing) auto
    with mag_bound [of ?xs] have "mag ?xs < base32 ^ i" by (rule less_le_trans)
    then show ?thesis using False unfolding whole by (simp add: num_limb_def)
  qed
qed

lemma twos_complement_limb_exact:
  assumes "n_negative n \<longrightarrow> borrow = low_zero (int (mag (n_limbs n))) i"
  shows "\<exists>b. twos_complement_limb n i borrow = (limb_at (num_int n) i, b) \<and>
    (n_negative n \<longrightarrow> b = low_zero (int (mag (n_limbs n))) (Suc i))"
  using assms negate_limb [of "int (mag (n_limbs n))" i]
  by (simp add: twos_complement_limb_def num_limb_at num_int_def Let_def)

subsection \<open>The operations on integers\<close>

fun int_bitwise :: "bitwise_op \<Rightarrow> int \<Rightarrow> int \<Rightarrow> int" where
  "int_bitwise BitAnd a b = a AND b"
| "int_bitwise BitOr a b = a OR b"
| "int_bitwise BitXor a b = a XOR b"

lemma bitwise_combine_at:
  "bitwise_combine oper (limb_at a i) (limb_at b i) = limb_at (int_bitwise oper a b) i"
proof -
  have d: "v div 4294967296 ^ i = drop_bit (32 * i) v" for v :: int
    by (simp add: drop_bit_eq_div power_mult)
  show ?thesis unfolding d by (cases oper) (simp_all add: of_int_and_eq of_int_or_eq of_int_xor_eq)
qed

lemma int_bitwise_sign: "int_bitwise oper a b < 0 \<longleftrightarrow> bitwise_sign oper (a < 0) (b < 0)"
  by (cases oper) auto

lemma signed_bitwise:
  "signed_take_bit k (a AND b :: int) = signed_take_bit k a AND signed_take_bit k b"
  "signed_take_bit k (a OR b :: int) = signed_take_bit k a OR signed_take_bit k b"
  "signed_take_bit k (a XOR b :: int) = signed_take_bit k a XOR signed_take_bit k b"
  by (auto intro!: bit_eqI simp: bit_simps)

lemma int_bitwise_range:
  assumes "- (2 ^ k) \<le> a" "a < 2 ^ k" "- (2 ^ k) \<le> b" "b < 2 ^ k"
  shows "- (2 ^ k) \<le> int_bitwise oper a b \<and> int_bitwise oper a b < 2 ^ k"
proof -
  have "signed_take_bit k a = a" "signed_take_bit k b = b" using assms by (simp_all add: signed_take_bit_int_eq_self_iff)
  then have "signed_take_bit k (int_bitwise oper a b) = int_bitwise oper a b"
    by (cases oper) (metis (no_types) signed_bitwise int_bitwise.simps)+
  then show ?thesis by (simp add: signed_take_bit_int_eq_self_iff)
qed

subsection \<open>The limb loop\<close>

lemma bitwise_limbs_at:
  assumes "n_negative left \<longrightarrow> lb = low_zero (int (mag (n_limbs left))) i"
    "n_negative right \<longrightarrow> rb = low_zero (int (mag (n_limbs right))) i"
    "negative \<longrightarrow> carry = low_zero (int_bitwise oper (num_int left) (num_int right)) i"
  shows "bitwise_limbs oper left right negative n i lb rb carry =
    map (limb_at (if negative then - int_bitwise oper (num_int left) (num_int right)
                  else int_bitwise oper (num_int left) (num_int right))) [i..<i + n]"
  using assms
proof (induction n arbitrary: i lb rb carry)
  case (Suc n)
  let ?z = "int_bitwise oper (num_int left) (num_int right)"
  obtain lb' rb' where b: "twos_complement_limb left i lb = (limb_at (num_int left) i, lb')"
    "twos_complement_limb right i rb = (limb_at (num_int right) i, rb')"
    "n_negative left \<longrightarrow> lb' = low_zero (int (mag (n_limbs left))) (Suc i)"
    "n_negative right \<longrightarrow> rb' = low_zero (int (mag (n_limbs right))) (Suc i)"
    using twos_complement_limb_exact [OF Suc.prems(1)] twos_complement_limb_exact [OF Suc.prems(2)] by blast
  have split: "[i..<i + Suc n] = i # [Suc i..<Suc i + n]" by (simp add: upt_conv_Cons)
  show ?case
  proof (cases negative)
    case True
    define s where "s = unat (NOT (limb_at ?z i)) + carry"
    have s: "of_nat s = limb_at (- ?z) i" "s div base32 = low_zero ?z (Suc i)"
      using negate_limb [of ?z i] Suc.prems(3) True unfolding s_def by simp_all
    have "bitwise_limbs oper left right negative (Suc n) i lb rb carry =
        of_nat s # bitwise_limbs oper left right negative n (Suc i) lb' rb' (s div base32)"
      using b(1,2) True by (simp add: bitwise_combine_at Let_def s_def)
    then show ?thesis
      using Suc.IH [of lb' "Suc i" rb' "s div base32"] b(3,4) s True by (simp only: split) simp
  next
    case False
    then show ?thesis
      using Suc.IH [of lb' "Suc i" rb' carry] b False
      by (simp only: split) (simp add: bitwise_combine_at Let_def)
  qed
qed simp

lemma mag_limbs_at:
  assumes "0 \<le> v"
  shows "int (mag (map (limb_at v) [0..<n])) = v mod 4294967296 ^ n"
proof (induction n)
  case (Suc n)
  let ?p = "4294967296 ^ n :: int"
  have "int (unat (limb_at v n)) = v div ?p mod 4294967296"
    by (simp add: uint_word_of_int)
  then have "int (mag (map (limb_at v) [0..<Suc n])) = ?p * (v div ?p mod 4294967296) + v mod ?p"
    using Suc by (simp add: mag_append)
  also have "\<dots> = v mod (?p * 4294967296)" by (rule zmod_zmult2_eq [symmetric]) simp
  finally show ?case by (simp add: mult.commute)
qed simp

lemma signed_range:
  "0 \<le> (m :: int) \<Longrightarrow> m < p \<Longrightarrow> - p \<le> (if s then - m else m) \<and> (if s then - m else m) < p"
  by auto

lemma num_int_range:
  assumes "length (n_limbs n) \<le> k"
  shows "- (2 ^ (32 * k)) \<le> num_int n \<and> num_int n < 2 ^ (32 * k)"
proof -
  have "base32 ^ length (n_limbs n) \<le> base32 ^ k" using assms by (intro power_increasing) auto
  with mag_bound [of "n_limbs n"] have "mag (n_limbs n) < base32 ^ k" by (rule less_le_trans)
  then have "int (mag (n_limbs n)) < int (base32 ^ k)" by (simp only: of_nat_less_iff)
  moreover have "(2::int) ^ (32 * k) = int (base32 ^ k)" by (simp add: power_mult)
  ultimately have "int (mag (n_limbs n)) < 2 ^ (32 * k)" by simp
  moreover have "0 \<le> int (mag (n_limbs n))" by simp
  ultimately show ?thesis unfolding num_int_def by (rule signed_range [rotated])
qed

lemma num_bitwise_exact:
  assumes "num_stored left" "num_stored right"
  shows "\<exists>n. num_bitwise oper left right = Inr n \<and> num_wf n \<and>
    num_int n = int_bitwise oper (num_int left) (num_int right)"
proof -
  let ?k = "max (length (n_limbs left)) (length (n_limbs right))"
  let ?z = "int_bitwise oper (num_int left) (num_int right)"
  let ?neg = "bitwise_sign oper (n_negative left) (n_negative right)"
  let ?v = "if ?neg then - ?z else ?z"
  have wf: "num_wf left" "num_wf right" using assms by (simp_all add: num_stored_def)
  have neg: "?neg \<longleftrightarrow> ?z < 0"
    using int_bitwise_sign n_negative_iff [OF wf(1)] n_negative_iff [OF wf(2)] by simp
  have fits: "?k + 1 \<le> work_limbs" using assms by (simp add: num_stored_def work_limbs_def)
  have "- (2 ^ (32 * ?k)) \<le> ?z \<and> ?z < 2 ^ (32 * ?k)"
    using num_int_range [of left ?k] num_int_range [of right ?k] by (intro int_bitwise_range) simp_all
  moreover have "(2::int) ^ (32 * ?k) < 4294967296 ^ (?k + 1)" by (simp add: power_mult)
  ultimately have v: "0 \<le> ?v" "?v < 4294967296 ^ (?k + 1)" using neg by auto
  have limbs: "bitwise_limbs oper left right ?neg (?k + 1) 0 1 1 1 = map (limb_at ?v) [0..<?k + 1]"
    using bitwise_limbs_at [of left 1 0 right 1 ?neg 1 oper "?k + 1"] by simp
  let ?n = "\<lparr>n_negative = ?neg, n_limbs = map (limb_at ?v) [0..<?k + 1]\<rparr>"
  have "num_bitwise oper left right = Inr (num_trim ?n)"
    using fits unfolding num_bitwise_def Let_def limbs by simp
  moreover have "num_wf (num_trim ?n)" by (rule num_trim_wf) (use fits in simp)
  moreover have "int (mag (n_limbs ?n)) = ?v"
    using mag_limbs_at [OF v(1), of "?k + 1"] mod_pos_pos_trivial [OF v] by (simp only: number.simps)
  then have "num_int (num_trim ?n) = (if ?neg then - ?v else ?v)"
    unfolding num_trim_int num_int_def [of ?n] by (simp only: number.simps)
  then have "num_int (num_trim ?n) = ?z" by (cases ?neg) (simp_all only: if_True if_False minus_minus)
  ultimately show ?thesis by blast
qed

text \<open>C10: the bitwise operations of big integers are those of the integers in two's complement without
  end: on any two stored numbers, of either sign, the operation always returns, and the number it
  returns denotes the conjunction, the disjunction or the exclusive disjunction of the two integers.\<close>

theorem bigint_bitwise_exact:
  assumes "num_stored left" "num_stored right"
  shows "\<exists>n. num_bitwise oper left right = Inr n \<and> num_wf n \<and>
    num_int n = (case oper of BitAnd \<Rightarrow> num_int left AND num_int right
      | BitOr \<Rightarrow> num_int left OR num_int right | BitXor \<Rightarrow> num_int left XOR num_int right)"
  using num_bitwise_exact [OF assms, of oper] by (cases oper) simp_all

theorem bigint_bitwise_exact_witness:
  "\<exists>n. num_bitwise BitAnd \<lparr>n_negative = True, n_limbs = [4]\<rparr> \<lparr>n_negative = False, n_limbs = [7]\<rparr> = Inr n \<and>
    num_wf n \<and> num_int n = 4"
  using bigint_bitwise_exact [of "\<lparr>n_negative = True, n_limbs = [4]\<rparr>" "\<lparr>n_negative = False, n_limbs = [7]\<rparr>" BitAnd]
  by (simp add: num_stored_def num_wf_def work_limbs_def max_limbs_def num_int_def)

end
