(* ===== verification/Heap_Cells.thy ===== *)
theory Heap_Cells
  imports Js_Value
begin

text \<open>
  The isolate heap of \<^verbatim>\<open>modules/common/heap.rs\<close>: a byte arena filled from the bottom, a table of
  slots that handles name, and a mark-compact collection that runs in slices. The three borrowed
  slices of the source are lists of the record; their lengths never change. Counters are naturals
  with the 32-bit wrap or saturation of the source written out, generations are 32-bit words
  because handles carry them.

  \<open>cell_mut\<close> hands out a mutable slice; here a write goes through \<open>heap_cell_put\<close>, which replaces the
  bytes of the cell by bytes of the same length.
\<close>

subsection \<open>Slots and the heap record\<close>

datatype cell_kind =
  FreeCell | StringCell | SymbolCell | BigIntCell | ObjectCell | EnvironmentCell
| PropertyTableCell | ElementsCell

fun cell_kind_byte :: "cell_kind \<Rightarrow> nat" where
  "cell_kind_byte FreeCell = 0"
| "cell_kind_byte StringCell = 1"
| "cell_kind_byte SymbolCell = 2"
| "cell_kind_byte BigIntCell = 3"
| "cell_kind_byte ObjectCell = 4"
| "cell_kind_byte EnvironmentCell = 5"
| "cell_kind_byte PropertyTableCell = 6"
| "cell_kind_byte ElementsCell = 7"

definition cell_kind_from_byte :: "nat \<Rightarrow> cell_kind option" where
  "cell_kind_from_byte b =
     (if b = 0 then Some FreeCell
      else if b = 1 then Some StringCell
      else if b = 2 then Some SymbolCell
      else if b = 3 then Some BigIntCell
      else if b = 4 then Some ObjectCell
      else if b = 5 then Some EnvironmentCell
      else if b = 6 then Some PropertyTableCell
      else if b = 7 then Some ElementsCell
      else None)"

datatype heap_error = ArenaFull | SlotsFull | StaleHandle | Collecting

record slot =
  s_offset :: nat
  s_length :: nat
  s_generation :: "32 word"
  s_kind :: nat
  s_mark :: nat

abbreviation (input) WHITE :: nat where "WHITE \<equiv> 0"
abbreviation (input) GREY :: nat where "GREY \<equiv> 1"
abbreviation (input) BLACK :: nat where "BLACK \<equiv> 2"

abbreviation cell_header :: nat where "cell_header \<equiv> 8"

datatype phase = Idle | Marking | Compacting

definition slot_empty :: slot where
  "slot_empty = \<lparr>s_offset = 0, s_length = 0, s_generation = 1, s_kind = 0, s_mark = 0\<rparr>"

record heap_save =
  hs_worklist_length :: nat
  hs_used :: nat
  hs_live :: nat
  hs_phase :: nat
  hs_compact_read :: nat
  hs_compact_write :: nat
  hs_reclaimed_cells :: nat
  hs_reclaimed_bytes :: nat
  hs_free_hint :: nat

record heap =
  hp_arena :: "byte list"
  hp_slots :: "slot list"
  hp_worklist :: "nat list"
  hp_worklist_length :: nat
  hp_used :: nat
  hp_live :: nat
  hp_phase :: phase
  hp_compact_read :: nat
  hp_compact_write :: nat
  hp_reclaimed_cells :: nat
  hp_reclaimed_bytes :: nat
  hp_free_hint :: nat

fun phase_byte :: "phase \<Rightarrow> nat" where
  "phase_byte Idle = 0"
| "phase_byte Marking = 1"
| "phase_byte Compacting = 2"

definition heap_save_of :: "heap \<Rightarrow> heap_save" where
  "heap_save_of h =
     \<lparr>hs_worklist_length = hp_worklist_length h, hs_used = hp_used h, hs_live = hp_live h,
      hs_phase = phase_byte (hp_phase h), hs_compact_read = hp_compact_read h,
      hs_compact_write = hp_compact_write h, hs_reclaimed_cells = hp_reclaimed_cells h,
      hs_reclaimed_bytes = hp_reclaimed_bytes h, hs_free_hint = hp_free_hint h\<rparr>"

definition heap_restore :: "heap \<Rightarrow> heap_save \<Rightarrow> heap" where
  "heap_restore h save =
     h\<lparr>hp_worklist_length := hs_worklist_length save, hp_used := hs_used save,
       hp_live := hs_live save, hp_free_hint := hs_free_hint save,
       hp_phase := (if hs_phase save = 1 then Marking else if hs_phase save = 2 then Compacting else Idle),
       hp_compact_read := hs_compact_read save, hp_compact_write := hs_compact_write save,
       hp_reclaimed_cells := hs_reclaimed_cells save, hp_reclaimed_bytes := hs_reclaimed_bytes save\<rparr>"

definition heap_over :: "byte list \<Rightarrow> slot list \<Rightarrow> nat list \<Rightarrow> heap" where
  "heap_over arena slots worklist =
     \<lparr>hp_arena = arena, hp_slots = slots, hp_worklist = worklist, hp_worklist_length = 0,
      hp_used = 0, hp_live = 0, hp_phase = Idle, hp_compact_read = 0, hp_compact_write = 0,
      hp_reclaimed_cells = 0, hp_reclaimed_bytes = 0, hp_free_hint = 0\<rparr>"

definition heap_with_worklist :: "byte list \<Rightarrow> slot list \<Rightarrow> nat list \<Rightarrow> heap" where
  "heap_with_worklist arena slots worklist =
     heap_over arena (map (\<lambda>_. slot_empty) slots) worklist"

definition heap_new :: "byte list \<Rightarrow> slot list \<Rightarrow> heap" where
  "heap_new arena slots = heap_with_worklist arena slots []"

definition heap_adopt :: "byte list \<Rightarrow> slot list \<Rightarrow> nat list \<Rightarrow> heap_save \<Rightarrow> heap" where
  "heap_adopt arena slots worklist save = heap_restore (heap_over arena slots worklist) save"

definition heap_free_slots :: "heap \<Rightarrow> nat" where
  "heap_free_slots h = min (length (hp_slots h)) u32_max - hp_live h"

definition heap_slot_capacity :: "heap \<Rightarrow> nat" where
  "heap_slot_capacity h = (if length (hp_slots h) \<le> u32_max then length (hp_slots h) else 0)"

text \<open>\<open>free\<close> subtracts 32-bit words: where \<open>used\<close> is past the arena it wraps.\<close>

definition heap_free :: "heap \<Rightarrow> nat" where
  "heap_free h = (min (length (hp_arena h)) u32_max + 2 ^ 32 - hp_used h) mod 2 ^ 32"

subsection \<open>Allocation and access\<close>

definition align8 :: "nat \<Rightarrow> nat" where
  "align8 x = wadd32 x 7 div 8 * 8"

text \<open>The scan for a free slot: \<open>left\<close> slots are still to be looked at.\<close>

fun scan_slots :: "slot list \<Rightarrow> nat \<Rightarrow> nat \<Rightarrow> nat option" where
  "scan_slots slots 0 index = None"
| "scan_slots slots (Suc left) index =
     (let index = (if length slots \<le> index then 0 else index) in
      if cell_kind_from_byte (s_kind (slots ! index)) = Some FreeCell then Some index
      else scan_slots slots left (index + 1))"

definition take_slot :: "heap \<Rightarrow> heap_error + nat \<times> heap" where
  "take_slot h =
     (let slots = hp_slots h in
      case scan_slots slots (length slots) (min (hp_free_hint h) (length slots)) of
        None \<Rightarrow> Inl SlotsFull
      | Some index \<Rightarrow>
          if index \<le> u32_max then Inr (index, h\<lparr>hp_free_hint := min (index + 1) u32_max\<rparr>)
          else Inl SlotsFull)"

definition note_free :: "heap \<Rightarrow> nat \<Rightarrow> heap" where
  "note_free h index = (if index < hp_free_hint h then h\<lparr>hp_free_hint := index\<rparr> else h)"

definition heap_allocate :: "heap \<Rightarrow> cell_kind \<Rightarrow> nat \<Rightarrow> heap_error + handle \<times> heap" where
  "heap_allocate h kind n =
     (if hp_phase h \<noteq> Idle then Inl Collecting
      else
        (let header = align8 (hp_used h); start = wadd32 header cell_header in
         and_then (ok_or ArenaFull (checked_add32 start n)) (\<lambda>stop.
         if length (hp_arena h) < stop then Inl ArenaFull
         else
           and_then (take_slot h) (\<lambda>(index, h).
           case get_at (hp_slots h) index of
             None \<Rightarrow> Inl SlotsFull
           | Some slot \<Rightarrow>
               (let slot = slot\<lparr>s_offset := start, s_length := n, s_kind := cell_kind_byte kind, s_mark := WHITE\<rparr>;
                    arena = put_at (hp_arena h) header (replicate (stop - header) 0);
                    arena = put_at arena header (le_bytes 4 index @ le_bytes 4 n)
                in Inr (handle_new (of_nat index) (s_generation slot),
                        h\<lparr>hp_slots := (hp_slots h)[index := slot], hp_arena := arena,
                          hp_used := stop, hp_live := hp_live h + 1\<rparr>))))))"

definition heap_slot :: "heap \<Rightarrow> handle \<Rightarrow> heap_error + slot" where
  "heap_slot h hdl =
     and_then (ok_or StaleHandle (get_at (hp_slots h) (unat (h_index hdl)))) (\<lambda>slot.
       if s_generation slot \<noteq> h_generation hdl \<or> cell_kind_from_byte (s_kind slot) = Some FreeCell
       then Inl StaleHandle else Inr slot)"

definition heap_kind :: "heap \<Rightarrow> handle \<Rightarrow> heap_error + cell_kind" where
  "heap_kind h hdl =
     and_then (heap_slot h hdl) (\<lambda>slot. ok_or StaleHandle (cell_kind_from_byte (s_kind slot)))"

definition heap_cell :: "heap \<Rightarrow> handle \<Rightarrow> heap_error + byte list" where
  "heap_cell h hdl =
     and_then (heap_slot h hdl) (\<lambda>slot.
       ok_or StaleHandle (subrange (hp_arena h) (s_offset slot) (s_offset slot + s_length slot)))"

definition heap_cell_put :: "heap \<Rightarrow> handle \<Rightarrow> byte list \<Rightarrow> heap_error + heap" where
  "heap_cell_put h hdl bytes =
     and_then (heap_slot h hdl) (\<lambda>slot.
     and_then (ok_or StaleHandle (subrange (hp_arena h) (s_offset slot) (s_offset slot + s_length slot))) (\<lambda>old.
       Inr (h\<lparr>hp_arena := put_at (hp_arena h) (s_offset slot) (take (s_length slot) bytes)\<rparr>)))"

definition generation_next :: "32 word \<Rightarrow> 32 word" where
  "generation_next g = (if g = 0xFFFFFFFF then g else g + 1)"

definition slot_release :: "slot \<Rightarrow> slot" where
  "slot_release slot =
     slot\<lparr>s_kind := cell_kind_byte FreeCell, s_length := 0, s_generation := generation_next (s_generation slot)\<rparr>"

definition heap_retire :: "heap \<Rightarrow> handle \<Rightarrow> heap_error + heap" where
  "heap_retire h hdl =
     (let index = unat (h_index hdl) in
      case get_at (hp_slots h) index of
        None \<Rightarrow> Inl StaleHandle
      | Some slot \<Rightarrow>
          if s_generation slot \<noteq> h_generation hdl then Inl StaleHandle
          else
            Inr (note_free (h\<lparr>hp_slots := (hp_slots h)[index := slot_release slot],
                              hp_live := hp_live h - 1\<rparr>) index))"

subsection \<open>Marking\<close>

definition heap_shade :: "heap \<Rightarrow> handle \<Rightarrow> heap" where
  "heap_shade h hdl =
     (let index = unat (h_index hdl) in
      case get_at (hp_slots h) index of
        None \<Rightarrow> h
      | Some slot \<Rightarrow>
          if s_generation slot \<noteq> h_generation hdl \<or> s_kind slot = cell_kind_byte FreeCell then h
          else if s_mark slot \<noteq> WHITE then h
          else
            (let h = h\<lparr>hp_slots := (hp_slots h)[index := slot\<lparr>s_mark := GREY\<rparr>]\<rparr> in
             if hp_worklist_length h < length (hp_worklist h)
             then h\<lparr>hp_worklist := (hp_worklist h)[hp_worklist_length h := index],
                    hp_worklist_length := hp_worklist_length h + 1\<rparr>
             else h))"

definition begin_collection :: "heap \<Rightarrow> handle list \<Rightarrow> heap_error + heap" where
  "begin_collection h roots =
     (if hp_phase h \<noteq> Idle then Inl Collecting
      else
        Inr (fold (\<lambda>root h. heap_shade h root) roots
          (h\<lparr>hp_slots := map (\<lambda>slot. slot\<lparr>s_mark := WHITE\<rparr>) (hp_slots h), hp_worklist_length := 0,
             hp_phase := Marking, hp_reclaimed_cells := 0, hp_reclaimed_bytes := 0\<rparr>)))"

text \<open>The stack of grey cells, then the sweep for those that did not fit it.\<close>

fun pop_grey :: "nat list \<Rightarrow> slot list \<Rightarrow> nat \<Rightarrow> (nat option) option \<times> nat" where
  "pop_grey worklist slots 0 = (None, 0)"
| "pop_grey worklist slots (Suc n) =
     (case get_at worklist n of
        None \<Rightarrow> (Some None, n)
      | Some index \<Rightarrow>
          (case get_at slots index of
             None \<Rightarrow> (Some None, n)
           | Some slot \<Rightarrow> if s_mark slot = GREY then (Some (Some index), n) else pop_grey worklist slots n))"

fun sweep_grey :: "slot list \<Rightarrow> nat \<Rightarrow> nat option" where
  "sweep_grey [] index = None"
| "sweep_grey (slot # slots) index = (if s_mark slot = GREY then Some index else sweep_grey slots (index + 1))"

definition blacken :: "heap \<Rightarrow> nat \<Rightarrow> handle \<times> heap" where
  "blacken h index =
     (let slot = hp_slots h ! index in
      (handle_new (of_nat index) (s_generation slot),
       h\<lparr>hp_slots := (hp_slots h)[index := slot\<lparr>s_mark := BLACK\<rparr>]\<rparr>))"

definition next_grey :: "heap \<Rightarrow> handle option \<times> heap" where
  "next_grey h =
     (case pop_grey (hp_worklist h) (hp_slots h) (hp_worklist_length h) of
        (Some None, n) \<Rightarrow> (None, h\<lparr>hp_worklist_length := n\<rparr>)
      | (Some (Some index), n) \<Rightarrow>
          (case blacken (h\<lparr>hp_worklist_length := n\<rparr>) index of (hdl, h) \<Rightarrow> (Some hdl, h))
      | (None, n) \<Rightarrow>
          (let h = h\<lparr>hp_worklist_length := n\<rparr> in
           case sweep_grey (hp_slots h) 0 of
             None \<Rightarrow> (None, h)
           | Some index \<Rightarrow> (case blacken h index of (hdl, h) \<Rightarrow> (Some hdl, h))))"

subsection \<open>Compaction\<close>

definition begin_compaction :: "heap \<Rightarrow> heap" where
  "begin_compaction h =
     (if hp_phase h \<noteq> Marking then h
      else h\<lparr>hp_phase := Compacting, hp_compact_read := 0, hp_compact_write := 0\<rparr>)"

text \<open>The forward copy of a cell to a lower place, a byte at a time.\<close>

fun copy_down :: "byte list \<Rightarrow> nat \<Rightarrow> nat \<Rightarrow> nat \<Rightarrow> byte list" where
  "copy_down arena from to 0 = arena"
| "copy_down arena from to (Suc n) =
     (case get_at arena from of
        None \<Rightarrow> arena
      | Some b \<Rightarrow> copy_down (put_at arena to [b]) (from + 1) (to + 1) n)"

definition compact_header :: "heap \<Rightarrow> (nat \<times> nat) option" where
  "compact_header h =
     map_option (\<lambda>fields. (of_le (take 4 fields), of_le (drop 4 fields)))
       (subrange (hp_arena h) (hp_compact_read h) (hp_compact_read h + cell_header))"

definition cell_total :: "nat \<Rightarrow> nat" where
  "cell_total n = wadd32 cell_header n"

definition cell_is_live :: "heap \<Rightarrow> nat \<Rightarrow> bool" where
  "cell_is_live h index =
     (case get_at (hp_slots h) index of
        None \<Rightarrow> False
      | Some slot \<Rightarrow>
          s_kind slot \<noteq> cell_kind_byte FreeCell \<and> s_mark slot = BLACK \<and>
          s_offset slot = wadd32 (hp_compact_read h) cell_header)"

definition compact_keep :: "heap \<Rightarrow> nat \<Rightarrow> nat \<Rightarrow> heap" where
  "compact_keep h index n =
     (let destination = hp_compact_write h;
          arena = (if destination \<noteq> hp_compact_read h
                   then copy_down (hp_arena h) (hp_compact_read h) destination (cell_total n)
                   else hp_arena h);
          slots = (case get_at (hp_slots h) index of
                     None \<Rightarrow> hp_slots h
                   | Some slot \<Rightarrow> (hp_slots h)[index := slot\<lparr>s_offset := wadd32 destination cell_header\<rparr>])
      in h\<lparr>hp_arena := arena, hp_slots := slots,
           hp_compact_write := wadd32 destination (align8 (cell_total n))\<rparr>)"

definition compact_discard :: "heap \<Rightarrow> nat \<Rightarrow> nat \<Rightarrow> heap" where
  "compact_discard h index n =
     (let h = h\<lparr>hp_reclaimed_bytes := sadd32 (hp_reclaimed_bytes h) (align8 (cell_total n))\<rparr> in
      case get_at (hp_slots h) index of
        None \<Rightarrow> h
      | Some slot \<Rightarrow>
          if s_kind slot \<noteq> cell_kind_byte FreeCell
          then note_free (h\<lparr>hp_slots := (hp_slots h)[index := slot_release slot],
                            hp_live := hp_live h - 1,
                            hp_reclaimed_cells := sadd32 (hp_reclaimed_cells h) 1\<rparr>) index
          else h)"

definition compact_cell :: "heap \<Rightarrow> nat \<Rightarrow> nat \<Rightarrow> heap" where
  "compact_cell h index n =
     (let h' = (if cell_is_live h index then compact_keep h index n else compact_discard h index n)
      in h'\<lparr>hp_compact_read := wadd32 (hp_compact_read h') (align8 (cell_total n))\<rparr>)"

definition compact_finish :: "heap \<Rightarrow> heap" where
  "compact_finish h = h\<lparr>hp_used := hp_compact_write h, hp_phase := Idle, hp_worklist_length := 0\<rparr>"

text \<open>
  The loop over the arena. A header whose length wraps the aligned size to zero would hold it at one
  place for ever, so whether it returns is a question: \<open>None\<close> is a loop that does not.
\<close>

partial_function (option) compact_loop :: "heap \<Rightarrow> nat \<Rightarrow> nat \<Rightarrow> (bool \<times> heap) option" where
  "compact_loop h budget moved =
     (if \<not> hp_compact_read h < hp_used h then Some (True, compact_finish h)
      else if budget \<le> moved then Some (False, h)
      else
        (case compact_header h of
           None \<Rightarrow> Some (True, compact_finish h)
         | Some (index, n) \<Rightarrow>
             compact_loop (compact_cell h index n) budget (sadd32 moved (align8 (cell_total n)))))"

definition compact_step :: "heap \<Rightarrow> nat \<Rightarrow> (bool \<times> heap) option" where
  "compact_step h budget =
     (if hp_phase h \<noteq> Compacting then Some (True, h) else compact_loop h budget 0)"

end
