(* ===== verification/Heap_Store.thy ===== *)
theory Heap_Store
  imports Heap_Cells
begin

text \<open>
  What the heap promises its clients. \<open>store h\<close> is the abstract state, a map from handles to a kind
  and bytes. The invariant says the arena below the mark is a row of cells, each with a header that
  names its slot and a slot that points back; allocation and writing keep it and are an insertion
  and an update of the map.
\<close>

subsection \<open>The abstract store\<close>

definition store :: "heap \<Rightarrow> handle \<Rightarrow> (cell_kind \<times> byte list) option" where
  "store h hdl =
     (case (heap_kind h hdl, heap_cell h hdl) of (Inr k, Inr bytes) \<Rightarrow> Some (k, bytes) | _ \<Rightarrow> None)"

lemma kind_from_byte_free [simp]: "cell_kind_from_byte b = Some FreeCell \<longleftrightarrow> b = 0"
  by (simp add: cell_kind_from_byte_def)

lemma kind_from_byte_byte [simp]: "cell_kind_from_byte (cell_kind_byte k) = Some k"
  by (cases k) (simp_all add: cell_kind_from_byte_def)

lemma cell_kind_byte_zero [simp]: "cell_kind_byte k = 0 \<longleftrightarrow> k = FreeCell" "0 < cell_kind_byte k \<longleftrightarrow> k \<noteq> FreeCell"
  by (cases k; simp)+

lemma cell_kind_byte_le: "cell_kind_byte k \<le> 7"
  by (cases k) simp_all

lemma kind_from_byte_some: "b \<le> 7 \<Longrightarrow> \<exists>k. cell_kind_from_byte b = Some k \<and> cell_kind_byte k = b"
  by (auto simp: cell_kind_from_byte_def)

definition slot_names :: "slot list \<Rightarrow> handle \<Rightarrow> bool" where
  "slot_names slots hdl \<longleftrightarrow> unat (h_index hdl) < length slots \<and>
     s_generation (slots ! unat (h_index hdl)) = h_generation hdl \<and> s_kind (slots ! unat (h_index hdl)) \<noteq> 0"

lemma heap_slot_Inr:
  "heap_slot h hdl = Inr s \<longleftrightarrow> slot_names (hp_slots h) hdl \<and> s = hp_slots h ! unat (h_index hdl)"
  by (auto simp: heap_slot_def slot_names_def get_at_def ok_or_def)

lemma heap_slot_Inl: "heap_slot h hdl = Inl e \<longleftrightarrow> \<not> slot_names (hp_slots h) hdl \<and> e = StaleHandle"
  by (auto simp: heap_slot_def slot_names_def get_at_def ok_or_def)

lemma store_eq:
  "store h hdl =
     (if slot_names (hp_slots h) hdl then
        (let s = hp_slots h ! unat (h_index hdl) in
         case (cell_kind_from_byte (s_kind s), subrange (hp_arena h) (s_offset s) (s_offset s + s_length s)) of
           (Some k, Some bytes) \<Rightarrow> Some (k, bytes)
         | _ \<Rightarrow> None)
      else None)"
proof (cases "slot_names (hp_slots h) hdl")
  case True
  then have "heap_slot h hdl = Inr (hp_slots h ! unat (h_index hdl))" by (simp add: heap_slot_Inr)
  then show ?thesis using True
    by (auto simp: store_def heap_kind_def heap_cell_def ok_or_def Let_def split: option.splits)
next
  case False
  then have "heap_slot h hdl = Inl StaleHandle" by (simp add: heap_slot_Inl)
  then show ?thesis using False by (simp add: store_def heap_kind_def)
qed

subsection \<open>The row of cells\<close>

definition span :: "nat \<Rightarrow> nat" where
  "span n = (n + 15) div 8 * 8"

fun positions :: "nat \<Rightarrow> (nat \<times> nat) list \<Rightarrow> (nat \<times> nat \<times> nat) list" where
  "positions p [] = []"
| "positions p ((i, n) # cs) = (p, i, n) # positions (p + span n) cs"

fun row_end :: "nat \<Rightarrow> (nat \<times> nat) list \<Rightarrow> nat" where
  "row_end p [] = p"
| "row_end p ((i, n) # cs) = row_end (p + span n) cs"

definition cell_ok :: "byte list \<Rightarrow> slot list \<Rightarrow> nat \<times> nat \<times> nat \<Rightarrow> bool" where
  "cell_ok arena slots = (\<lambda>(p, i, n).
     p + 8 + n \<le> length arena \<and> subrange arena p (p + 8) = Some (le_bytes 4 i @ le_bytes 4 n) \<and>
     i < length slots \<and> s_kind (slots ! i) \<noteq> 0 \<and> s_offset (slots ! i) = p + 8 \<and> s_length (slots ! i) = n)"

definition live_indices :: "slot list \<Rightarrow> nat set" where
  "live_indices slots = {i. i < length slots \<and> s_kind (slots ! i) \<noteq> 0}"

definition heap_inv :: "heap \<Rightarrow> (nat \<times> nat) list \<Rightarrow> bool" where
  "heap_inv h cs \<longleftrightarrow>
     length (hp_arena h) + 31 \<le> u32_max \<and> length (hp_slots h) \<le> u32_max \<and>
     (\<forall>c \<in> set (positions 0 cs). cell_ok (hp_arena h) (hp_slots h) c) \<and>
     distinct (map fst cs) \<and> fst ` set cs = live_indices (hp_slots h) \<and>
     (\<forall>s \<in> set (hp_slots h). s_kind s \<le> 7) \<and>
     (hp_used h + 7) div 8 * 8 = row_end 0 cs \<and> hp_live h = length cs"

lemma span_le: "n + 8 \<le> span n" "span n \<le> n + 15" "8 dvd span n"
  by (simp_all add: span_def)

lemma positions_append: "positions p (cs @ ds) = positions p cs @ positions (row_end p cs) ds"
  by (induction p cs rule: positions.induct) simp_all

lemma row_end_append: "row_end p (cs @ ds) = row_end (row_end p cs) ds"
  by (induction p cs rule: row_end.induct) simp_all

lemma row_end_ge: "p \<le> row_end p cs"
  by (induction p cs rule: row_end.induct) simp_all

lemma row_end_dvd: "8 dvd p \<Longrightarrow> 8 dvd row_end p cs"
  by (induction p cs rule: row_end.induct) (simp_all add: span_le)

lemma positions_in:
  "(p, i, n) \<in> set (positions q cs) \<Longrightarrow> q \<le> p \<and> p + span n \<le> row_end q cs \<and> (i, n) \<in> set cs"
proof (induction q cs rule: positions.induct)
  case (2 q j m cs)
  then show ?case using row_end_ge [of "q + span m" cs] by auto
qed simp

lemma positions_ex: "(i, n) \<in> set cs \<Longrightarrow> \<exists>p. (p, i, n) \<in> set (positions q cs)"
  by (induction q cs rule: positions.induct) auto

lemma positions_disjoint:
  assumes "(p, i, n) \<in> set (positions r cs)" "(q, j, m) \<in> set (positions r cs)" "i \<noteq> j"
  shows "p + span n \<le> q \<or> q + span m \<le> p"
  using assms
proof (induction r cs rule: positions.induct)
  case (2 r k l cs)
  then show ?case using positions_in [of _ _ _ "r + span l" cs] by auto
qed simp

lemma row_end_bound:
  assumes "\<forall>c \<in> set (positions p cs). cell_ok arena slots c" "p \<le> length arena + 7"
  shows "row_end p cs \<le> length arena + 7"
  using assms
proof (induction p cs rule: positions.induct)
  case (2 p i n cs)
  then show ?case using span_le(2) [of n] by (auto simp: cell_ok_def)
qed simp

text \<open>A cell depends on its own bytes and its own slot.\<close>

lemma cell_ok_cong:
  assumes "cell_ok arena slots (p, i, n)" "length arena' = length arena" "length slots' = length slots"
    "subrange arena' p (p + 8) = subrange arena p (p + 8)" "slots' ! i = slots ! i"
  shows "cell_ok arena' slots' (p, i, n)"
  using assms by (simp add: cell_ok_def)

lemma heap_inv_cell:
  assumes "heap_inv h cs" "slot_names (hp_slots h) hdl"
  shows "\<exists>p n. (p, unat (h_index hdl), n) \<in> set (positions 0 cs) \<and>
    cell_ok (hp_arena h) (hp_slots h) (p, unat (h_index hdl), n)"
proof -
  have "unat (h_index hdl) \<in> fst ` set cs"
    using assms by (simp add: heap_inv_def live_indices_def slot_names_def)
  then obtain n where "(unat (h_index hdl), n) \<in> set cs" by auto
  from positions_ex [OF this, of 0] assms(1) show ?thesis unfolding heap_inv_def by blast
qed

text \<open>A handle whose slot keeps its kind, generation and length and whose bytes are the same reads the same.\<close>

lemma store_moved:
  assumes "length (hp_slots h') = length (hp_slots h)"
    "s_kind (hp_slots h' ! unat (h_index k)) = s_kind (hp_slots h ! unat (h_index k))"
    "s_generation (hp_slots h' ! unat (h_index k)) = s_generation (hp_slots h ! unat (h_index k))"
    "slot_names (hp_slots h) k \<Longrightarrow>
       (let s = hp_slots h ! unat (h_index k); s' = hp_slots h' ! unat (h_index k) in
        subrange (hp_arena h') (s_offset s') (s_offset s' + s_length s') =
        subrange (hp_arena h) (s_offset s) (s_offset s + s_length s))"
  shows "store h' k = store h k"
proof (cases "slot_names (hp_slots h) k")
  case True
  then show ?thesis
    using assms(4) unfolding store_eq slot_names_def assms(1-3) Let_def by (simp only: simp_thms)
next
  case False
  then have "\<not> slot_names (hp_slots h') k" unfolding slot_names_def assms(1-3) .
  then show ?thesis using False by (simp add: store_eq)
qed

lemma store_frame:
  assumes "length (hp_slots h') = length (hp_slots h)" "hp_slots h' ! unat (h_index k) = hp_slots h ! unat (h_index k)"
    "\<And>p n. (p, unat (h_index k), n) \<in> set (positions 0 cs) \<Longrightarrow>
       subrange (hp_arena h') (p + 8) (p + 8 + n) = subrange (hp_arena h) (p + 8) (p + 8 + n)"
    "heap_inv h cs"
  shows "store h' k = store h k"
proof (rule store_moved)
  assume "slot_names (hp_slots h) k"
  from heap_inv_cell [OF assms(4) this] obtain p n where
    c: "(p, unat (h_index k), n) \<in> set (positions 0 cs)"
    "cell_ok (hp_arena h) (hp_slots h) (p, unat (h_index k), n)" by blast
  then show "let s = hp_slots h ! unat (h_index k); s' = hp_slots h' ! unat (h_index k) in
      subrange (hp_arena h') (s_offset s') (s_offset s' + s_length s') =
      subrange (hp_arena h) (s_offset s) (s_offset s + s_length s)"
    using assms(2,3) by (simp add: cell_ok_def)
qed (simp_all add: assms(1,2))

lemma store_live:
  assumes "heap_inv h cs" "slot_names (hp_slots h) hdl"
  shows "\<exists>k bytes. store h hdl = Some (k, bytes)"
proof -
  obtain p n where c: "cell_ok (hp_arena h) (hp_slots h) (p, unat (h_index hdl), n)"
    using heap_inv_cell [OF assms] by blast
  have "s_kind (hp_slots h ! unat (h_index hdl)) \<le> 7"
    using assms by (simp add: heap_inv_def slot_names_def)
  then obtain k where "cell_kind_from_byte (s_kind (hp_slots h ! unat (h_index hdl))) = Some k"
    using kind_from_byte_some by blast
  moreover have "subrange (hp_arena h) (p + 8) (p + 8 + n) \<noteq> None"
    using c by (auto simp: cell_ok_def subrange_None)
  ultimately show ?thesis
    using c assms(2) by (auto simp: store_eq cell_ok_def Let_def)
qed

lemma store_None_iff: "heap_inv h cs \<Longrightarrow> store h hdl = None \<longleftrightarrow> \<not> slot_names (hp_slots h) hdl"
  using store_live [of h cs hdl] by (auto simp: store_eq)

subsection \<open>Finding a slot\<close>

lemma scan_slots_Some:
  assumes "scan_slots slots k index = Some j" "slots \<noteq> []"
  shows "j < length slots \<and> s_kind (slots ! j) = 0"
  using assms
proof (induction k arbitrary: index)
  case (Suc k)
  then show ?case by (auto simp: Let_def split: if_splits)
qed simp

text \<open>The scan wraps once and looks at every slot.\<close>

lemma scan_slots_None:
  assumes "scan_slots slots k index = None" "d < k" "index \<le> length slots" "slots \<noteq> []"
  shows "s_kind (slots ! ((index + d) mod length slots)) \<noteq> 0"
  using assms
proof (induction k arbitrary: index d)
  case (Suc k)
  define at where "at = (if length slots \<le> index then 0 else index)"
  have at: "at < length slots" "s_kind (slots ! at) \<noteq> 0" "scan_slots slots k (at + 1) = None"
    using Suc.prems by (auto simp: at_def Let_def split: if_splits)
  have same: "(index + d) mod length slots = (at + d) mod length slots"
    using Suc.prems(3) by (auto simp: at_def)
  show ?case
  proof (cases d)
    case 0
    then show ?thesis unfolding same using at by simp
  next
    case (Suc e)
    then show ?thesis unfolding same using Suc.IH [OF at(3), of e] Suc.prems at(1) by simp
  qed
qed simp

lemma scan_slots_complete:
  assumes "scan_slots slots (length slots) index = None" "index \<le> length slots" "i < length slots"
  shows "s_kind (slots ! i) \<noteq> 0"
proof -
  let ?n = "length slots"
  let ?d = "(i + ?n - index) mod ?n"
  have d: "?d < ?n" using assms(3) by (intro mod_less_divisor) linarith
  have "slots \<noteq> []" using assms(3) by auto
  with assms(1,2) d have "s_kind (slots ! ((index + ?d) mod ?n)) \<noteq> 0"
    by (intro scan_slots_None)
  moreover have "(index + ?d) mod ?n = (index + (i + ?n - index)) mod ?n" by (simp add: mod_simps)
  then have "(index + ?d) mod ?n = i" using assms(2,3) by simp
  ultimately show ?thesis by simp
qed

lemma take_slot_Inr:
  assumes "take_slot h = Inr (index, h')"
  shows "index < length (hp_slots h) \<and> s_kind (hp_slots h ! index) = 0 \<and> index \<le> u32_max \<and>
    (\<exists>hint. h' = h\<lparr>hp_free_hint := hint\<rparr>)"
proof -
  have scan: "scan_slots (hp_slots h) (length (hp_slots h)) (min (hp_free_hint h) (length (hp_slots h))) = Some index"
    "index \<le> u32_max" "\<exists>hint. h' = h\<lparr>hp_free_hint := hint\<rparr>"
    using assms by (auto simp: take_slot_def Let_def split: option.splits if_splits)
  moreover have "hp_slots h \<noteq> []" using scan(1) by (cases "hp_slots h") auto
  ultimately show ?thesis using scan_slots_Some [OF scan(1)] by simp
qed

lemma take_slot_Inl:
  assumes "length (hp_slots h) \<le> u32_max"
  shows "take_slot h = Inl e \<longleftrightarrow> e = SlotsFull \<and> live_indices (hp_slots h) = {..<length (hp_slots h)}"
proof (cases "scan_slots (hp_slots h) (length (hp_slots h)) (min (hp_free_hint h) (length (hp_slots h)))")
  case None
  then have "live_indices (hp_slots h) = {..<length (hp_slots h)}"
    using scan_slots_complete [OF None] by (auto simp: live_indices_def)
  moreover have "take_slot h = Inl SlotsFull" using None by (simp add: take_slot_def Let_def)
  ultimately show ?thesis by auto
next
  case (Some j)
  moreover have "hp_slots h \<noteq> []" using Some by (cases "hp_slots h") auto
  ultimately have "j < length (hp_slots h)" "s_kind (hp_slots h ! j) = 0"
    using scan_slots_Some by blast+
  moreover have "j \<notin> live_indices (hp_slots h)" using calculation(2) by (simp add: live_indices_def)
  moreover have "\<exists>r. take_slot h = Inr r"
    using Some assms calculation(1) by (simp add: take_slot_def Let_def)
  ultimately show ?thesis by auto
qed

subsection \<open>Allocation\<close>

text \<open>Where the next cell goes, and how an allocation ends.\<close>

lemma align8_used:
  assumes "heap_inv h cs"
  shows "align8 (hp_used h) = row_end 0 cs" "hp_used h \<le> row_end 0 cs" "row_end 0 cs \<le> length (hp_arena h) + 7"
    "wadd32 (row_end 0 cs) cell_header = row_end 0 cs + 8"
proof -
  show b: "row_end 0 cs \<le> length (hp_arena h) + 7"
    using assms row_end_bound [of 0 cs "hp_arena h" "hp_slots h"] by (simp add: heap_inv_def)
  have u: "(hp_used h + 7) div 8 * 8 = row_end 0 cs" using assms by (simp add: heap_inv_def)
  then show "hp_used h \<le> row_end 0 cs" by linarith
  then have "hp_used h + 7 \<le> u32_max" "row_end 0 cs + 8 \<le> u32_max"
    using b assms by (simp_all add: heap_inv_def)
  then show "align8 (hp_used h) = row_end 0 cs" "wadd32 (row_end 0 cs) cell_header = row_end 0 cs + 8"
    using u by (simp_all add: align8_def)
qed

lemma align8_stop:
  assumes "8 dvd p" shows "(p + 8 + n + 7) div 8 * 8 = p + span n"
proof -
  obtain q where q: "p = 8 * q" using assms by (elim dvdE)
  then have "p + 8 + n + 7 = (n + 15) + 8 * q" by simp
  then have "(p + 8 + n + 7) div 8 = q + (n + 15) div 8" by simp
  then show ?thesis by (simp add: span_def q)
qed

definition new_slot :: "slot \<Rightarrow> nat \<Rightarrow> cell_kind \<Rightarrow> nat \<Rightarrow> slot" where
  "new_slot slot start kind n = slot\<lparr>s_offset := start, s_length := n, s_kind := cell_kind_byte kind, s_mark := 0\<rparr>"

definition new_arena :: "byte list \<Rightarrow> nat \<Rightarrow> nat \<Rightarrow> nat \<Rightarrow> byte list" where
  "new_arena arena header index n =
     put_at (put_at arena header (replicate (8 + n) 0)) header (le_bytes 4 index @ le_bytes 4 n)"

lemma heap_allocate_unfold:
  assumes "heap_inv h cs" "hp_phase h = Idle" "row_end 0 cs + 8 + n \<le> length (hp_arena h)"
    "take_slot h = Inr (index, h')"
  shows "heap_allocate h kind n =
    Inr (handle_new (of_nat index) (s_generation (hp_slots h ! index)),
         h'\<lparr>hp_slots := (hp_slots h)[index := new_slot (hp_slots h ! index) (row_end 0 cs + 8) kind n],
            hp_arena := new_arena (hp_arena h) (row_end 0 cs) index n,
            hp_used := row_end 0 cs + 8 + n, hp_live := hp_live h + 1\<rparr>)"
proof -
  note slot = take_slot_Inr [OF assms(4)]
  have room: "row_end 0 cs + 8 + n \<le> u32_max" using assms(1,3) by (simp add: heap_inv_def)
  then have c: "checked_add32 (row_end 0 cs + 8) n = Some (row_end 0 cs + 8 + n)" by simp
  obtain hint where h': "h' = h\<lparr>hp_free_hint := hint\<rparr>" using slot by blast
  have g: "get_at (hp_slots h') index = Some (hp_slots h ! index)" using slot h' by (simp add: get_at_def)
  have d: "row_end 0 cs + 8 + n - row_end 0 cs = 8 + n" by simp
  show ?thesis
    unfolding heap_allocate_def Let_def align8_used(1,4) [OF assms(1)] c
    using assms(2,3,4) g
    by (simp add: new_slot_def new_arena_def h')
qed

lemma new_arena_frame:
  "b \<le> header \<or> header + 8 + n \<le> a \<Longrightarrow> subrange (new_arena arena header index n) a b = subrange arena a b"
  by (auto simp: new_arena_def subrange_put_other)

lemma new_arena_cell:
  assumes "header + 8 + n \<le> length arena"
  shows "length (new_arena arena header index n) = length arena"
    "subrange (new_arena arena header index n) header (header + 8) = Some (le_bytes 4 index @ le_bytes 4 n)"
    "subrange (new_arena arena header index n) (header + 8) (header + 8 + n) = Some (replicate n 0)"
proof -
  let ?f = "le_bytes 4 index @ le_bytes 4 n"
  let ?z = "put_at arena header (replicate (8 + n) 0)"
  show "length (new_arena arena header index n) = length arena" by (simp add: new_arena_def)
  show "subrange (new_arena arena header index n) header (header + 8) = Some ?f"
    unfolding new_arena_def using subrange_put_same [of header ?f ?z] assms by simp
  have "subrange (new_arena arena header index n) (header + 8) (header + 8 + n) = subrange ?z (header + 8) (header + 8 + n)"
    unfolding new_arena_def by (intro subrange_put_other) simp
  also have "\<dots> = subrange (replicate (8 + n) 0) 8 (8 + n)"
    using subrange_put_at_within [of header "replicate (8 + n) 0" arena "header + 8" "header + 8 + n"] assms by simp
  also have "\<dots> = Some (replicate n 0)" by (simp add: subrange_def)
  finally show "subrange (new_arena arena header index n) (header + 8) (header + 8 + n) = Some (replicate n 0)" .
qed

lemma live_indices_alloc:
  "index < length slots \<Longrightarrow> s_kind s \<noteq> 0 \<Longrightarrow> live_indices (slots[index := s]) = insert index (live_indices slots)"
  by (auto simp: live_indices_def nth_list_update)

text \<open>The record an allocation leaves behind.\<close>

lemma heap_allocate_shape:
  assumes "heap_inv h cs" "hp_phase h = Idle" "heap_allocate h kind n = Inr (hdl, h')"
  obtains index where
    "row_end 0 cs + 8 + n \<le> length (hp_arena h)" "index < length (hp_slots h)" "index \<le> u32_max"
    "s_kind (hp_slots h ! index) = 0" "unat (h_index hdl) = index"
    "h_generation hdl = s_generation (hp_slots h ! index)"
    "hp_slots h' = (hp_slots h)[index := new_slot (hp_slots h ! index) (row_end 0 cs + 8) kind n]"
    "hp_arena h' = new_arena (hp_arena h) (row_end 0 cs) index n"
    "hp_used h' = row_end 0 cs + 8 + n" "hp_live h' = hp_live h + 1" "hp_phase h' = Idle"
proof -
  have room: "row_end 0 cs + 8 + n \<le> length (hp_arena h)"
    using assms(2,3) unfolding heap_allocate_def Let_def align8_used(1,4) [OF assms(1)]
    by (auto simp: and_then_Inr split: if_splits)
  obtain index h1 where t: "take_slot h = Inr (index, h1)"
    using assms(2,3) unfolding heap_allocate_def Let_def
    by (auto simp: and_then_Inr split: if_splits)
  note slot = take_slot_Inr [OF t]
  show ?thesis
    using that [of index] heap_allocate_unfold [OF assms(1,2) room t, of kind] assms(2,3) slot room
    by (auto simp: handle_new_def unat_of_nat)
qed

lemma heap_allocate_inv:
  assumes "heap_inv h cs" "hp_phase h = Idle" "kind \<noteq> FreeCell" "heap_allocate h kind n = Inr (hdl, h')"
  shows "heap_inv h' (cs @ [(unat (h_index hdl), n)]) \<and> hp_phase h' = Idle"
proof -
  let ?p = "row_end 0 cs"
  obtain index where r: "?p + 8 + n \<le> length (hp_arena h)" "index < length (hp_slots h)"
    "s_kind (hp_slots h ! index) = 0" "unat (h_index hdl) = index"
    and h': "hp_slots h' = (hp_slots h)[index := new_slot (hp_slots h ! index) (?p + 8) kind n]"
    "hp_arena h' = new_arena (hp_arena h) ?p index n"
    "hp_used h' = ?p + 8 + n" "hp_live h' = hp_live h + 1" "hp_phase h' = Idle"
    by (rule heap_allocate_shape [OF assms(1,2,4)])
  let ?s = "new_slot (hp_slots h ! index) (?p + 8) kind n"
  note inv = assms(1) [unfolded heap_inv_def]
  have fresh: "index \<notin> fst ` set cs" using inv r by (simp add: live_indices_def)
  note arena = new_arena_cell [OF r(1), of index]
  have kind: "s_kind ?s = cell_kind_byte kind" "s_kind ?s \<noteq> 0" using assms(3) by (simp_all add: new_slot_def)
  have old: "cell_ok (hp_arena h') (hp_slots h') (q, i, m)" if c: "(q, i, m) \<in> set (positions 0 cs)" for q i m
  proof (rule cell_ok_cong)
    show "cell_ok (hp_arena h) (hp_slots h) (q, i, m)" using inv c by blast
    have "q + 8 \<le> ?p" using positions_in [OF c] span_le(1) [of m] by simp
    then show "subrange (hp_arena h') q (q + 8) = subrange (hp_arena h) q (q + 8)"
      unfolding h'(2) by (intro new_arena_frame) simp
    have "i \<noteq> index" using positions_in [OF c] fresh by force
    then show "hp_slots h' ! i = hp_slots h ! i" unfolding h'(1) by simp
  qed (simp_all add: h' arena)
  have new: "cell_ok (hp_arena h') (hp_slots h') (?p, index, n)"
    using r arena kind(2) assms(3) by (simp add: cell_ok_def h' new_slot_def)
  have "heap_inv h' (cs @ [(index, n)])"
    unfolding heap_inv_def
  proof (intro conjI)
    show "\<forall>c \<in> set (positions 0 (cs @ [(index, n)])). cell_ok (hp_arena h') (hp_slots h') c"
      using old new by (auto simp: positions_append)
    show "(hp_used h' + 7) div 8 * 8 = row_end 0 (cs @ [(index, n)])"
      unfolding h'(3) row_end_append using align8_stop [OF row_end_dvd [of 0 cs]] by simp
    show "\<forall>s \<in> set (hp_slots h'). s_kind s \<le> 7"
      using inv kind(1) cell_kind_byte_le [of kind] by (auto simp: h'(1) dest!: set_update_subset_insert [THEN subsetD])
    show "fst ` set (cs @ [(index, n)]) = live_indices (hp_slots h')"
      using inv r(2) kind(2) by (simp add: h'(1) live_indices_alloc)
  qed (use inv fresh in \<open>auto simp: h' arena\<close>)
  then show ?thesis using h'(5) r(4) by blast
qed

lemma heap_allocate_store:
  assumes "heap_inv h cs" "hp_phase h = Idle" "kind \<noteq> FreeCell" "heap_allocate h kind n = Inr (hdl, h')"
  shows "store h' = (store h)(hdl \<mapsto> (kind, replicate n 0)) \<and> store h hdl = None"
proof -
  let ?p = "row_end 0 cs"
  obtain index where r: "?p + 8 + n \<le> length (hp_arena h)" "index < length (hp_slots h)"
    "s_kind (hp_slots h ! index) = 0" "unat (h_index hdl) = index"
    "h_generation hdl = s_generation (hp_slots h ! index)"
    and h': "hp_slots h' = (hp_slots h)[index := new_slot (hp_slots h ! index) (?p + 8) kind n]"
    "hp_arena h' = new_arena (hp_arena h) ?p index n"
    by (rule heap_allocate_shape [OF assms(1,2,4)])
  have none: "store h k = None" if "unat (h_index k) = index" for k
    using r that by (simp add: store_eq slot_names_def)
  have "store h' k = ((store h)(hdl \<mapsto> (kind, replicate n 0))) k" for k
  proof (cases "unat (h_index k) = index")
    case True
    have "k = hdl \<longleftrightarrow> h_generation k = h_generation hdl"
      using True r(4) by (cases k; cases hdl) (auto simp: word_unat_eq_iff)
    then have "slot_names (hp_slots h') k \<longleftrightarrow> k = hdl"
      using True r assms(3) by (auto simp: slot_names_def h'(1) new_slot_def)
    then show ?thesis
      using True r new_arena_cell(3) [OF r(1), of index] none
      by (auto simp: store_eq Let_def h' new_slot_def)
  next
    case False
    have "store h' k = store h k"
    proof (rule store_frame [OF _ _ _ assms(1)])
      fix q m
      assume "(q, unat (h_index k), m) \<in> set (positions 0 cs)"
      then have "q + 8 + m \<le> ?p" using positions_in span_le(1) [of m] by fastforce
      then show "subrange (hp_arena h') (q + 8) (q + 8 + m) = subrange (hp_arena h) (q + 8) (q + 8 + m)"
        unfolding h'(2) by (intro new_arena_frame) simp
    qed (use False in \<open>simp_all add: h'(1)\<close>)
    then show ?thesis using False r(4) by auto
  qed
  then show ?thesis using none [OF r(4)] by blast
qed

lemma heap_allocate_fails:
  assumes "heap_inv h cs" "hp_phase h = Idle"
  shows "heap_allocate h kind n = Inl e \<longleftrightarrow>
    (if length (hp_arena h) < row_end 0 cs + 8 + n then e = ArenaFull
     else e = SlotsFull \<and> live_indices (hp_slots h) = {..<length (hp_slots h)})"
proof (cases "length (hp_arena h) < row_end 0 cs + 8 + n")
  case True
  then have "heap_allocate h kind n = Inl ArenaFull"
    using assms(2) unfolding heap_allocate_def Let_def align8_used(1,4) [OF assms(1)]
    by (auto simp: checked_add32_def)
  then show ?thesis using True by auto
next
  case False
  have len: "length (hp_slots h) \<le> u32_max" using assms(1) by (simp add: heap_inv_def)
  show ?thesis
  proof (cases "take_slot h")
    case (Inl f)
    have "heap_allocate h kind n = Inl f"
      using False Inl assms unfolding heap_allocate_def Let_def align8_used(1,4) [OF assms(1)]
      by (simp add: checked_add32_def heap_inv_def)
    then show ?thesis using False Inl take_slot_Inl [OF len, of f] by auto
  next
    case (Inr r)
    then obtain index h1 where t: "take_slot h = Inr (index, h1)" by (cases r) simp
    then have "\<not> (\<exists>e. heap_allocate h kind n = Inl e)"
      using heap_allocate_unfold [OF assms _ t] False by simp
    then show ?thesis using False Inr take_slot_Inl [OF len, of e] by auto
  qed
qed


subsection \<open>Writing a cell\<close>

lemma heap_cell_Inr:
  assumes "heap_inv h cs"
  shows "heap_cell h hdl = Inr bytes \<longleftrightarrow> (\<exists>k. store h hdl = Some (k, bytes))"
proof (cases "slot_names (hp_slots h) hdl")
  case True
  obtain k b where kb: "store h hdl = Some (k, b)" using store_live [OF assms True] by blast
  then have "heap_cell h hdl = Inr b" by (auto simp: store_def split: sum.splits)
  then show ?thesis using kb by auto
next
  case False
  then have "heap_slot h hdl = Inl StaleHandle" by (simp add: heap_slot_Inl)
  then show ?thesis using False by (simp add: heap_cell_def store_eq)
qed

lemma heap_kind_Inr:
  assumes "heap_inv h cs"
  shows "heap_kind h hdl = Inr k \<longleftrightarrow> (\<exists>bytes. store h hdl = Some (k, bytes))"
proof (cases "slot_names (hp_slots h) hdl")
  case True
  obtain j b where jb: "store h hdl = Some (j, b)" using store_live [OF assms True] by blast
  then have "heap_kind h hdl = Inr j" by (auto simp: store_def split: sum.splits)
  then show ?thesis using jb by auto
next
  case False
  then have "heap_slot h hdl = Inl StaleHandle" by (simp add: heap_slot_Inl)
  then show ?thesis using False by (simp add: heap_kind_def store_eq)
qed

lemma handle_index_eq: "slot_names slots j \<Longrightarrow> slot_names slots k \<Longrightarrow> unat (h_index j) = unat (h_index k) \<Longrightarrow> j = k"
  by (cases j; cases k) (auto simp: slot_names_def word_unat_eq_iff)

lemma heap_inv_position:
  assumes "heap_inv h cs" "(p, i, n) \<in> set (positions 0 cs)"
  shows "s_offset (hp_slots h ! i) = p + 8" "s_length (hp_slots h ! i) = n" "p + 8 + n \<le> length (hp_arena h)"
proof -
  have "cell_ok (hp_arena h) (hp_slots h) (p, i, n)" using assms by (simp add: heap_inv_def)
  then show "s_offset (hp_slots h ! i) = p + 8" "s_length (hp_slots h ! i) = n" "p + 8 + n \<le> length (hp_arena h)"
    by (simp_all add: cell_ok_def)
qed

lemma payload_apart:
  assumes "heap_inv h cs" "(p, i, n) \<in> set (positions 0 cs)" "(q, j, m) \<in> set (positions 0 cs)"
  shows "q + 8 \<le> p + 8 \<or> p + 8 + n \<le> q" "j \<noteq> i \<Longrightarrow> q + 8 + m \<le> p + 8 \<or> p + 8 + n \<le> q + 8"
proof -
  have s: "n + 8 \<le> span n" "m + 8 \<le> span m" by (rule span_le)+
  have d: "p + span n \<le> q \<or> q + span m \<le> p" if "j \<noteq> i"
    using positions_disjoint [OF assms(2,3)] that by auto
  then show "j \<noteq> i \<Longrightarrow> q + 8 + m \<le> p + 8 \<or> p + 8 + n \<le> q + 8" using s by linarith
  show "q + 8 \<le> p + 8 \<or> p + 8 + n \<le> q"
  proof (cases "j = i")
    case True
    then have "q = p" using heap_inv_position(1) [OF assms(1,2)] heap_inv_position(1) [OF assms(1,3)] by simp
    then show ?thesis by simp
  qed (use d s in linarith)
qed

lemma heap_cell_put_unfold:
  assumes "heap_inv h cs" "store h hdl = Some (kind, old)" "length bytes = length old"
  obtains p where "(p, unat (h_index hdl), length bytes) \<in> set (positions 0 cs)"
    "slot_names (hp_slots h) hdl" "cell_kind_from_byte (s_kind (hp_slots h ! unat (h_index hdl))) = Some kind"
    "heap_cell_put h hdl bytes = Inr (h\<lparr>hp_arena := put_at (hp_arena h) (p + 8) bytes\<rparr>)"
proof -
  let ?i = "unat (h_index hdl)"
  have names: "slot_names (hp_slots h) hdl" using assms(2) store_None_iff [OF assms(1), of hdl] by auto
  obtain p n where c: "(p, ?i, n) \<in> set (positions 0 cs)"
    using heap_inv_cell [OF assms(1) names] by blast
  note so = heap_inv_position [OF assms(1) c]
  have old: "subrange (hp_arena h) (p + 8) (p + 8 + n) = Some old"
    and kind: "cell_kind_from_byte (s_kind (hp_slots h ! ?i)) = Some kind"
    using assms(2) names so by (auto simp: store_eq Let_def split: option.splits)
  have len: "length bytes = n" using assms(3) length_subrange [OF old] by simp
  have "heap_slot h hdl = Inr (hp_slots h ! ?i)" using names by (simp add: heap_slot_Inr)
  then have "heap_cell_put h hdl bytes = Inr (h\<lparr>hp_arena := put_at (hp_arena h) (p + 8) bytes\<rparr>)"
    using old so len by (simp add: heap_cell_put_def)
  then show ?thesis using that c len names kind by blast
qed

lemma heap_cell_put_store:
  assumes "heap_inv h cs" "store h hdl = Some (kind, old)" "length bytes = length old"
  shows "\<exists>h'. heap_cell_put h hdl bytes = Inr h' \<and> heap_inv h' cs \<and> hp_phase h' = hp_phase h \<and>
    store h' = (store h)(hdl \<mapsto> (kind, bytes))"
proof -
  let ?i = "unat (h_index hdl)"
  obtain p where c: "(p, ?i, length bytes) \<in> set (positions 0 cs)" and names: "slot_names (hp_slots h) hdl"
    and kind: "cell_kind_from_byte (s_kind (hp_slots h ! ?i)) = Some kind"
    and put: "heap_cell_put h hdl bytes = Inr (h\<lparr>hp_arena := put_at (hp_arena h) (p + 8) bytes\<rparr>)"
    by (rule heap_cell_put_unfold [OF assms])
  let ?h = "h\<lparr>hp_arena := put_at (hp_arena h) (p + 8) bytes\<rparr>"
  note so = heap_inv_position [OF assms(1) c] and apart = payload_apart [OF assms(1) c]
  have "\<forall>c \<in> set (positions 0 cs). cell_ok (hp_arena ?h) (hp_slots ?h) c"
  proof clarify
    fix q j m
    assume q: "(q, j, m) \<in> set (positions 0 cs)"
    then have "cell_ok (hp_arena h) (hp_slots h) (q, j, m)" using assms(1) by (simp add: heap_inv_def)
    moreover have "subrange (hp_arena ?h) q (q + 8) = subrange (hp_arena h) q (q + 8)"
      using apart(1) [OF q] by (simp add: subrange_put_other)
    ultimately show "cell_ok (hp_arena ?h) (hp_slots ?h) (q, j, m)" by (simp add: cell_ok_def)
  qed
  then have inv: "heap_inv ?h cs" using assms(1) by (simp add: heap_inv_def)
  have "store ?h k = ((store h)(hdl \<mapsto> (kind, bytes))) k" for k
  proof (cases "unat (h_index k) = ?i")
    case True
    have "subrange (hp_arena ?h) (p + 8) (p + 8 + length bytes) = Some bytes"
      using subrange_put_same [of "p + 8" bytes "hp_arena h"] so(3) by simp
    then have "store ?h hdl = Some (kind, bytes)" using names so kind by (simp add: store_eq Let_def)
    moreover have "k \<noteq> hdl \<Longrightarrow> \<not> slot_names (hp_slots h) k" using handle_index_eq [OF _ names] True by blast
    ultimately show ?thesis by (cases "k = hdl") (simp_all add: store_eq)
  next
    case False
    have "store ?h k = store h k"
    proof (rule store_frame [OF _ _ _ assms(1)])
      fix q m
      assume "(q, unat (h_index k), m) \<in> set (positions 0 cs)"
      from apart(2) [OF this] False
      show "subrange (hp_arena ?h) (q + 8) (q + 8 + m) = subrange (hp_arena h) (q + 8) (q + 8 + m)"
        by (simp add: subrange_put_other)
    qed simp_all
    then show ?thesis using False by auto
  qed
  then show ?thesis using put inv by (intro exI [of _ ?h]) auto
qed

end
