(* ===== verification/Heap_Compact.thy ===== *)
theory Heap_Compact
  imports Heap_Store
begin

text \<open>
  Compaction keeps exactly the marked cells. In the middle of it the arena is two rows, the cells
  already moved down and the cells still to be read; every slice of the work keeps that shape, and
  at the end the store is the old one restricted to the marked handles.
\<close>

subsection \<open>The forward copy\<close>

lemma copy_down_nth:
  assumes "to \<le> frm" "frm + n \<le> length arena"
  shows "length (copy_down arena frm to n) = length arena \<and>
    (\<forall>j < length arena. copy_down arena frm to n ! j =
      (if to \<le> j \<and> j < to + n then arena ! (frm + (j - to)) else arena ! j))"
  using assms
proof (induction n arbitrary: arena frm to)
  case (Suc n)
  let ?a = "put_at arena to [arena ! frm]"
  have step: "copy_down arena frm to (Suc n) = copy_down ?a (frm + 1) (to + 1) n"
    using Suc.prems by (simp add: get_at_def)
  have a: "?a ! j = (if j = to then arena ! frm else arena ! j)" if "j < length arena" for j
    using put_at_nth [of to "[arena ! frm]" arena j] that Suc.prems by auto
  have IH: "length (copy_down ?a (frm + 1) (to + 1) n) = length arena"
    "j < length arena \<Longrightarrow> copy_down ?a (frm + 1) (to + 1) n ! j =
      (if to + 1 \<le> j \<and> j < to + 1 + n then ?a ! (frm + 1 + (j - (to + 1))) else ?a ! j)" for j
    using Suc.IH [of "to + 1" "frm + 1" ?a] Suc.prems by simp_all
  show ?case unfolding step
  proof (intro conjI allI impI IH(1))
    fix j
    assume j: "j < length arena"
    show "copy_down ?a (frm + 1) (to + 1) n ! j =
        (if to \<le> j \<and> j < to + Suc n then arena ! (frm + (j - to)) else arena ! j)"
    proof (cases "to + 1 \<le> j \<and> j < to + 1 + n")
      case True
      then have x: "frm + 1 + (j - (to + 1)) = frm + (j - to)" by linarith
      have "?a ! (frm + (j - to)) = arena ! (frm + (j - to))"
        using a [of "frm + (j - to)"] True Suc.prems by auto
      then show ?thesis unfolding IH(2) [OF j] x using True by simp
    next
      case False
      then show ?thesis unfolding IH(2) [OF j] using a [OF j] by auto
    qed
  qed
qed auto

lemma copy_down_subrange:
  assumes "to \<le> frm" "frm + n \<le> length arena"
  shows "length (copy_down arena frm to n) = length arena"
    "y \<le> to \<or> to + n \<le> x \<Longrightarrow> subrange (copy_down arena frm to n) x y = subrange arena x y"
    "u \<le> v \<Longrightarrow> v \<le> n \<Longrightarrow> subrange (copy_down arena frm to n) (to + u) (to + v) = subrange arena (frm + u) (frm + v)"
proof -
  note c = copy_down_nth [OF assms]
  show len: "length (copy_down arena frm to n) = length arena" using c by simp
  show "subrange (copy_down arena frm to n) x y = subrange arena x y" if "y \<le> to \<or> to + n \<le> x"
    unfolding subrange_def len using that c by (auto intro!: nth_equalityI)
  show "subrange (copy_down arena frm to n) (to + u) (to + v) = subrange arena (frm + u) (frm + v)"
    if "u \<le> v" "v \<le> n"
    unfolding subrange_def len using that c assms by (auto intro!: nth_equalityI simp: add.assoc)
qed

subsection \<open>Two rows\<close>

definition compact_inv :: "heap \<Rightarrow> (nat \<times> nat) list \<Rightarrow> (nat \<times> nat) list \<Rightarrow> bool" where
  "compact_inv h ws rs \<longleftrightarrow>
     length (hp_arena h) + 31 \<le> u32_max \<and> length (hp_slots h) \<le> u32_max \<and>
     (\<forall>c \<in> set (positions 0 ws) \<union> set (positions (hp_compact_read h) rs). cell_ok (hp_arena h) (hp_slots h) c) \<and>
     distinct (map fst (ws @ rs)) \<and> fst ` set (ws @ rs) = live_indices (hp_slots h) \<and>
     (\<forall>s \<in> set (hp_slots h). s_kind s \<le> 7) \<and>
     row_end 0 ws = hp_compact_write h \<and> row_end (hp_compact_read h) rs = (hp_used h + 7) div 8 * 8 \<and>
     hp_compact_write h \<le> hp_compact_read h \<and> 8 dvd hp_compact_read h \<and> hp_live h = length (ws @ rs) \<and>
     hp_compact_read h \<le> length (hp_arena h) + 7"

definition is_black :: "heap \<Rightarrow> nat \<Rightarrow> bool" where
  "is_black h i \<longleftrightarrow> s_mark (hp_slots h ! i) = BLACK"

lemma align8_total: "n + 22 \<le> u32_max \<Longrightarrow> align8 (cell_total n) = span n"
  by (simp add: align8_def cell_total_def span_def add.commute)

text \<open>The facts about the next cell to be read.\<close>

lemma compact_head:
  assumes "compact_inv h ws ((i, n) # rs)"
  shows "cell_ok (hp_arena h) (hp_slots h) (hp_compact_read h, i, n)"
    "compact_header h = Some (i, n)" "hp_compact_read h < hp_used h"
    "cell_total n = 8 + n" "align8 (cell_total n) = span n"
    "wadd32 (hp_compact_read h) 8 = hp_compact_read h + 8" "wadd32 (hp_compact_write h) 8 = hp_compact_write h + 8"
    "wadd32 (hp_compact_read h) (span n) = hp_compact_read h + span n"
    "wadd32 (hp_compact_write h) (span n) = hp_compact_write h + span n"
    "hp_compact_read h + 8 + n \<le> length (hp_arena h)"
proof -
  note inv = assms [unfolded compact_inv_def]
  show ok: "cell_ok (hp_arena h) (hp_slots h) (hp_compact_read h, i, n)" using inv by simp
  then show fits: "hp_compact_read h + 8 + n \<le> length (hp_arena h)" by (simp add: cell_ok_def)
  have small: "n + 22 \<le> u32_max" "hp_compact_read h + span n \<le> u32_max" "i < 2 ^ 32" "n < 2 ^ 32"
    "hp_compact_write h \<le> hp_compact_read h"
    using fits inv ok span_le(2) [of n] by (auto simp: cell_ok_def)
  show "cell_total n = 8 + n" using small(1) by (simp add: cell_total_def)
  show "align8 (cell_total n) = span n" using small(1) by (rule align8_total)
  show "compact_header h = Some (i, n)"
    using ok small(3,4) by (simp add: compact_header_def cell_ok_def of_le_le_bytes)
  show "wadd32 (hp_compact_read h) 8 = hp_compact_read h + 8" "wadd32 (hp_compact_write h) 8 = hp_compact_write h + 8"
    "wadd32 (hp_compact_read h) (span n) = hp_compact_read h + span n"
    "wadd32 (hp_compact_write h) (span n) = hp_compact_write h + span n"
    using small span_le(1) [of n] by simp_all
  have "hp_compact_read h + span n \<le> (hp_used h + 7) div 8 * 8"
    using inv row_end_ge [of "hp_compact_read h + span n" rs] by simp
  moreover have "8 \<le> span n" using span_le(1) [of n] by simp
  ultimately show "hp_compact_read h < hp_used h" by linarith
qed

subsection \<open>One cell\<close>

lemma live_head:
  assumes "compact_inv h ws ((i, n) # rs)"
  shows "cell_is_live h i \<longleftrightarrow> is_black h i" "get_at (hp_slots h) i = Some (hp_slots h ! i)"
  using compact_head(1,6) [OF assms] by (auto simp: cell_is_live_def is_black_def cell_ok_def get_at_def)

text \<open>A marked cell moves down: the arena changes only at its new place.\<close>

lemma compact_keep_shape:
  assumes "compact_inv h ws ((i, n) # rs)" "is_black h i"
  obtains arena where
    "compact_cell h i n = h\<lparr>hp_arena := arena, hp_slots := (hp_slots h)[i := (hp_slots h ! i)\<lparr>s_offset := hp_compact_write h + 8\<rparr>],
       hp_compact_write := hp_compact_write h + span n, hp_compact_read := hp_compact_read h + span n\<rparr>"
    "length arena = length (hp_arena h)"
    "\<forall>x y. y \<le> hp_compact_write h \<or> hp_compact_write h + 8 + n \<le> x \<longrightarrow> subrange arena x y = subrange (hp_arena h) x y"
    "\<forall>u v. u \<le> v \<longrightarrow> v \<le> 8 + n \<longrightarrow> subrange arena (hp_compact_write h + u) (hp_compact_write h + v) =
       subrange (hp_arena h) (hp_compact_read h + u) (hp_compact_read h + v)"
proof -
  note head = compact_head [OF assms(1)]
  let ?w = "hp_compact_write h" and ?r = "hp_compact_read h"
  let ?arena = "if ?w \<noteq> ?r then copy_down (hp_arena h) ?r ?w (8 + n) else hp_arena h"
  have le: "?w \<le> ?r" using assms(1) by (simp add: compact_inv_def)
  have fits: "?r + (8 + n) \<le> length (hp_arena h)" using head(10) by simp
  note copy = copy_down_subrange [OF le fits]
  have eq: "compact_cell h i n = h\<lparr>hp_arena := ?arena, hp_slots := (hp_slots h)[i := (hp_slots h ! i)\<lparr>s_offset := ?w + 8\<rparr>],
      hp_compact_write := ?w + span n, hp_compact_read := ?r + span n\<rparr>"
    unfolding compact_cell_def compact_keep_def Let_def head live_head(2) [OF assms(1)]
    using assms live_head(1) [OF assms(1)] head(5,8,9) unfolding head(4) by simp
  show ?thesis
  proof (rule that [OF eq])
    show "length ?arena = length (hp_arena h)" using copy(1) by simp
    show "\<forall>x y. y \<le> ?w \<or> ?w + 8 + n \<le> x \<longrightarrow> subrange ?arena x y = subrange (hp_arena h) x y"
      using copy(2) by simp
    show "\<forall>u v. u \<le> v \<longrightarrow> v \<le> 8 + n \<longrightarrow> subrange ?arena (?w + u) (?w + v) = subrange (hp_arena h) (?r + u) (?r + v)"
      using copy(3) by simp
  qed
qed

text \<open>Every slot in use has a cell in one of the rows.\<close>

lemma compact_inv_cell:
  assumes "compact_inv h ws rs" "slot_names (hp_slots h) k"
  obtains p n where "(p, unat (h_index k), n) \<in> set (positions 0 ws) \<union> set (positions (hp_compact_read h) rs)"
    "cell_ok (hp_arena h) (hp_slots h) (p, unat (h_index k), n)"
proof -
  have "unat (h_index k) \<in> fst ` set (ws @ rs)"
    using assms by (simp add: compact_inv_def live_indices_def slot_names_def)
  then obtain n where "(unat (h_index k), n) \<in> set ws \<or> (unat (h_index k), n) \<in> set rs" by fastforce
  then obtain p where "(p, unat (h_index k), n) \<in> set (positions 0 ws) \<union> set (positions (hp_compact_read h) rs)"
    using positions_ex by blast
  with that show ?thesis using assms(1) unfolding compact_inv_def by blast
qed

text \<open>Where the other cells lie: away from the new place of the one that moves.\<close>

lemma compact_apart:
  assumes "compact_inv h ws ((i, n) # rs)"
    "(p, j, m) \<in> set (positions 0 ws) \<union> set (positions (hp_compact_read h + span n) rs)"
  shows "p + 8 + m \<le> hp_compact_write h \<or> hp_compact_write h + 8 + n \<le> p" "j \<noteq> i"
    "cell_ok (hp_arena h) (hp_slots h) (p, j, m)"
proof -
  note inv = assms(1) [unfolded compact_inv_def]
  have "p + span m \<le> hp_compact_write h \<or> hp_compact_read h + span n \<le> p" "(j, m) \<in> set ws \<union> set rs"
    using positions_in [of p j m 0 ws] positions_in [of p j m "hp_compact_read h + span n" rs] assms(2) inv by auto
  moreover have "m + 8 \<le> span m" "n + 8 \<le> span n" by (rule span_le)+
  moreover have "hp_compact_write h \<le> hp_compact_read h" using inv by simp
  ultimately show "p + 8 + m \<le> hp_compact_write h \<or> hp_compact_write h + 8 + n \<le> p" by linarith
  show "j \<noteq> i" using \<open>(j, m) \<in> set ws \<union> set rs\<close> inv by (auto simp: image_iff)
  show "cell_ok (hp_arena h) (hp_slots h) (p, j, m)" using assms(2) inv by auto
qed

lemma compact_inv_other:
  assumes "compact_inv h ws ((i, n) # rs)" "slot_names (hp_slots h) k" "unat (h_index k) \<noteq> i"
  obtains p m where "(p, unat (h_index k), m) \<in> set (positions 0 ws) \<union> set (positions (hp_compact_read h + span n) rs)"
    "cell_ok (hp_arena h) (hp_slots h) (p, unat (h_index k), m)"
  using compact_inv_cell [OF assms(1,2)] assms(3) by (metis UnE UnI1 UnI2 positions.simps(2) prod.inject set_ConsD)

lemma live_indices_same:
  "i < length slots \<Longrightarrow> s_kind s = s_kind (slots ! i) \<Longrightarrow> live_indices (slots[i := s]) = live_indices slots"
  by (auto simp: live_indices_def nth_list_update)

lemma kinds_update: "\<forall>s \<in> set slots. s_kind s \<le> 7 \<Longrightarrow> s_kind t \<le> 7 \<Longrightarrow> \<forall>s \<in> set (slots[i := t]). s_kind s \<le> 7"
  by (auto dest!: set_update_subset_insert [THEN subsetD])

lemma compact_keep_inv:
  assumes "compact_inv h ws ((i, n) # rs)" "is_black h i"
  shows "compact_inv (compact_cell h i n) (ws @ [(i, n)]) rs"
proof -
  note inv = assms(1) [unfolded compact_inv_def] and head = compact_head [OF assms(1)]
  let ?w = "hp_compact_write h" and ?r = "hp_compact_read h"
  obtain arena where cc: "compact_cell h i n = h\<lparr>hp_arena := arena,
      hp_slots := (hp_slots h)[i := (hp_slots h ! i)\<lparr>s_offset := ?w + 8\<rparr>],
      hp_compact_write := ?w + span n, hp_compact_read := ?r + span n\<rparr>"
    and len: "length arena = length (hp_arena h)"
    and frame: "\<forall>x y. y \<le> ?w \<or> ?w + 8 + n \<le> x \<longrightarrow> subrange arena x y = subrange (hp_arena h) x y"
    and moved: "\<forall>u v. u \<le> v \<longrightarrow> v \<le> 8 + n \<longrightarrow> subrange arena (?w + u) (?w + v) = subrange (hp_arena h) (?r + u) (?r + v)"
    by (rule compact_keep_shape [OF assms])
  let ?s = "(hp_slots h)[i := (hp_slots h ! i)\<lparr>s_offset := ?w + 8\<rparr>]"
  have i: "i < length (hp_slots h)" "s_kind (hp_slots h ! i) \<noteq> 0" "s_length (hp_slots h ! i) = n"
    "subrange (hp_arena h) ?r (?r + 8) = Some (le_bytes 4 i @ le_bytes 4 n)"
    using head(1) by (simp_all add: cell_ok_def)
  have old: "cell_ok arena ?s (p, j, m)"
    if c: "(p, j, m) \<in> set (positions 0 ws) \<union> set (positions (?r + span n) rs)" for p j m
  proof -
    note ap = compact_apart [OF assms(1) c]
    have "p + 8 \<le> ?w \<or> ?w + 8 + n \<le> p" using ap(1) by linarith
    then have "subrange arena p (p + 8) = subrange (hp_arena h) p (p + 8)" using frame by blast
    then show ?thesis using ap(2,3) len by (simp add: cell_ok_def)
  qed
  have "?w \<le> ?r" using inv by simp
  then have new: "cell_ok arena ?s (?w, i, n)"
    using moved [rule_format, of 0 8] i head(10) len by (simp add: cell_ok_def)
  have "\<forall>c \<in> set (positions 0 (ws @ [(i, n)])) \<union> set (positions (?r + span n) rs). cell_ok arena ?s c"
    using old new inv by (auto simp: positions_append)
  moreover have "live_indices ?s = live_indices (hp_slots h)"
    using i(1) by (simp add: live_indices_same)
  moreover have "\<forall>s \<in> set ?s. s_kind s \<le> 7"
    using inv i(1) by (intro kinds_update) simp_all
  moreover have "?r + span n \<le> length (hp_arena h) + 7" using head(10) span_le(2) [of n] by simp
  moreover have "8 dvd ?r + span n" using inv span_le(3) [of n] by simp
  moreover have "fst ` set ((ws @ [(i, n)]) @ rs) = fst ` set (ws @ (i, n) # rs)" "distinct (map fst ((ws @ [(i, n)]) @ rs))"
    using inv by simp_all
  ultimately show ?thesis
    using inv unfolding compact_inv_def cc by (simp add: len row_end_append)
qed

lemma compact_keep_store:
  assumes "compact_inv h ws ((i, n) # rs)" "is_black h i"
  shows "store (compact_cell h i n) = store h"
proof
  fix k
  note head = compact_head [OF assms(1)]
  let ?w = "hp_compact_write h" and ?r = "hp_compact_read h" and ?h = "compact_cell h i n"
  obtain arena where cc: "compact_cell h i n = h\<lparr>hp_arena := arena,
      hp_slots := (hp_slots h)[i := (hp_slots h ! i)\<lparr>s_offset := ?w + 8\<rparr>],
      hp_compact_write := ?w + span n, hp_compact_read := ?r + span n\<rparr>"
    and frame: "\<forall>x y. y \<le> ?w \<or> ?w + 8 + n \<le> x \<longrightarrow> subrange arena x y = subrange (hp_arena h) x y"
    and moved: "\<forall>u v. u \<le> v \<longrightarrow> v \<le> 8 + n \<longrightarrow> subrange arena (?w + u) (?w + v) = subrange (hp_arena h) (?r + u) (?r + v)"
    by (rule compact_keep_shape [OF assms])
  have i: "i < length (hp_slots h)" "s_length (hp_slots h ! i) = n" "s_offset (hp_slots h ! i) = ?r + 8"
    using head(1) by (simp_all add: cell_ok_def)
  show "store ?h k = store h k"
  proof (rule store_moved)
    assume names: "slot_names (hp_slots h) k"
    show "let s = hp_slots h ! unat (h_index k); s' = hp_slots ?h ! unat (h_index k) in
        subrange (hp_arena ?h) (s_offset s') (s_offset s' + s_length s') =
        subrange (hp_arena h) (s_offset s) (s_offset s + s_length s)"
    proof (cases "unat (h_index k) = i")
      case True
      then show ?thesis using i moved [rule_format, of 8 "8 + n"] by (simp add: cc add.assoc)
    next
      case False
      obtain p m where c: "(p, unat (h_index k), m) \<in> set (positions 0 ws) \<union> set (positions (?r + span n) rs)"
        "cell_ok (hp_arena h) (hp_slots h) (p, unat (h_index k), m)"
        by (rule compact_inv_other [OF assms(1) names False])
      have "p + 8 + m \<le> ?w \<or> ?w + 8 + n \<le> p + 8" using compact_apart(1) [OF assms(1) c(1)] by linarith
      then have "subrange arena (p + 8) (p + 8 + m) = subrange (hp_arena h) (p + 8) (p + 8 + m)"
        using frame by blast
      then show ?thesis using False c(2) by (simp add: cc cell_ok_def)
    qed
  qed (use i(1) in \<open>simp_all add: cc nth_list_update\<close>)
qed

text \<open>An unmarked cell is dropped: its slot is released and nothing moves.\<close>

lemma note_free_eq: "note_free h index = h\<lparr>hp_free_hint := (if index < hp_free_hint h then index else hp_free_hint h)\<rparr>"
  by (simp add: note_free_def)

lemma compact_discard_shape:
  assumes "compact_inv h ws ((i, n) # rs)" "\<not> is_black h i"
  shows "hp_arena (compact_cell h i n) = hp_arena h"
    "hp_slots (compact_cell h i n) = (hp_slots h)[i := slot_release (hp_slots h ! i)]"
    "hp_live (compact_cell h i n) = hp_live h - 1" "hp_used (compact_cell h i n) = hp_used h"
    "hp_compact_write (compact_cell h i n) = hp_compact_write h"
    "hp_compact_read (compact_cell h i n) = hp_compact_read h + span n"
proof -
  note head = compact_head [OF assms(1)] and live = live_head [OF assms(1)]
  have kind: "s_kind (hp_slots h ! i) \<noteq> 0" using head(1) by (simp add: cell_ok_def)
  have "compact_cell h i n = h\<lparr>hp_reclaimed_bytes := sadd32 (hp_reclaimed_bytes h) (span n),
      hp_slots := (hp_slots h)[i := slot_release (hp_slots h ! i)], hp_live := hp_live h - 1,
      hp_reclaimed_cells := sadd32 (hp_reclaimed_cells h) 1,
      hp_free_hint := (if i < hp_free_hint h then i else hp_free_hint h),
      hp_compact_read := hp_compact_read h + span n\<rparr>"
    using assms(2) live kind head(8)
    unfolding compact_cell_def compact_discard_def Let_def head(5) note_free_eq by simp
  then show "hp_arena (compact_cell h i n) = hp_arena h"
    "hp_slots (compact_cell h i n) = (hp_slots h)[i := slot_release (hp_slots h ! i)]"
    "hp_live (compact_cell h i n) = hp_live h - 1" "hp_used (compact_cell h i n) = hp_used h"
    "hp_compact_write (compact_cell h i n) = hp_compact_write h"
    "hp_compact_read (compact_cell h i n) = hp_compact_read h + span n" by simp_all
qed

lemma slot_release_simps [simp]:
  "s_kind (slot_release s) = 0" "s_mark (slot_release s) = s_mark s" "s_offset (slot_release s) = s_offset s"
  by (simp_all add: slot_release_def)

lemma live_indices_release:
  "i < length slots \<Longrightarrow> live_indices (slots[i := slot_release s]) = live_indices slots - {i}"
  by (auto simp: live_indices_def nth_list_update)

lemma compact_discard_inv:
  assumes "compact_inv h ws ((i, n) # rs)" "\<not> is_black h i"
  shows "compact_inv (compact_cell h i n) ws rs"
proof -
  note inv = assms(1) [unfolded compact_inv_def] and head = compact_head [OF assms(1)]
  note cc = compact_discard_shape [OF assms]
  have bound: "i < length (hp_slots h)" using head(1) by (simp add: cell_ok_def)
  let ?r = "hp_compact_read h" and ?s = "(hp_slots h)[i := slot_release (hp_slots h ! i)]"
  have "cell_ok (hp_arena h) ?s (p, j, m)"
    if c: "(p, j, m) \<in> set (positions 0 ws) \<union> set (positions (?r + span n) rs)" for p j m
    using compact_apart(2,3) [OF assms(1) c] by (simp add: cell_ok_def)
  then have "\<forall>c \<in> set (positions 0 ws) \<union> set (positions (?r + span n) rs). cell_ok (hp_arena h) ?s c" by auto
  moreover have "fst ` set (ws @ rs) = live_indices ?s"
    using inv unfolding live_indices_release [OF bound] by auto
  moreover have "\<forall>s \<in> set ?s. s_kind s \<le> 7" using inv by (intro kinds_update) simp_all
  moreover have "?r + span n \<le> length (hp_arena h) + 7" using head(10) span_le(2) [of n] by simp
  moreover have "8 dvd ?r + span n" using inv span_le(3) [of n] by simp
  ultimately show ?thesis using inv unfolding compact_inv_def cc by simp
qed

lemma compact_discard_store:
  assumes "compact_inv h ws ((i, n) # rs)" "\<not> is_black h i"
  shows "store (compact_cell h i n) k = (if unat (h_index k) = i then None else store h k)"
proof (cases "unat (h_index k) = i")
  case True
  have "i < length (hp_slots h)" using compact_head(1) [OF assms(1)] by (simp add: cell_ok_def)
  then have "\<not> slot_names (hp_slots (compact_cell h i n)) k"
    using True by (simp add: slot_names_def compact_discard_shape(2) [OF assms])
  then show ?thesis using True by (simp add: store_eq)
next
  case False
  note cc = compact_discard_shape [OF assms]
  have "store (compact_cell h i n) k = store h k"
    by (rule store_moved) (use False in \<open>simp_all add: cc Let_def\<close>)
  then show ?thesis using False by simp
qed

lemma compact_cell_step:
  assumes "compact_inv h ws ((i, n) # rs)"
  shows "compact_inv (compact_cell h i n) (ws @ (if is_black h i then [(i, n)] else [])) rs"
    "store (compact_cell h i n) k = (if unat (h_index k) = i \<and> \<not> is_black h i then None else store h k)"
  using assms compact_keep_inv compact_keep_store compact_discard_inv compact_discard_store by (cases "is_black h i"; simp)+

lemma compact_cell_black:
  assumes "compact_inv h ws ((i, n) # rs)"
  shows "is_black (compact_cell h i n) j \<longleftrightarrow> is_black h j"
proof (cases "is_black h i")
  case True
  have "i < length (hp_slots h)" using compact_head(1) [OF assms] by (simp add: cell_ok_def)
  moreover obtain arena where "compact_cell h i n = h\<lparr>hp_arena := arena,
      hp_slots := (hp_slots h)[i := (hp_slots h ! i)\<lparr>s_offset := hp_compact_write h + 8\<rparr>],
      hp_compact_write := hp_compact_write h + span n, hp_compact_read := hp_compact_read h + span n\<rparr>"
    by (rule compact_keep_shape [OF assms True])
  ultimately show ?thesis by (auto simp: is_black_def nth_list_update)
next
  case False
  have "i < length (hp_slots h)" using compact_head(1) [OF assms] by (simp add: cell_ok_def)
  then show ?thesis using compact_discard_shape(2) [OF assms False]
    by (auto simp: is_black_def nth_list_update)
qed

lemma compact_cell_phase: "hp_phase (compact_cell h i n) = hp_phase h"
  by (simp add: compact_cell_def compact_keep_def compact_discard_def Let_def note_free_eq split: option.split)

subsection \<open>A slice\<close>

definition swept :: "heap \<Rightarrow> (nat \<times> nat) list \<Rightarrow> handle \<Rightarrow> (cell_kind \<times> byte list) option" where
  "swept h ps k = (if unat (h_index k) \<in> fst ` set ps \<and> \<not> is_black h (unat (h_index k)) then None else store h k)"

lemma compact_loop_slice:
  assumes "compact_inv h ws rs"
  shows "\<exists>ps rs' h'. rs = ps @ rs' \<and>
    compact_loop h budget moved = Some (if rs' = [] then (True, compact_finish h') else (False, h')) \<and>
    compact_inv h' (ws @ filter (\<lambda>(i, n). is_black h i) ps) rs' \<and> (\<forall>j. is_black h' j = is_black h j) \<and>
    store h' = swept h ps \<and> hp_phase h' = hp_phase h \<and> (moved < budget \<and> rs \<noteq> [] \<longrightarrow> ps \<noteq> [])"
  using assms
proof (induction rs arbitrary: h ws moved)
  case Nil
  have "(hp_used h + 7) div 8 * 8 = hp_compact_read h" using Nil by (simp add: compact_inv_def)
  then have "\<not> hp_compact_read h < hp_used h" by linarith
  then have "compact_loop h budget moved = Some (True, compact_finish h)"
    by (subst compact_loop.simps) simp
  then show ?case using Nil by (intro exI [of _ "[]"] exI [of _ h]) (auto simp: swept_def)
next
  case (Cons c rs)
  obtain i n where c: "c = (i, n)" by (cases c)
  note inv = Cons.prems [unfolded c]
  show ?case
  proof (cases "budget \<le> moved")
    case True
    then have "compact_loop h budget moved = Some (False, h)"
      using compact_head(3) [OF inv] by (subst compact_loop.simps) simp
    then show ?thesis using inv True unfolding c
      by (intro exI [of _ "[]"] exI [of _ "(i, n) # rs"] exI [of _ h]) (auto simp: swept_def)
  next
    case False
    let ?h = "compact_cell h i n" and ?m = "sadd32 moved (align8 (cell_total n))"
    have black: "is_black ?h = is_black h" using compact_cell_black [OF inv] by (intro ext)
    have step: "compact_loop h budget moved = compact_loop ?h budget ?m"
      using False compact_head(2,3) [OF inv] by (subst compact_loop.simps) simp
    obtain ps rs' h' where IH: "rs = ps @ rs'"
      "compact_loop ?h budget ?m = Some (if rs' = [] then (True, compact_finish h') else (False, h'))"
      "compact_inv h' ((ws @ (if is_black h i then [(i, n)] else [])) @ filter (\<lambda>(i, n). is_black h i) ps) rs'"
      "\<forall>j. is_black h' j = is_black h j" "store h' = swept ?h ps" "hp_phase h' = hp_phase ?h"
      using Cons.IH [OF compact_cell_step(1) [OF inv], of ?m] unfolding black by blast
    have "swept ?h ps = swept h ((i, n) # ps)"
      using compact_cell_step(2) [OF inv] unfolding swept_def fun_eq_iff black by auto
    moreover have "(ws @ (if is_black h i then [(i, n)] else [])) @ filter (\<lambda>(i, n). is_black h i) ps =
        ws @ filter (\<lambda>(i, n). is_black h i) ((i, n) # ps)" by simp
    ultimately show ?thesis
      using IH step compact_cell_phase unfolding c
      by (intro exI [of _ "(i, n) # ps"] exI [of _ rs'] exI [of _ h']) simp
  qed
qed

lemma compact_finish_inv:
  assumes "compact_inv h ws []"
  shows "heap_inv (compact_finish h) ws" "store (compact_finish h) = store h" "hp_phase (compact_finish h) = Idle"
proof -
  note inv = assms [unfolded compact_inv_def]
  have "8 dvd hp_compact_write h" using inv row_end_dvd [of 0 ws] by simp
  then have "(hp_compact_write h + 7) div 8 * 8 = hp_compact_write h" by (auto elim!: dvdE)
  then show "heap_inv (compact_finish h) ws" using inv by (auto simp: heap_inv_def compact_finish_def)
  show "store (compact_finish h) = store h"
    by (rule ext, rule store_moved) (simp_all add: compact_finish_def Let_def)
  show "hp_phase (compact_finish h) = Idle" by (simp add: compact_finish_def)
qed

end
