(* ===== verification/Gc.thy ===== *)
theory Gc
  imports Heap_Compact
begin

text \<open>
  Tracing and the collection driver, from \<^verbatim>\<open>modules/common/gc.rs\<close>, over the cell layouts of
  \<^verbatim>\<open>object.rs\<close>, \<^verbatim>\<open>env.rs\<close> and \<^verbatim>\<open>promise.rs\<close>. Children are gathered in chunks of a fixed array and
  shaded between chunks, because shading needs the heap the cell was borrowed from; the loops here
  read the cell again for every chunk as the source does.
\<close>

subsection \<open>Cell layouts\<close>

abbreviation (input) object_PROTOTYPE :: nat where "object_PROTOTYPE \<equiv> 0"
abbreviation (input) object_TABLE :: nat where "object_TABLE \<equiv> 12"
abbreviation (input) object_INTERNAL :: nat where "object_INTERNAL \<equiv> 20"
abbreviation (input) object_SLOT :: nat where "object_SLOT \<equiv> 28"
abbreviation (input) object_REACTIONS :: nat where "object_REACTIONS \<equiv> 40"
abbreviation (input) object_HOME :: nat where "object_HOME \<equiv> 48"
abbreviation (input) object_TABLE_HEADER :: nat where "object_TABLE_HEADER \<equiv> 8"
abbreviation (input) object_TABLE_COUNT :: nat where "object_TABLE_COUNT \<equiv> 0"
abbreviation (input) object_RECORD :: nat where "object_RECORD \<equiv> 32"
abbreviation (input) record_KIND :: nat where "record_KIND \<equiv> 0"
abbreviation (input) record_KEY :: nat where "record_KEY \<equiv> 8"
abbreviation (input) record_FIRST :: nat where "record_FIRST \<equiv> 16"
abbreviation (input) record_SECOND :: nat where "record_SECOND \<equiv> 25"
abbreviation (input) environment_COUNT :: nat where "environment_COUNT \<equiv> 4"
abbreviation (input) environment_PARENT :: nat where "environment_PARENT \<equiv> 12"
abbreviation (input) environment_THIS :: nat where "environment_THIS \<equiv> 21"
abbreviation (input) environment_NEW_TARGET :: nat where "environment_NEW_TARGET \<equiv> 32"
abbreviation (input) environment_FUNCTION :: nat where "environment_FUNCTION \<equiv> 41"
abbreviation (input) environment_HEADER :: nat where "environment_HEADER \<equiv> 56"
abbreviation (input) environment_BINDING :: nat where "environment_BINDING \<equiv> 24"
abbreviation (input) binding_NAME :: nat where "binding_NAME \<equiv> 4"
abbreviation (input) binding_VALUE :: nat where "binding_VALUE \<equiv> 12"
abbreviation (input) reactions_COUNT :: nat where "reactions_COUNT \<equiv> 0"
abbreviation (input) reactions_HEADER :: nat where "reactions_HEADER \<equiv> 8"
abbreviation (input) reactions_RECORD :: nat where "reactions_RECORD \<equiv> 32"
abbreviation (input) reaction_ON_FULFILLED :: nat where "reaction_ON_FULFILLED \<equiv> 1"
abbreviation (input) reaction_ON_REJECTED :: nat where "reaction_ON_REJECTED \<equiv> 10"
abbreviation (input) reaction_DERIVED :: nat where "reaction_DERIVED \<equiv> 19"

subsection \<open>Gathering children\<close>

abbreviation (input) gc_chunk :: nat where "gc_chunk \<equiv> 32"

definition push_handle :: "nat \<Rightarrow> handle list \<Rightarrow> handle \<Rightarrow> handle list" where
  "push_handle capacity children h = (if length children < capacity then children @ [h] else children)"

definition push_value :: "nat \<Rightarrow> handle list \<Rightarrow> jsvalue \<Rightarrow> handle list" where
  "push_value capacity children v =
     (if \<not> holds_reference v then children else push_handle capacity children (as_handle v))"

definition push_short :: "nat \<Rightarrow> handle list \<Rightarrow> byte list \<Rightarrow> nat \<Rightarrow> handle list" where
  "push_short capacity children bytes at = push_value capacity children (decode_short_at bytes at)"

definition push_option :: "nat \<Rightarrow> handle list \<Rightarrow> handle option \<Rightarrow> handle list" where
  "push_option capacity children r = (case r of None \<Rightarrow> children | Some h \<Rightarrow> push_handle capacity children h)"

definition shade_all :: "heap \<Rightarrow> handle list \<Rightarrow> heap" where
  "shade_all h children = fold (\<lambda>k h. heap_shade h k) children h"

definition trace_object :: "heap \<Rightarrow> handle \<Rightarrow> heap" where
  "trace_object h hdl =
     (case heap_cell h hdl of
        Inl _ \<Rightarrow> h
      | Inr cell \<Rightarrow>
          (let children = push_value 5 [] (decode_at cell object_PROTOTYPE) in
           if length cell < object_INTERNAL then h
           else
             (let children = push_option 5 children (handle_read_at cell object_TABLE);
                  children = push_value 5 children (decode_at cell object_SLOT);
                  children = push_option 5 children (handle_read_at cell object_HOME);
                  children = push_option 5 children (handle_read_at cell object_REACTIONS)
              in shade_all h children)))"

text \<open>
  The inner loop of the three record tracers: records are taken while there is one, the array has
  room for \<open>need\<close> more handles, and the record lies in the cell. The result is the children, the
  index reached and how many records were taken.
\<close>

function record_chunk ::
  "nat \<Rightarrow> nat \<Rightarrow> nat \<Rightarrow> (handle list \<Rightarrow> byte list \<Rightarrow> handle list) \<Rightarrow> byte list \<Rightarrow> nat \<Rightarrow> nat \<Rightarrow> handle list \<Rightarrow> nat \<Rightarrow>
     handle list \<times> nat \<times> nat" where
  "record_chunk header width need take_record cell entries index children records =
     (if index < entries \<and> length children + need \<le> gc_chunk then
        (let at = header + index * width in
         case subrange cell at (at + width) of
           None \<Rightarrow> (children, index, records)
         | Some record \<Rightarrow>
             record_chunk header width need take_record cell entries (index + 1)
               (take_record children record) (records + 1))
      else (children, index, records))"
  by pat_completeness auto
termination
  by (relation "measure (\<lambda>(_, _, _, _, _, entries, index, _, _). entries - index)") auto

declare record_chunk.simps [simp del]

definition take_property :: "handle list \<Rightarrow> byte list \<Rightarrow> handle list" where
  "take_property children record =
     (let children =
            (if (case get_at record record_KIND of None \<Rightarrow> 0 | Some b \<Rightarrow> b) \<noteq> 0 then
               (case field 8 record record_KEY of
                  None \<Rightarrow> children
                | Some payload \<Rightarrow> push_handle gc_chunk children (handle_unpack (of_nat (of_le payload))))
             else children);
          children = push_value gc_chunk children (decode_at record record_FIRST)
      in push_short gc_chunk children record record_SECOND)"

definition take_binding :: "handle list \<Rightarrow> byte list \<Rightarrow> handle list" where
  "take_binding children record =
     (let children =
            (case field 8 record binding_NAME of
               None \<Rightarrow> children
             | Some name \<Rightarrow>
                 push_handle gc_chunk children
                   (handle_new (of_nat (of_le (take 4 name))) (of_nat (of_le (drop 4 name)))))
      in push_value gc_chunk children (decode_at record binding_VALUE))"

definition take_reaction :: "handle list \<Rightarrow> byte list \<Rightarrow> handle list" where
  "take_reaction children record =
     (let children = push_value gc_chunk children (decode_at record reaction_ON_FULFILLED);
          children = push_value gc_chunk children (decode_at record reaction_ON_REJECTED)
      in push_value gc_chunk children (decode_at record reaction_DERIVED))"

lemma record_chunk_progress:
  "record_chunk header width need f cell entries index children records = (cs, j, k) \<Longrightarrow>
     records \<le> k \<and> j = index + (k - records)"
proof (induction header width need f cell entries index children records rule: record_chunk.induct)
  case (1 header width need f cell entries index children records)
  show ?case
  proof (cases "index < entries \<and> length children + need \<le> gc_chunk \<and>
      subrange cell (header + index * width) (header + index * width + width) \<noteq> None")
    case True
    then obtain r where "subrange cell (header + index * width) (header + index * width + width) = Some r" by auto
    note r = this
    have "record_chunk header width need f cell entries (index + 1) (f children r) (records + 1) = (cs, j, k)"
      using "1.prems" True r by (simp add: record_chunk.simps [of header width need f cell entries index])
    from "1.IH" [OF _ refl r this] True show ?thesis by auto
  next
    case False
    with 1 show ?thesis
      by (auto simp: record_chunk.simps [of header width need f cell entries index] Let_def split: if_splits)
  qed
qed

text \<open>The outer loops: a table and a reaction list start with nothing gathered.\<close>

function trace_records ::
  "nat \<Rightarrow> nat \<Rightarrow> nat \<Rightarrow> nat \<Rightarrow> (handle list \<Rightarrow> byte list \<Rightarrow> handle list) \<Rightarrow> heap \<Rightarrow> handle \<Rightarrow> nat \<Rightarrow> heap" where
  "trace_records header counted width need take_record h hdl index =
     (case heap_cell h hdl of
        Inl _ \<Rightarrow> h
      | Inr cell \<Rightarrow>
          (case field 4 cell counted of
             None \<Rightarrow> h
           | Some counted_field \<Rightarrow>
               (let entries = of_le counted_field in
                if entries \<le> index then h
                else
                  (case record_chunk header width need take_record cell entries index [] 0 of
                     (children, index', records) \<Rightarrow>
                       (let h = shade_all h children in
                        if records = 0 then h
                        else trace_records header counted width need take_record h hdl index')))))"
  by pat_completeness auto
termination
proof (relation "measure (\<lambda>(_, _, _, _, _, _, _, index). 2 ^ 32 - index)", goal_cases)
  case (2 header counted width need f h hdl index cell counted_field entries children rest index' records h')
  have "length counted_field = 4" using 2(2) length_subrange by (fastforce simp: field_def)
  then have "entries < 2 ^ 32" using 2(3) of_le_bound [of counted_field] by simp
  moreover have "index' = index + records"
    using record_chunk_progress [of header width need f cell entries index "[]" 0 children index' records] 2 by simp
  ultimately show ?case using 2 by auto
qed simp

declare trace_records.simps [simp del]

definition trace_property_table :: "heap \<Rightarrow> handle \<Rightarrow> heap" where
  "trace_property_table h hdl =
     trace_records object_TABLE_HEADER object_TABLE_COUNT object_RECORD 3 take_property h hdl 0"

definition trace_reactions :: "heap \<Rightarrow> handle \<Rightarrow> heap" where
  "trace_reactions h hdl =
     trace_records reactions_HEADER reactions_COUNT reactions_RECORD 3 take_reaction h hdl 0"

text \<open>An environment's first chunk starts with the four values of its header.\<close>

definition environment_head :: "byte list \<Rightarrow> handle list" where
  "environment_head cell =
     (let children = push_value gc_chunk [] (decode_at cell environment_PARENT);
          children = push_value gc_chunk children (decode_at cell environment_THIS);
          children = push_value gc_chunk children (decode_at cell environment_NEW_TARGET)
      in push_value gc_chunk children (decode_at cell environment_FUNCTION))"

function trace_bindings :: "heap \<Rightarrow> handle \<Rightarrow> nat \<Rightarrow> bool \<Rightarrow> heap" where
  "trace_bindings h hdl index initial =
     (case heap_cell h hdl of
        Inl _ \<Rightarrow> h
      | Inr cell \<Rightarrow>
          (let children = (if initial then environment_head cell else []) in
           case field 4 cell environment_COUNT of
             None \<Rightarrow> h
           | Some counted_field \<Rightarrow>
               (let entries = of_le counted_field in
                if entries \<le> index \<and> children = [] then h
                else
                  (case record_chunk environment_HEADER environment_BINDING 2 take_binding cell entries index children 0 of
                     (children, index', bindings) \<Rightarrow>
                       (let h = shade_all h children in
                        if bindings = 0 then h else trace_bindings h hdl index' False)))))"
  by pat_completeness auto
termination
proof (relation "measure (\<lambda>(_, _, index, _). 2 ^ 32 - index)", goal_cases)
  case (2 h hdl index initial cell cs counted_field entries children rest index' bindings h')
  have "length counted_field = 4" using 2(3) length_subrange by (fastforce simp: field_def)
  then have t: "entries < 2 ^ 32" using 2(4) of_le_bound [of counted_field] by simp
  have p: "index' = index + bindings"
    using record_chunk_progress [of _ _ _ _ cell entries index cs 0 children index' bindings] 2 by simp
  have "index < entries"
  proof (rule ccontr)
    assume "\<not> index < entries"
    then have "bindings = 0" using 2 by (simp add: record_chunk.simps)
    then show False using 2 by simp
  qed
  then show ?case using t p 2 by auto
qed simp

declare trace_bindings.simps [simp del]

definition trace_environment :: "heap \<Rightarrow> handle \<Rightarrow> heap" where
  "trace_environment h hdl = trace_bindings h hdl 0 True"

definition trace :: "heap \<Rightarrow> handle \<Rightarrow> heap" where
  "trace h hdl =
     (case heap_kind h hdl of
        Inl _ \<Rightarrow> h
      | Inr ObjectCell \<Rightarrow> trace_object h hdl
      | Inr PropertyTableCell \<Rightarrow> trace_property_table h hdl
      | Inr EnvironmentCell \<Rightarrow> trace_environment h hdl
      | Inr ElementsCell \<Rightarrow> trace_reactions h hdl
      | Inr _ \<Rightarrow> h)"

subsection \<open>The driver\<close>

text \<open>\<open>left\<close> is what the budget still allows to visit.\<close>

fun mark_slice :: "nat \<Rightarrow> heap \<Rightarrow> phase \<times> heap" where
  "mark_slice 0 h = (Marking, h)"
| "mark_slice (Suc left) h =
     (case next_grey h of
        (None, h) \<Rightarrow> (let h = begin_compaction h in (hp_phase h, h))
      | (Some hdl, h) \<Rightarrow> mark_slice left (trace h hdl))"

definition collect_slice :: "heap \<Rightarrow> nat \<Rightarrow> (phase \<times> heap) option" where
  "collect_slice h budget =
     (case hp_phase h of
        Idle \<Rightarrow> Some (Idle, h)
      | Marking \<Rightarrow> Some (mark_slice budget h)
      | Compacting \<Rightarrow>
          map_option (\<lambda>(finished, h). (if finished then Idle else Compacting, h)) (compact_step h budget))"

text \<open>The loop of \<open>collect\<close> runs slices until the heap is idle; \<open>None\<close> is a loop that never ends.\<close>

partial_function (option) collect_loop :: "heap \<Rightarrow> nat \<Rightarrow> heap option" where
  "collect_loop h budget =
     (if hp_phase h = Idle then Some h
      else case collect_slice h budget of None \<Rightarrow> None | Some (_, h) \<Rightarrow> collect_loop h budget)"

definition collect :: "heap \<Rightarrow> handle list \<Rightarrow> nat \<Rightarrow> (heap_error + heap) option" where
  "collect h roots budget =
     (case begin_collection h roots of
        Inl e \<Rightarrow> Some (Inl e)
      | Inr h \<Rightarrow> map_option Inr (collect_loop h budget))"

end
