(* ===== verification/Gc_Trace.thy ===== *)
theory Gc_Trace
  imports Gc
begin

text \<open>
  Tracing shades exactly the children of a cell. Shading changes marks and the list of grey cells
  and nothing else, so the cell read again for every chunk is the same cell, and the chunked loops
  are one pass over the records.
\<close>

subsection \<open>Shading changes only marks\<close>

definition erase_mark :: "slot \<Rightarrow> slot" where
  "erase_mark s = s\<lparr>s_mark := 0\<rparr>"

definition same_cells :: "heap \<Rightarrow> heap \<Rightarrow> bool" where
  "same_cells h h' \<longleftrightarrow>
     hp_arena h' = hp_arena h \<and> map erase_mark (hp_slots h') = map erase_mark (hp_slots h) \<and>
     hp_used h' = hp_used h \<and> hp_live h' = hp_live h \<and> hp_phase h' = hp_phase h"

lemma same_cells_refl [simp]: "same_cells h h"
  by (simp add: same_cells_def)

lemma same_cells_trans: "same_cells a b \<Longrightarrow> same_cells b c \<Longrightarrow> same_cells a c"
  by (simp add: same_cells_def)

lemma same_cells_slots:
  assumes "same_cells h h'"
  shows "length (hp_slots h') = length (hp_slots h)"
    "i < length (hp_slots h) \<Longrightarrow> s_offset (hp_slots h' ! i) = s_offset (hp_slots h ! i) \<and>
       s_length (hp_slots h' ! i) = s_length (hp_slots h ! i) \<and> s_kind (hp_slots h' ! i) = s_kind (hp_slots h ! i) \<and>
       s_generation (hp_slots h' ! i) = s_generation (hp_slots h ! i)"
proof -
  have eq: "map erase_mark (hp_slots h') = map erase_mark (hp_slots h)" using assms by (simp add: same_cells_def)
  then show len: "length (hp_slots h') = length (hp_slots h)" by (rule map_eq_imp_length_eq)
  assume i: "i < length (hp_slots h)"
  then have "erase_mark (hp_slots h' ! i) = erase_mark (hp_slots h ! i)"
    using arg_cong [OF eq, of "\<lambda>xs. xs ! i"] len by simp
  then show "s_offset (hp_slots h' ! i) = s_offset (hp_slots h ! i) \<and>
       s_length (hp_slots h' ! i) = s_length (hp_slots h ! i) \<and> s_kind (hp_slots h' ! i) = s_kind (hp_slots h ! i) \<and>
       s_generation (hp_slots h' ! i) = s_generation (hp_slots h ! i)"
    by (cases "hp_slots h' ! i"; cases "hp_slots h ! i") (simp add: erase_mark_def)
qed

lemma same_cells_names: "same_cells h h' \<Longrightarrow> slot_names (hp_slots h') k \<longleftrightarrow> slot_names (hp_slots h) k"
  using same_cells_slots [of h h'] by (auto simp: slot_names_def)

lemma same_cells_read:
  assumes "same_cells h h'"
  shows "heap_cell h' k = heap_cell h k" "heap_kind h' k = heap_kind h k" "store h' k = store h k"
proof -
  note names = same_cells_names [OF assms, of k]
  have arena: "hp_arena h' = hp_arena h" using assms by (simp add: same_cells_def)
  show cell: "heap_cell h' k = heap_cell h k"
  proof (cases "slot_names (hp_slots h) k")
    case True
    then have "heap_slot h k = Inr (hp_slots h ! unat (h_index k))" "heap_slot h' k = Inr (hp_slots h' ! unat (h_index k))"
      using names by (simp_all add: heap_slot_Inr)
    then show ?thesis using True same_cells_slots(2) [OF assms, of "unat (h_index k)"] arena
      by (simp add: heap_cell_def slot_names_def)
  next
    case False
    then have "heap_slot h k = Inl StaleHandle" "heap_slot h' k = Inl StaleHandle" using names by (simp_all add: heap_slot_Inl)
    then show ?thesis by (simp add: heap_cell_def)
  qed
  show kind: "heap_kind h' k = heap_kind h k"
  proof (cases "slot_names (hp_slots h) k")
    case True
    then have "heap_slot h k = Inr (hp_slots h ! unat (h_index k))" "heap_slot h' k = Inr (hp_slots h' ! unat (h_index k))"
      using names by (simp_all add: heap_slot_Inr)
    then show ?thesis using True same_cells_slots(2) [OF assms, of "unat (h_index k)"]
      by (simp add: heap_kind_def slot_names_def)
  next
    case False
    then have "heap_slot h k = Inl StaleHandle" "heap_slot h' k = Inl StaleHandle" using names by (simp_all add: heap_slot_Inl)
    then show ?thesis by (simp add: heap_kind_def)
  qed
  show "store h' k = store h k" using cell kind by (simp add: store_def)
qed

lemma map_erase_update: "i < length slots \<Longrightarrow> erase_mark s = erase_mark (slots ! i) \<Longrightarrow>
    map erase_mark (slots[i := s]) = map erase_mark slots"
  by (metis length_map list_update_id map_update nth_map)

definition mark_at :: "heap \<Rightarrow> nat \<Rightarrow> nat" where
  "mark_at h i = s_mark (hp_slots h ! i)"

text \<open>What a shade does: one white slot that the handle names turns grey.\<close>

lemma heap_shade_same: "same_cells h (heap_shade h k)"
  by (auto simp: same_cells_def heap_shade_def Let_def get_at_def map_erase_update erase_mark_def split: option.splits)

lemma heap_shade_mark:
  "mark_at (heap_shade h k) i =
     (if slot_names (hp_slots h) k \<and> i = unat (h_index k) \<and> mark_at h i = WHITE then GREY else mark_at h i)"
  by (auto simp: mark_at_def heap_shade_def Let_def get_at_def slot_names_def nth_list_update)

lemma shade_all_Nil [simp]: "shade_all h [] = h"
  by (simp add: shade_all_def)

lemma shade_all_Cons [simp]: "shade_all h (k # ks) = shade_all (heap_shade h k) ks"
  by (simp add: shade_all_def)

lemma shade_all_append: "shade_all h (xs @ ys) = shade_all (shade_all h xs) ys"
  by (simp add: shade_all_def)

lemma shade_all_same: "same_cells h (shade_all h ks)"
  by (induction ks arbitrary: h) (auto intro: same_cells_trans heap_shade_same)

subsection \<open>Children, one record after another\<close>

fun records_from :: "nat \<Rightarrow> nat \<Rightarrow> (byte list \<Rightarrow> handle list) \<Rightarrow> byte list \<Rightarrow> nat \<Rightarrow> nat \<Rightarrow> handle list" where
  "records_from header width g cell 0 index = []"
| "records_from header width g cell (Suc n) index =
     (case subrange cell (header + index * width) (header + index * width + width) of
        None \<Rightarrow> []
      | Some record \<Rightarrow> g record @ records_from header width g cell n (index + 1))"

text \<open>A record's handles are appended whole when the array has room for the most it can hold.\<close>

definition appends :: "nat \<Rightarrow> (handle list \<Rightarrow> byte list \<Rightarrow> handle list) \<Rightarrow> bool" where
  "appends need f \<longleftrightarrow>
     (\<forall>children record. length children + need \<le> gc_chunk \<longrightarrow> f children record = children @ f [] record)"

definition value_handles :: "jsvalue \<Rightarrow> handle list" where
  "value_handles v = (if holds_reference v then [as_handle v] else [])"

lemma length_value_handles: "length (value_handles v) \<le> 1"
  by (simp add: value_handles_def)

lemma push_value_append: "length cs < n \<Longrightarrow> push_value n cs v = cs @ value_handles v"
  by (simp add: push_value_def push_handle_def value_handles_def)

definition property_key :: "byte list \<Rightarrow> handle list" where
  "property_key record =
     (if (case get_at record record_KIND of None \<Rightarrow> 0 | Some b \<Rightarrow> b) \<noteq> 0 then
        (case field 8 record record_KEY of None \<Rightarrow> [] | Some payload \<Rightarrow> [handle_unpack (of_nat (of_le payload))])
      else [])"

definition binding_name :: "byte list \<Rightarrow> handle list" where
  "binding_name record =
     (case field 8 record binding_NAME of
        None \<Rightarrow> []
      | Some name \<Rightarrow> [handle_new (of_nat (of_le (take 4 name))) (of_nat (of_le (drop 4 name)))])"

lemma length_keys: "length (property_key r) \<le> 1" "length (binding_name r) \<le> 1"
  by (simp_all add: property_key_def binding_name_def split: option.splits)

text \<open>
  What a record or a header refers to, read off its layout: the key, both values of a property, the
  name and the value of a binding, the three values of a reaction, and the four values at the head of
  an environment. The tracer is not used here; the lemmas below say that it collects these.
\<close>

definition property_refs :: "byte list \<Rightarrow> handle list" where
  "property_refs record =
     property_key record @ value_handles (decode_at record record_FIRST) @ value_handles (decode_short_at record record_SECOND)"

definition binding_refs :: "byte list \<Rightarrow> handle list" where
  "binding_refs record = binding_name record @ value_handles (decode_at record binding_VALUE)"

definition reaction_refs :: "byte list \<Rightarrow> handle list" where
  "reaction_refs record =
     concat (map (\<lambda>at. value_handles (decode_at record at)) [reaction_ON_FULFILLED, reaction_ON_REJECTED, reaction_DERIVED])"

definition environment_refs :: "byte list \<Rightarrow> handle list" where
  "environment_refs cell =
     concat (map (\<lambda>at. value_handles (decode_at cell at))
       [environment_PARENT, environment_THIS, environment_NEW_TARGET, environment_FUNCTION])"

lemma take_property_append:
  assumes "length cs + 3 \<le> gc_chunk"
  shows "take_property cs r = cs @ property_refs r"
proof -
  have "(if (case get_at r record_KIND of None \<Rightarrow> 0 | Some b \<Rightarrow> b) \<noteq> 0 then
      (case field 8 r record_KEY of None \<Rightarrow> cs
       | Some payload \<Rightarrow> push_handle gc_chunk cs (handle_unpack (of_nat (of_le payload)))) else cs) = cs @ property_key r"
    using assms by (simp add: property_key_def push_handle_def split: option.split)
  moreover have "length (cs @ property_key r) < gc_chunk"
    "length ((cs @ property_key r) @ value_handles (decode_at r record_FIRST)) < gc_chunk"
    using assms length_keys(1) [of r] length_value_handles [of "decode_at r record_FIRST"] by simp_all
  ultimately show ?thesis
    unfolding take_property_def property_refs_def Let_def push_short_def by (simp only: push_value_append append_assoc)
qed

lemma take_binding_append:
  assumes "length cs + 2 \<le> gc_chunk"
  shows "take_binding cs r = cs @ binding_refs r"
proof -
  have "(case field 8 r binding_NAME of None \<Rightarrow> cs
      | Some name \<Rightarrow> push_handle gc_chunk cs
          (handle_new (of_nat (of_le (take 4 name))) (of_nat (of_le (drop 4 name))))) = cs @ binding_name r"
    using assms by (simp add: binding_name_def push_handle_def split: option.split)
  moreover have "length (cs @ binding_name r) < gc_chunk" using assms length_keys(2) [of r] by simp
  ultimately show ?thesis
    unfolding take_binding_def binding_refs_def Let_def by (simp only: push_value_append append_assoc)
qed

lemma take_reaction_append:
  assumes "length cs + 3 \<le> gc_chunk"
  shows "take_reaction cs r = cs @ reaction_refs r"
proof -
  let ?a = "value_handles (decode_at r reaction_ON_FULFILLED)" and ?b = "value_handles (decode_at r reaction_ON_REJECTED)"
  have "length cs < gc_chunk" "length (cs @ ?a) < gc_chunk" "length ((cs @ ?a) @ ?b) < gc_chunk"
    using assms length_value_handles [of "decode_at r reaction_ON_FULFILLED"]
      length_value_handles [of "decode_at r reaction_ON_REJECTED"] by simp_all
  then show ?thesis
    unfolding take_reaction_def reaction_refs_def Let_def
    by (simp only: push_value_append append_assoc list.map concat.simps append_Nil2)
qed

lemma environment_head_refs: "environment_head cell = environment_refs cell"
proof -
  let ?v = "\<lambda>at. value_handles (decode_at cell at)"
  let ?a = "?v environment_PARENT" and ?b = "?v environment_THIS" and ?c = "?v environment_NEW_TARGET"
  have "length ([] :: handle list) < gc_chunk" "length ([] @ ?a) < gc_chunk" "length (([] @ ?a) @ ?b) < gc_chunk"
    "length ((([] @ ?a) @ ?b) @ ?c) < gc_chunk"
    using length_value_handles [of "decode_at cell environment_PARENT"]
      length_value_handles [of "decode_at cell environment_THIS"]
      length_value_handles [of "decode_at cell environment_NEW_TARGET"] by simp_all
  then show ?thesis
    unfolding environment_head_def environment_refs_def Let_def
    by (simp only: push_value_append append_assoc list.map concat.simps append_Nil2 append_Nil)
qed

lemma appends_records: "appends 3 take_property" "appends 2 take_binding" "appends 3 take_reaction"
  by (simp_all add: appends_def take_property_append take_binding_append take_reaction_append)

lemma take_refs: "take_property [] = property_refs" "take_binding [] = binding_refs" "take_reaction [] = reaction_refs"
  by (simp_all add: fun_eq_iff take_property_append take_binding_append take_reaction_append)

lemma record_chunk_seq:
  assumes "appends need f" "record_chunk header width need f cell entries index children records = (cs, j, k)"
  shows "\<exists>xs. cs = children @ xs \<and> records \<le> k \<and> index \<le> j \<and>
    records_from header width (f []) cell (entries - index) index =
      xs @ records_from header width (f []) cell (entries - j) j \<and>
    (k = records \<longrightarrow> xs = [] \<and> j = index \<and>
      (length children + need \<le> gc_chunk \<longrightarrow> records_from header width (f []) cell (entries - index) index = []))"
  using assms(2)
proof (induction d \<equiv> "entries - index" arbitrary: index children records)
  case 0
  then have le: "entries \<le> index" by simp
  then have "record_chunk header width need f cell entries index children records = (children, index, records)"
    by (subst record_chunk.simps) simp
  then show ?case using "0.prems" le by simp
next
  case (Suc n)
  let ?at = "header + index * width"
  show ?case
  proof (cases "length children + need \<le> gc_chunk \<and> subrange cell ?at (?at + width) \<noteq> None")
    case True
    then obtain r where r: "subrange cell ?at (?at + width) = Some r" by auto
    have f: "f children r = children @ f [] r"
      using assms(1) True unfolding appends_def by blast
    have lt: "index < entries" using Suc.hyps(2) by simp
    have "record_chunk header width need f cell entries index children records =
        record_chunk header width need f cell entries (index + 1) (children @ f [] r) (records + 1)"
      using True r f lt by (subst record_chunk.simps) (simp add: Let_def)
    with Suc.prems have step:
      "record_chunk header width need f cell entries (index + 1) (children @ f [] r) (records + 1) = (cs, j, k)" by simp
    have n: "n = entries - (index + 1)" using Suc.hyps(2) by simp
    from Suc.hyps(1) [OF n step] obtain xs where xs: "cs = (children @ f [] r) @ xs" "records + 1 \<le> k" "index + 1 \<le> j"
      "records_from header width (f []) cell (entries - (index + 1)) (index + 1) =
        xs @ records_from header width (f []) cell (entries - j) j" by blast
    have "records_from header width (f []) cell (entries - index) index =
        f [] r @ records_from header width (f []) cell n (index + 1)"
      using r unfolding Suc.hyps(2) [symmetric] by simp
    then show ?thesis using xs unfolding n by (intro exI [of _ "f [] r @ xs"]) simp
  next
    case False
    then have "record_chunk header width need f cell entries index children records = (children, index, records)"
      by (subst record_chunk.simps) (auto simp: Let_def)
    then have res: "cs = children" "j = index" "k = records" using Suc.prems by simp_all
    moreover have "length children + need \<le> gc_chunk \<longrightarrow> records_from header width (f []) cell (entries - index) index = []"
      using False unfolding Suc.hyps(2) [symmetric] by auto
    ultimately show ?thesis by auto
  qed
qed

text \<open>The children of a cell by its kind and bytes.\<close>

definition counted_records ::
  "nat \<Rightarrow> nat \<Rightarrow> nat \<Rightarrow> (byte list \<Rightarrow> handle list) \<Rightarrow> byte list \<Rightarrow> handle list" where
  "counted_records header counted width g cell =
     (case field 4 cell counted of None \<Rightarrow> [] | Some f \<Rightarrow> records_from header width g cell (of_le f) 0)"

definition object_children :: "byte list \<Rightarrow> handle list" where
  "object_children cell =
     (if length cell < object_INTERNAL then []
      else value_handles (decode_at cell object_PROTOTYPE) @ (case handle_read_at cell object_TABLE of None \<Rightarrow> [] | Some k \<Rightarrow> [k]) @
        value_handles (decode_at cell object_SLOT) @ (case handle_read_at cell object_HOME of None \<Rightarrow> [] | Some k \<Rightarrow> [k]) @
        (case handle_read_at cell object_REACTIONS of None \<Rightarrow> [] | Some k \<Rightarrow> [k]))"

definition environment_children :: "byte list \<Rightarrow> handle list" where
  "environment_children cell =
     (case field 4 cell environment_COUNT of
        None \<Rightarrow> []
      | Some f \<Rightarrow> environment_refs cell @ records_from environment_HEADER environment_BINDING binding_refs cell (of_le f) 0)"

fun cell_children :: "cell_kind \<Rightarrow> byte list \<Rightarrow> handle list" where
  "cell_children ObjectCell cell = object_children cell"
| "cell_children PropertyTableCell cell =
     counted_records object_TABLE_HEADER object_TABLE_COUNT object_RECORD property_refs cell"
| "cell_children EnvironmentCell cell = environment_children cell"
| "cell_children ElementsCell cell =
     counted_records reactions_HEADER reactions_COUNT reactions_RECORD reaction_refs cell"
| "cell_children _ cell = []"

lemma push_option_append:
  "length cs < n \<Longrightarrow> push_option n cs r = cs @ (case r of None \<Rightarrow> [] | Some k \<Rightarrow> [k])"
  by (simp add: push_option_def push_handle_def split: option.splits)

lemma trace_object_children:
  assumes "heap_cell h hdl = Inr cell"
  shows "trace_object h hdl = shade_all h (object_children cell)"
proof (cases "length cell < object_INTERNAL")
  case False
  let ?o = "\<lambda>r. case r of None \<Rightarrow> [] | Some k \<Rightarrow> [k :: handle]"
  have o: "length (?o r) \<le> 1" for r by (cases r) simp_all
  let ?a = "value_handles (decode_at cell object_PROTOTYPE)" and ?b = "?o (handle_read_at cell object_TABLE)"
  let ?c = "value_handles (decode_at cell object_SLOT)" and ?d = "?o (handle_read_at cell object_HOME)"
  have "length ([] :: handle list) < 5" "length ([] @ ?a) < 5" "length (([] @ ?a) @ ?b) < 5" "length ((([] @ ?a) @ ?b) @ ?c) < 5"
    "length (((([] @ ?a) @ ?b) @ ?c) @ ?d) < 5"
    using length_value_handles [of "decode_at cell object_PROTOTYPE"] length_value_handles [of "decode_at cell object_SLOT"]
      o [of "handle_read_at cell object_TABLE"] o [of "handle_read_at cell object_HOME"] by simp_all
  then show ?thesis
    using False unfolding trace_object_def assms sum.case Let_def object_children_def
    by (simp only: push_value_append push_option_append if_False append_assoc append_Nil)
qed (simp add: trace_object_def assms object_children_def Let_def)

lemma trace_records_children:
  assumes "appends need f" "need \<le> gc_chunk" "heap_cell h hdl = Inr cell"
  shows "trace_records header counted width need f h hdl index =
    (case field 4 cell counted of
       None \<Rightarrow> h
     | Some x \<Rightarrow> shade_all h (records_from header width (f []) cell (of_le x - index) index))"
  using assms(3)
proof (induction "2 ^ 32 - index" arbitrary: h index rule: less_induct)
  case less
  note cell = less.prems
  show ?case
  proof (cases "field 4 cell counted")
    case None
    then show ?thesis by (subst trace_records.simps) (simp add: cell)
  next
    case (Some x)
    show ?thesis
    proof (cases "of_le x \<le> index")
      case True
      then show ?thesis by (subst trace_records.simps) (simp add: cell Some)
    next
      case False
      obtain cs j k where chunk: "record_chunk header width need f cell (of_le x) index [] 0 = (cs, j, k)"
        by (cases "record_chunk header width need f cell (of_le x) index [] 0") auto
      have step: "trace_records header counted width need f h hdl index =
          (if k = 0 then shade_all h cs else trace_records header counted width need f (shade_all h cs) hdl j)"
        using False by (subst trace_records.simps) (simp add: cell Some chunk Let_def)
      have need: "length ([] :: handle list) + need \<le> gc_chunk" using assms(2) by simp
      obtain xs where xs: "cs = [] @ xs" "records_from header width (f []) cell (of_le x - index) index =
          xs @ records_from header width (f []) cell (of_le x - j) j"
        "k = 0 \<Longrightarrow> records_from header width (f []) cell (of_le x - index) index = [] \<and> xs = []"
        using record_chunk_seq [OF assms(1) chunk] need by blast
      have j: "j = index + k" using record_chunk_progress [OF chunk] by simp
      have x: "of_le x < 2 ^ 32" using of_le_bound [of x] length_subrange [of cell counted "counted + 4" x] Some by (simp add: field_def)
      show ?thesis
      proof (cases "k = 0")
        case True
        then show ?thesis using xs(3) unfolding step Some xs(1) by simp
      next
        case k: False
        have m: "2 ^ 32 - j < 2 ^ 32 - index" using k j x False by linarith
        have c: "heap_cell (shade_all h cs) hdl = Inr cell"
          using same_cells_read(1) [OF shade_all_same] cell by simp
        from less.hyps [OF m c] show ?thesis
          using k unfolding step Some option.case by (subst xs(2)) (simp add: xs(1) shade_all_append)
      qed
    qed
  qed
qed

lemma length_environment_head: "length (environment_head cell) \<le> 4"
  by (simp add: environment_head_def Let_def push_value_def push_handle_def)

lemma trace_bindings_rest:
  assumes "heap_cell h hdl = Inr cell"
  shows "trace_bindings h hdl index False =
    trace_records environment_HEADER environment_COUNT environment_BINDING 2 take_binding h hdl index"
  using assms
proof (induction "2 ^ 32 - index" arbitrary: h index rule: less_induct)
  case less
  note cell = less.prems
  show ?case
  proof (cases "field 4 cell environment_COUNT")
    case None
    then show ?thesis by (subst trace_bindings.simps, subst trace_records.simps) (simp add: cell)
  next
    case (Some x)
    obtain cs j k where chunk: "record_chunk environment_HEADER environment_BINDING 2 take_binding cell (of_le x) index [] 0 = (cs, j, k)"
      by (cases "record_chunk environment_HEADER environment_BINDING 2 take_binding cell (of_le x) index [] 0") auto
    have j: "j = index + k" using record_chunk_progress [OF chunk] by simp
    have x: "of_le x < 2 ^ 32"
      using of_le_bound [of x] length_subrange [of cell _ _ x] Some by (fastforce simp: field_def)
    have c: "heap_cell (shade_all h cs) hdl = Inr cell"
      using same_cells_read(1) [OF shade_all_same] cell by simp
    have "\<not> of_le x \<le> index \<Longrightarrow> k \<noteq> 0 \<Longrightarrow> 2 ^ 32 - j < 2 ^ 32 - index" using j x by linarith
    from less.hyps [OF this c] show ?thesis
      by (subst trace_bindings.simps, subst trace_records.simps) (simp add: cell Some chunk Let_def)
  qed
qed

lemma trace_environment_children:
  assumes "heap_cell h hdl = Inr cell"
  shows "trace_environment h hdl = shade_all h (environment_children cell)"
proof (cases "field 4 cell environment_COUNT")
  case None
  then show ?thesis
    unfolding trace_environment_def by (subst trace_bindings.simps) (simp add: assms environment_children_def Let_def)
next
  case (Some x)
  let ?e = "environment_head cell"
  obtain cs j k where chunk: "record_chunk environment_HEADER environment_BINDING 2 take_binding cell (of_le x) 0 ?e 0 = (cs, j, k)"
    by (cases "record_chunk environment_HEADER environment_BINDING 2 take_binding cell (of_le x) 0 ?e 0") auto
  have step: "trace_environment h hdl =
      (if of_le x = 0 \<and> ?e = [] then h
       else if k = 0 then shade_all h cs else trace_bindings (shade_all h cs) hdl j False)"
    unfolding trace_environment_def by (subst trace_bindings.simps) (simp add: assms Some chunk Let_def)
  have room: "length ?e + 2 \<le> gc_chunk" using length_environment_head [of cell] by simp
  obtain xs where xs: "cs = ?e @ xs"
    "records_from environment_HEADER environment_BINDING (take_binding []) cell (of_le x) 0 =
       xs @ records_from environment_HEADER environment_BINDING (take_binding []) cell (of_le x - j) j"
    "k = 0 \<Longrightarrow> records_from environment_HEADER environment_BINDING (take_binding []) cell (of_le x) 0 = [] \<and> xs = []"
    using record_chunk_seq [OF appends_records(2) chunk] room unfolding diff_zero by blast
  have c: "heap_cell (shade_all h cs) hdl = Inr cell"
    using same_cells_read(1) [OF shade_all_same] assms by simp
  note rest = trace_bindings_rest [OF c, of j]
    trace_records_children [OF appends_records(2) _ c, of environment_HEADER environment_COUNT environment_BINDING j]
  show ?thesis
  proof (cases "k = 0")
    case True
    then show ?thesis
      using xs(3) unfolding environment_children_def environment_head_refs [symmetric] take_refs(2) [symmetric] Some option.case step xs(1) by auto
  next
    case False
    have "of_le x \<noteq> 0"
    proof
      assume "of_le x = 0"
      then have "record_chunk environment_HEADER environment_BINDING 2 take_binding cell (of_le x) 0 ?e 0 = (?e, 0, 0)"
        by (subst record_chunk.simps) simp
      then show False using chunk False by simp
    qed
    moreover have "trace_bindings (shade_all h cs) hdl j False =
        shade_all (shade_all h cs) (records_from environment_HEADER environment_BINDING (take_binding []) cell (of_le x - j) j)"
      using rest Some by simp
    ultimately show ?thesis
      using False unfolding environment_children_def environment_head_refs [symmetric] take_refs(2) [symmetric] Some option.case step
      by (subst xs(2)) (simp add: xs(1) shade_all_append)
  qed
qed

text \<open>Tracing a cell is shading its children, in order.\<close>

lemma trace_children:
  assumes "store h hdl = Some (kind, cell)"
  shows "trace h hdl = shade_all h (cell_children kind cell)"
proof -
  have k: "heap_kind h hdl = Inr kind" and c: "heap_cell h hdl = Inr cell"
    using assms by (auto simp: store_def split: sum.splits)
  show ?thesis
    unfolding trace_def k
    by (cases kind) (simp_all add: trace_object_children [OF c] trace_environment_children [OF c]
      trace_property_table_def trace_reactions_def trace_records_children [OF appends_records(1) _ c]
      trace_records_children [OF appends_records(3) _ c] counted_records_def take_refs split: option.splits)
qed

end
