(* ===== verification/Gc_Collect.thy ===== *)
theory Gc_Collect
  imports Gc_Trace
begin

text \<open>
  A collection keeps exactly what the roots reach. Marking is the tri-colour argument: a black cell
  has no white child, so when no cell is grey the black cells are the reachable ones. Compaction then
  keeps the black cells, and the slices of the driver end, whatever the budget, unless it is zero.
\<close>

subsection \<open>Reachability\<close>

inductive reachable :: "heap \<Rightarrow> handle list \<Rightarrow> handle \<Rightarrow> bool" for h roots where
  root: "k \<in> set roots \<Longrightarrow> store h k \<noteq> None \<Longrightarrow> reachable h roots k"
| child: "reachable h roots k \<Longrightarrow> store h k = Some (kind, cell) \<Longrightarrow> c \<in> set (cell_children kind cell) \<Longrightarrow>
    store h c \<noteq> None \<Longrightarrow> reachable h roots c"

lemma reachable_stored: "reachable h roots k \<Longrightarrow> store h k \<noteq> None"
  by (cases rule: reachable.cases) auto

subsection \<open>The grey cells\<close>

definition worklist_ok :: "heap \<Rightarrow> bool" where
  "worklist_ok h \<longleftrightarrow> hp_worklist_length h \<le> length (hp_worklist h) \<and>
     (\<forall>n < hp_worklist_length h. hp_worklist h ! n < length (hp_slots h))"

definition grey_free :: "heap \<Rightarrow> bool" where
  "grey_free h \<longleftrightarrow> (\<forall>i < length (hp_slots h). mark_at h i \<noteq> GREY)"

lemma pop_grey_cases:
  assumes "n \<le> length wl" "\<forall>m < n. wl ! m < length slots"
  obtains (empty) "pop_grey wl slots n = (None, 0)"
    | (found) i m where "pop_grey wl slots n = (Some (Some i), m)" "m < n" "i < length slots" "s_mark (slots ! i) = GREY"
  using assms
proof (induction n arbitrary: thesis)
  case (Suc n)
  have get: "get_at wl n = Some (wl ! n)" "get_at slots (wl ! n) = Some (slots ! (wl ! n))"
    using Suc.prems(3,4) by (simp_all add: get_at_def)
  show ?case
  proof (cases "s_mark (slots ! (wl ! n)) = GREY")
    case True
    then show ?thesis using Suc.prems(2) [of "wl ! n" n] Suc.prems(4) get by simp
  next
    case False
    then have eq: "pop_grey wl slots (Suc n) = pop_grey wl slots n" using get by simp
    show ?thesis
    proof (rule Suc.IH)
      show "n \<le> length wl" "\<forall>m < n. wl ! m < length slots" using Suc.prems(3,4) by auto
    qed (use Suc.prems(1,2) eq in auto)
  qed
qed simp

lemma sweep_grey_Some: "sweep_grey slots n = Some i \<Longrightarrow> n \<le> i \<and> i - n < length slots \<and> s_mark (slots ! (i - n)) = GREY"
proof (induction slots arbitrary: n)
  case (Cons s slots)
  show ?case
  proof (cases "s_mark s = GREY")
    case False
    then have "Suc n \<le> i \<and> i - Suc n < length slots \<and> s_mark (slots ! (i - Suc n)) = GREY"
      using Cons.IH [of "Suc n"] Cons.prems by simp
    moreover have "Suc n \<le> i \<Longrightarrow> i - n = Suc (i - Suc n)" by simp
    ultimately show ?thesis by auto
  qed (use Cons.prems in auto)
qed simp

lemma sweep_grey_None: "sweep_grey slots n = None \<longleftrightarrow> (\<forall>s \<in> set slots. s_mark s \<noteq> GREY)"
  by (induction slots arbitrary: n) auto

lemma blacken_spec:
  assumes "i < length (hp_slots h)" "blacken h i = (hdl, h')"
  shows "hdl = handle_new (of_nat i) (s_generation (hp_slots h ! i))" "same_cells h h'"
    "mark_at h' j = (if j = i then BLACK else mark_at h j)"
    "hp_worklist h' = hp_worklist h" "hp_worklist_length h' = hp_worklist_length h"
  using assms
  by (auto simp: blacken_def Let_def same_cells_def map_erase_update erase_mark_def mark_at_def nth_list_update)

lemma worklist_shorter:
  "worklist_ok h \<Longrightarrow> m \<le> hp_worklist_length h \<Longrightarrow> worklist_ok (h\<lparr>hp_worklist_length := m\<rparr>)"
  by (simp add: worklist_ok_def)

lemma next_grey_spec:
  assumes "worklist_ok h" "next_grey h = (r, h')"
  shows "case r of
      None \<Rightarrow> grey_free h \<and> same_cells h h' \<and> worklist_ok h' \<and> mark_at h' = mark_at h
    | Some hdl \<Rightarrow> (\<exists>i < length (hp_slots h). mark_at h i = GREY \<and>
        hdl = handle_new (of_nat i) (s_generation (hp_slots h ! i)) \<and> same_cells h h' \<and> worklist_ok h' \<and>
        mark_at h' = (\<lambda>j. if j = i then BLACK else mark_at h j))"
proof -
  have wl: "hp_worklist_length h \<le> length (hp_worklist h)"
    "\<forall>m < hp_worklist_length h. hp_worklist h ! m < length (hp_slots h)"
    using assms(1) by (simp_all add: worklist_ok_def)
  have blackened: ?thesis if "i < length (hp_slots h)" "mark_at h i = GREY" "m \<le> hp_worklist_length h"
    "blacken (h\<lparr>hp_worklist_length := m\<rparr>) i = (hdl, h')" "r = Some hdl" for i m hdl
  proof -
    note b = blacken_spec [OF _ that(4)]
    have "worklist_ok h'"
      using worklist_shorter [OF assms(1) that(3)] b(2,4,5) that(1) same_cells_slots(1) [OF b(2)]
      by (simp add: worklist_ok_def)
    moreover have "mark_at h' = (\<lambda>j. if j = i then BLACK else mark_at h j)"
      using b(3) that(1) by (auto simp: fun_eq_iff mark_at_def)
    moreover have "same_cells h h'" using b(2) that(1) by (simp add: same_cells_def)
    ultimately show ?thesis using that b(1) by auto
  qed
  show ?thesis
  proof (cases rule: pop_grey_cases [OF wl, case_names empty found])
    case empty
    show ?thesis
    proof (cases "sweep_grey (hp_slots h) 0")
      case None
      then have "next_grey h = (None, h\<lparr>hp_worklist_length := 0\<rparr>)" using empty by (simp add: next_grey_def)
      then show ?thesis
        using assms(2) None worklist_shorter [OF assms(1), of 0]
        by (auto simp: sweep_grey_None grey_free_def mark_at_def same_cells_def fun_eq_iff)
    next
      case (Some i)
      then have "i < length (hp_slots h)" "mark_at h i = GREY" using sweep_grey_Some [OF Some] by (simp_all add: mark_at_def)
      then show ?thesis
        using assms(2) empty Some blackened [of i 0] by (auto simp: next_grey_def Let_def split: prod.splits)
    qed
  next
    case (found i m)
    then show ?thesis
      using assms(2) blackened [of i m] by (auto simp: next_grey_def mark_at_def split: prod.splits)
  qed
qed

subsection \<open>The tri-colour invariant\<close>

definition mark_inv :: "heap \<Rightarrow> handle list \<Rightarrow> (nat \<times> nat) list \<Rightarrow> heap \<Rightarrow> bool" where
  "mark_inv h0 roots cs h \<longleftrightarrow>
     heap_inv h cs \<and> hp_phase h = Marking \<and> store h = store h0 \<and> worklist_ok h \<and>
     (\<forall>i < length (hp_slots h). mark_at h i \<le> BLACK) \<and>
     (\<forall>i < length (hp_slots h). mark_at h i \<noteq> WHITE \<longrightarrow> s_kind (hp_slots h ! i) \<noteq> 0) \<and>
     (\<forall>k. store h0 k \<noteq> None \<and> mark_at h (unat (h_index k)) \<noteq> WHITE \<longrightarrow> reachable h0 roots k) \<and>
     (\<forall>k \<in> set roots. store h0 k \<noteq> None \<longrightarrow> mark_at h (unat (h_index k)) \<noteq> WHITE) \<and>
     (\<forall>k kind cell. store h0 k = Some (kind, cell) \<and> mark_at h (unat (h_index k)) = BLACK \<longrightarrow>
        (\<forall>c \<in> set (cell_children kind cell). store h0 c \<noteq> None \<longrightarrow> mark_at h (unat (h_index c)) \<noteq> WHITE))"

lemma same_cells_inv: "same_cells h h' \<Longrightarrow> heap_inv h cs \<Longrightarrow> heap_inv h' cs"
proof -
  assume s: "same_cells h h'" and inv: "heap_inv h cs"
  note slots = same_cells_slots [OF s]
  have "live_indices (hp_slots h') = live_indices (hp_slots h)" using slots by (auto simp: live_indices_def)
  moreover have "\<forall>s \<in> set (hp_slots h'). s_kind s \<le> 7"
  proof
    fix s
    assume "s \<in> set (hp_slots h')"
    then obtain i where i: "i < length (hp_slots h)" "s = hp_slots h' ! i" using slots(1) by (auto simp: in_set_conv_nth)
    have "s_kind (hp_slots h ! i) \<le> 7" using inv nth_mem [OF i(1)] by (simp add: heap_inv_def)
    then show "s_kind s \<le> 7" using slots(2) [OF i(1)] i(2) by simp
  qed
  moreover have "cell_ok (hp_arena h') (hp_slots h') c" if "cell_ok (hp_arena h) (hp_slots h) c" for c
    using that slots s by (cases c) (auto simp: cell_ok_def same_cells_def)
  ultimately show ?thesis using inv slots(1) s by (auto simp: heap_inv_def same_cells_def)
qed

lemma heap_shade_worklist: "worklist_ok h \<Longrightarrow> worklist_ok (heap_shade h k)"
  by (auto simp: worklist_ok_def heap_shade_def Let_def get_at_def nth_list_update less_Suc_eq split: option.splits)

lemma shade_all_worklist: "worklist_ok h \<Longrightarrow> worklist_ok (shade_all h ks)"
  by (induction ks arbitrary: h) (auto simp: heap_shade_worklist)

lemma shade_all_mark:
  "mark_at (shade_all h ks) i =
     (if (\<exists>k \<in> set ks. slot_names (hp_slots h) k \<and> unat (h_index k) = i) \<and> mark_at h i = WHITE then GREY else mark_at h i)"
proof (induction ks arbitrary: h)
  case (Cons k ks)
  show ?case
    unfolding shade_all_Cons Cons.IH same_cells_names [OF heap_shade_same] by (auto simp: heap_shade_mark)
qed simp

text \<open>The handle of a slot in use.\<close>

lemma slot_handle:
  assumes "heap_inv h cs" "i < length (hp_slots h)" "s_kind (hp_slots h ! i) \<noteq> 0"
  shows "unat (h_index (handle_new (of_nat i) g)) = i"
    "\<exists>kind cell. store h (handle_new (of_nat i) (s_generation (hp_slots h ! i))) = Some (kind, cell)"
proof -
  have "i < 2 ^ 32" using assms(1,2) by (simp add: heap_inv_def)
  then show i: "unat (h_index (handle_new (of_nat i) g)) = i" for g by (simp add: handle_new_def unat_of_nat)
  show "\<exists>kind cell. store h (handle_new (of_nat i) (s_generation (hp_slots h ! i))) = Some (kind, cell)"
    using assms(2,3) i by (intro store_live [OF assms(1)]) (simp add: slot_names_def handle_new_def)
qed

lemma store_names: "heap_inv h cs \<Longrightarrow> slot_names (hp_slots h) k \<longleftrightarrow> store h k \<noteq> None"
  using store_None_iff [of h cs k] by auto

text \<open>What visiting a grey cell does: it turns black and the white cells it refers to turn grey.\<close>

definition visited :: "heap \<Rightarrow> heap \<Rightarrow> handle \<Rightarrow> handle list \<Rightarrow> nat \<Rightarrow> nat" where
  "visited h0 h hdl ks j =
     (if j = unat (h_index hdl) then BLACK
      else if (\<exists>k \<in> set ks. store h0 k \<noteq> None \<and> unat (h_index k) = j) \<and> mark_at h j = WHITE then GREY
      else mark_at h j)"

lemma visit_shape:
  assumes "mark_inv h0 roots cs h" "next_grey h = (Some hdl, h1)"
  obtains kind cell where "unat (h_index hdl) < length (hp_slots h)" "mark_at h (unat (h_index hdl)) = GREY"
    "store h0 hdl = Some (kind, cell)" "same_cells h (trace h1 hdl)" "worklist_ok (trace h1 hdl)"
    "mark_at (trace h1 hdl) = visited h0 h hdl (cell_children kind cell)"
proof -
  note inv = assms(1) [unfolded mark_inv_def]
  obtain i where i: "i < length (hp_slots h)" "mark_at h i = GREY"
    "hdl = handle_new (of_nat i) (s_generation (hp_slots h ! i))" "same_cells h h1" "worklist_ok h1"
    "mark_at h1 = (\<lambda>j. if j = i then BLACK else mark_at h j)"
    using next_grey_spec [OF _ assms(2)] inv by auto
  have live: "s_kind (hp_slots h ! i) \<noteq> 0" using inv i(1,2) by auto
  obtain kind cell where sc: "store h hdl = Some (kind, cell)"
    using slot_handle(2) [of h cs i] inv i(1,3) live by auto
  have ix: "unat (h_index hdl) = i" using slot_handle(1) [of h cs i] inv i(1,3) live by simp
  let ?ks = "cell_children kind cell"
  have tr: "trace h1 hdl = shade_all h1 ?ks"
    by (rule trace_children) (simp add: same_cells_read(3) [OF i(4)] sc)
  have names: "slot_names (hp_slots h1) k \<longleftrightarrow> store h0 k \<noteq> None" for k
    using same_cells_names [OF i(4)] store_names [of h cs k] inv by simp
  show ?thesis
  proof (rule that)
    show "same_cells h (trace h1 hdl)" unfolding tr by (rule same_cells_trans [OF i(4) shade_all_same])
    show "worklist_ok (trace h1 hdl)" unfolding tr by (rule shade_all_worklist [OF i(5)])
    show "mark_at (trace h1 hdl) = visited h0 h hdl ?ks"
      unfolding tr fun_eq_iff shade_all_mark names i(6) visited_def ix using i(2) by auto
  qed (use i(1,2) ix sc inv in simp_all)
qed

lemma visited_reachable:
  assumes inv: "mark_inv h0 roots cs h" and mk: "mark_at h (unat (h_index hdl)) = GREY"
    and sc: "store h0 hdl = Some (kind, cell)" and st: "store h0 k \<noteq> None"
    and white: "visited h0 h hdl (cell_children kind cell) (unat (h_index k)) \<noteq> WHITE"
  shows "reachable h0 roots k"
proof (cases "mark_at h (unat (h_index k)) = WHITE")
  case True
  have names: "store h k = store h0 k" for k using inv by (simp add: mark_inv_def)
  have hi: "heap_inv h cs" using inv by (simp add: mark_inv_def)
  have same: "j = k" if "store h0 j \<noteq> None" "unat (h_index j) = unat (h_index k)" for j
    using handle_index_eq [of "hp_slots h" j k] store_names [OF hi] names that st by auto
  have "\<exists>c \<in> set (cell_children kind cell). store h0 c \<noteq> None \<and> unat (h_index c) = unat (h_index k)"
    using white True mk by (auto simp: visited_def split: if_splits)
  then have "k \<in> set (cell_children kind cell)" using same by auto
  moreover have "reachable h0 roots hdl" using inv mk sc unfolding mark_inv_def by auto
  ultimately show ?thesis using reachable.child [of h0 roots hdl kind cell k] sc st by simp
next
  case False
  then show ?thesis using inv st unfolding mark_inv_def by blast
qed

lemma visited_black:
  assumes inv: "mark_inv h0 roots cs h" and mk: "mark_at h (unat (h_index hdl)) = GREY"
    and sc: "store h0 hdl = Some (kind, cell)"
    and k: "store h0 k = Some (kd, cl)" "visited h0 h hdl (cell_children kind cell) (unat (h_index k)) = BLACK"
    and c: "c \<in> set (cell_children kd cl)" "store h0 c \<noteq> None"
  shows "visited h0 h hdl (cell_children kind cell) (unat (h_index c)) \<noteq> WHITE"
proof (cases "unat (h_index k) = unat (h_index hdl)")
  case True
  have hi: "heap_inv h cs" and eq: "store h = store h0" using inv by (simp_all add: mark_inv_def)
  have "k = hdl" using handle_index_eq [of "hp_slots h" k hdl] store_names [OF hi] eq k(1) sc True by auto
  then have "c \<in> set (cell_children kind cell)" using k(1) c(1) sc by simp
  then show ?thesis using c(2) by (auto simp: visited_def)
next
  case False
  then have "mark_at h (unat (h_index k)) = BLACK" using k(2) by (simp add: visited_def split: if_splits)
  then have "mark_at h (unat (h_index c)) \<noteq> WHITE" using inv k(1) c unfolding mark_inv_def by blast
  then show ?thesis by (simp add: visited_def)
qed

lemma visited_live:
  assumes inv: "mark_inv h0 roots cs h" and mk: "mark_at h (unat (h_index hdl)) = GREY" and same: "same_cells h h'"
    and j: "j < length (hp_slots h')" "visited h0 h hdl ks j \<noteq> WHITE"
  shows "s_kind (hp_slots h' ! j) \<noteq> 0"
proof -
  have len: "j < length (hp_slots h)" using same_cells_slots(1) [OF same] j(1) by simp
  have hi: "heap_inv h cs" and eq: "store h = store h0" using inv by (simp_all add: mark_inv_def)
  have "mark_at h j \<noteq> WHITE \<or> (\<exists>k. store h0 k \<noteq> None \<and> unat (h_index k) = j)"
    using j(2) mk by (auto simp: visited_def split: if_splits)
  then have "s_kind (hp_slots h ! j) \<noteq> 0"
  proof
    assume "\<exists>k. store h0 k \<noteq> None \<and> unat (h_index k) = j"
    then show ?thesis using store_names [OF hi] eq by (auto simp: slot_names_def)
  qed (use inv len in \<open>simp add: mark_inv_def\<close>)
  then show ?thesis using same_cells_slots(2) [OF same len] by simp
qed

text \<open>Visiting a grey cell keeps the invariant.\<close>

lemma mark_inv_visit:
  assumes "mark_inv h0 roots cs h" "next_grey h = (Some hdl, h1)"
  shows "mark_inv h0 roots cs (trace h1 hdl)"
proof -
  obtain kind cell where v: "mark_at h (unat (h_index hdl)) = GREY" "store h0 hdl = Some (kind, cell)"
    "same_cells h (trace h1 hdl)" "worklist_ok (trace h1 hdl)"
    "mark_at (trace h1 hdl) = visited h0 h hdl (cell_children kind cell)"
    by (rule visit_shape [OF assms])
  have "heap_inv (trace h1 hdl) cs" using same_cells_inv [OF v(3)] assms(1) by (simp add: mark_inv_def)
  moreover have "hp_phase (trace h1 hdl) = Marking" using v(3) assms(1) by (simp add: same_cells_def mark_inv_def)
  moreover have "store (trace h1 hdl) = store h0" using same_cells_read(3) [OF v(3)] assms(1) by (auto simp: mark_inv_def)
  moreover have "\<forall>k \<in> set roots. store h0 k \<noteq> None \<longrightarrow> visited h0 h hdl (cell_children kind cell) (unat (h_index k)) \<noteq> WHITE"
    using assms(1) by (auto simp: mark_inv_def visited_def)
  moreover have "\<forall>i < length (hp_slots (trace h1 hdl)). visited h0 h hdl (cell_children kind cell) i \<le> BLACK"
    using assms(1) same_cells_slots(1) [OF v(3)] by (simp add: mark_inv_def visited_def)
  ultimately show ?thesis
    unfolding mark_inv_def v(5)
    using visited_reachable [OF assms(1) v(1,2)] visited_black [OF assms(1) v(1,2)] visited_live [OF assms(1) v(1,3)] v(4)
    by blast
qed

text \<open>The cells still to be blackened, which bounds the marking.\<close>

definition pending :: "heap \<Rightarrow> nat set" where
  "pending h = {i. i < length (hp_slots h) \<and> mark_at h i \<noteq> BLACK}"

lemma pending_visit:
  assumes "mark_inv h0 roots cs h" "next_grey h = (Some hdl, h1)"
  shows "card (pending (trace h1 hdl)) < card (pending h)"
proof -
  obtain kind cell where v: "unat (h_index hdl) < length (hp_slots h)" "mark_at h (unat (h_index hdl)) = GREY"
    "same_cells h (trace h1 hdl)" "mark_at (trace h1 hdl) = visited h0 h hdl (cell_children kind cell)"
    by (rule visit_shape [OF assms])
  have "pending (trace h1 hdl) \<subseteq> pending h"
    unfolding pending_def v(4) using same_cells_slots(1) [OF v(3)] by (auto simp: visited_def split: if_splits)
  moreover have "unat (h_index hdl) \<in> pending h" "unat (h_index hdl) \<notin> pending (trace h1 hdl)"
    using v(1,2) unfolding pending_def v(4) by (simp_all add: visited_def)
  moreover have "finite (pending h)" by (simp add: pending_def)
  ultimately show ?thesis by (intro psubset_card_mono) auto
qed

subsection \<open>The start and the end of marking\<close>

definition unmarked :: "heap \<Rightarrow> heap" where
  "unmarked h = h\<lparr>hp_slots := map (\<lambda>slot. slot\<lparr>s_mark := WHITE\<rparr>) (hp_slots h), hp_worklist_length := 0,
     hp_phase := Marking, hp_reclaimed_cells := 0, hp_reclaimed_bytes := 0\<rparr>"

lemma begin_collection_eq:
  "begin_collection h roots = (if hp_phase h \<noteq> Idle then Inl Collecting else Inr (shade_all (unmarked h) roots))"
  by (simp add: begin_collection_def unmarked_def shade_all_def)

lemma unmarked_spec:
  assumes "heap_inv h cs"
  shows "heap_inv (unmarked h) cs" "store (unmarked h) = store h" "worklist_ok (unmarked h)"
    "hp_phase (unmarked h) = Marking" "i < length (hp_slots h) \<Longrightarrow> mark_at (unmarked h) i = WHITE"
proof -
  let ?h = "h\<lparr>hp_phase := Marking\<rparr>"
  have same: "same_cells ?h (unmarked h)" by (simp add: same_cells_def unmarked_def erase_mark_def comp_def)
  have "heap_inv ?h cs" using assms by (simp add: heap_inv_def)
  then show "heap_inv (unmarked h) cs" by (rule same_cells_inv [OF same])
  have "store ?h = store h" by (rule ext) (simp add: store_eq)
  then show "store (unmarked h) = store h" using same_cells_read(3) [OF same] by auto
qed (simp_all add: worklist_ok_def unmarked_def mark_at_def)

lemma begin_collection_inv:
  assumes "heap_inv h cs" "hp_phase h = Idle"
  shows "\<exists>h'. begin_collection h roots = Inr h' \<and> mark_inv h roots cs h'"
proof -
  note u = unmarked_spec [OF assms(1)]
  let ?h = "shade_all (unmarked h) roots"
  have same: "same_cells (unmarked h) ?h" by (rule shade_all_same)
  have names: "slot_names (hp_slots (unmarked h)) k \<longleftrightarrow> store h k \<noteq> None" for k
    using store_names [OF u(1)] u(2) by simp
  have len: "length (hp_slots (unmarked h)) = length (hp_slots h)" by (simp add: unmarked_def)
  have mark: "i < length (hp_slots h) \<Longrightarrow>
      mark_at ?h i = (if \<exists>k \<in> set roots. store h k \<noteq> None \<and> unat (h_index k) = i then GREY else WHITE)" for i
    unfolding shade_all_mark names using u(5) [of i] by auto
  have bound: "store h k \<noteq> None \<Longrightarrow> unat (h_index k) < length (hp_slots h)" for k
    using store_names [OF assms(1)] by (auto simp: slot_names_def)
  have same_handle: "j = k" if "store h j \<noteq> None" "store h k \<noteq> None" "unat (h_index j) = unat (h_index k)" for j k
    using handle_index_eq [of "hp_slots h" j k] store_names [OF assms(1)] that by blast
  have "s_kind (hp_slots ?h ! i) \<noteq> 0" if i: "i < length (hp_slots ?h)" "mark_at ?h i \<noteq> WHITE" for i
  proof -
    have "i < length (hp_slots h)" using i(1) same_cells_slots(1) [OF same] len by simp
    then obtain k where k: "store h k \<noteq> None" "unat (h_index k) = i" using i(2) mark [of i] by (auto split: if_splits)
    then have "slot_names (hp_slots ?h) k" using names same_cells_names [OF same] by simp
    then show ?thesis using k(2) by (simp add: slot_names_def)
  qed
  moreover have "reachable h roots k" if "store h k \<noteq> None" "mark_at ?h (unat (h_index k)) \<noteq> WHITE" for k
  proof -
    have "\<exists>j \<in> set roots. store h j \<noteq> None \<and> unat (h_index j) = unat (h_index k)"
      using that(2) mark [OF bound [OF that(1)]] by presburger
    then show ?thesis using same_handle that(1) reachable.root by metis
  qed
  moreover have "mark_at ?h (unat (h_index k)) \<noteq> BLACK" if "store h k \<noteq> None" for k
    using mark [OF bound [OF that]] by simp
  moreover have "\<forall>k \<in> set roots. store h k \<noteq> None \<longrightarrow> mark_at ?h (unat (h_index k)) \<noteq> WHITE"
    using mark bound by auto
  moreover have "\<forall>i < length (hp_slots ?h). mark_at ?h i \<le> BLACK"
    using mark same_cells_slots(1) [OF same] len by simp
  moreover have "store ?h = store h" using same_cells_read(3) [OF same] u(2) by auto
  moreover have "hp_phase ?h = Marking" using same u(4) by (simp add: same_cells_def)
  ultimately have "mark_inv h roots cs ?h"
    using same_cells_inv [OF same u(1)] shade_all_worklist [OF u(3)] unfolding mark_inv_def by auto
  then show ?thesis using assms(2) by (simp add: begin_collection_eq)
qed

text \<open>When nothing is grey, black is reachable.\<close>

lemma grey_free_reachable:
  assumes "mark_inv h0 roots cs h" "grey_free h" "store h0 k \<noteq> None"
  shows "mark_at h (unat (h_index k)) = BLACK \<longleftrightarrow> reachable h0 roots k"
proof
  assume "mark_at h (unat (h_index k)) = BLACK"
  then show "reachable h0 roots k" using assms(1,3) by (simp add: mark_inv_def)
next
  have hi: "heap_inv h cs" and eq: "store h = store h0" using assms(1) by (simp_all add: mark_inv_def)
  have black: "mark_at h (unat (h_index k)) = BLACK"
    if "store h0 k \<noteq> None" "mark_at h (unat (h_index k)) \<noteq> WHITE" for k
  proof -
    have "unat (h_index k) < length (hp_slots h)" using that(1) store_names [OF hi] eq by (auto simp: slot_names_def)
    then have "mark_at h (unat (h_index k)) \<le> 2" "mark_at h (unat (h_index k)) \<noteq> GREY"
      using assms(1,2) by (simp_all add: grey_free_def mark_inv_def)
    then show ?thesis using that(2) by (simp add: le_Suc_eq numeral_2_eq_2)
  qed
  assume "reachable h0 roots k"
  then show "mark_at h (unat (h_index k)) = BLACK"
  proof induction
    case (root k)
    then show ?case using black assms(1) by (simp add: mark_inv_def)
  next
    case (child k kind cell c)
    then have "mark_at h (unat (h_index c)) \<noteq> WHITE" using assms(1) unfolding mark_inv_def by blast
    then show ?case using black child by simp
  qed
qed

subsection \<open>Slices\<close>

lemma mark_slice_spec:
  assumes "mark_inv h0 roots cs h" "mark_slice n h = (ph, h')"
  shows "(ph = Marking \<and> mark_inv h0 roots cs h' \<and> card (pending h') + n \<le> card (pending h)) \<or>
    (\<exists>h1. mark_inv h0 roots cs h1 \<and> grey_free h1 \<and> h' = begin_compaction h1)"
  using assms
proof (induction n arbitrary: h)
  case (Suc n)
  obtain r h1 where r: "next_grey h = (r, h1)" by (cases "next_grey h")
  show ?case
  proof (cases r)
    case None
    have "grey_free h" "same_cells h h1" "worklist_ok h1" "mark_at h1 = mark_at h"
      using next_grey_spec [OF _ r] Suc.prems(1) None by (simp_all add: mark_inv_def)
    moreover have "length (hp_slots h1) = length (hp_slots h)" using same_cells_slots(1) calculation(2) .
    ultimately have "mark_inv h0 roots cs h1" "grey_free h1"
      using Suc.prems(1) same_cells_inv [of h h1 cs] same_cells_read(3) [of h h1] same_cells_slots(2) [of h h1]
      unfolding mark_inv_def grey_free_def same_cells_def by auto
    moreover have "h' = begin_compaction h1" using Suc.prems(2) r None by (simp add: Let_def)
    ultimately show ?thesis by blast
  next
    case (Some hdl)
    have step: "mark_slice n (trace h1 hdl) = (ph, h')" using Suc.prems(2) r Some by simp
    have "card (pending (trace h1 hdl)) < card (pending h)"
      using pending_visit Suc.prems(1) r Some by blast
    then show ?thesis
      using Suc.IH [OF mark_inv_visit step] Suc.prems(1) r Some by fastforce
  qed
qed simp

lemma begin_compaction_inv:
  assumes "heap_inv h cs" "hp_phase h = Marking"
  shows "compact_inv (begin_compaction h) [] cs" "store (begin_compaction h) = store h"
    "is_black (begin_compaction h) i \<longleftrightarrow> mark_at h i = BLACK" "hp_phase (begin_compaction h) = Compacting"
  using assms by (auto simp: begin_compaction_def compact_inv_def heap_inv_def is_black_def mark_at_def store_eq fun_eq_iff)

lemma collect_compacting:
  assumes "compact_inv h ws rs" "hp_phase h = Compacting" "0 < budget"
  shows "\<exists>h'. collect_loop h budget = Some h' \<and> hp_phase h' = Idle \<and> store h' = swept h rs \<and>
    heap_inv h' (ws @ filter (\<lambda>(i, n). is_black h i) rs)"
  using assms(1,2)
proof (induction "length rs" arbitrary: h ws rs rule: less_induct)
  case less
  obtain ps rs' h' where s: "rs = ps @ rs'"
    "compact_loop h budget 0 = Some (if rs' = [] then (True, compact_finish h') else (False, h'))"
    "compact_inv h' (ws @ filter (\<lambda>(i, n). is_black h i) ps) rs'" "\<forall>j. is_black h' j = is_black h j"
    "store h' = swept h ps" "hp_phase h' = hp_phase h" "0 < budget \<and> rs \<noteq> [] \<longrightarrow> ps \<noteq> []"
    using compact_loop_slice [OF less.prems(1), of budget 0] by blast
  have black: "is_black h' = is_black h" using s(4) by (intro ext) simp
  show ?case
  proof (cases "rs' = []")
    case True
    have "collect_loop h budget = Some (compact_finish h')"
      using less.prems(2) s(2) True
      by (subst collect_loop.simps, subst collect_loop.simps) (simp add: collect_slice_def compact_step_def compact_finish_def)
    then show ?thesis using compact_finish_inv [of h'] s(1,3,5) True by auto
  next
    case False
    have step: "collect_loop h budget = collect_loop h' budget"
      using less.prems(2) s(2) False by (subst collect_loop.simps) (simp add: collect_slice_def compact_step_def)
    have shorter: "length rs' < length rs" using s(1,7) False assms(3) by auto
    have "swept h' rs' = swept h rs"
      unfolding swept_def black s(1,5) by (auto simp: fun_eq_iff)
    with less.hyps [OF shorter s(3)] step show ?thesis
      using s(6) less.prems(2) unfolding black s(1) by simp
  qed
qed

lemma swept_black:
  assumes "heap_inv h cs"
  shows "swept h cs k = (if is_black h (unat (h_index k)) then store h k else None)"
proof (cases "store h k")
  case (Some x)
  then have "unat (h_index k) \<in> fst ` set cs"
    using store_names [OF assms, of k] assms by (auto simp: slot_names_def heap_inv_def live_indices_def)
  then show ?thesis by (simp add: swept_def)
qed (simp add: swept_def)

lemma collect_marking:
  assumes "mark_inv h0 roots cs h" "0 < budget"
  shows "\<exists>h' cs'. collect_loop h budget = Some h' \<and> hp_phase h' = Idle \<and> heap_inv h' cs' \<and>
    store h' = (\<lambda>k. if reachable h0 roots k then store h0 k else None)"
  using assms(1)
proof (induction "card (pending h)" arbitrary: h rule: less_induct)
  case less
  have ph: "hp_phase h = Marking" using less.prems by (simp add: mark_inv_def)
  obtain p h' where ms: "mark_slice budget h = (p, h')" by (cases "mark_slice budget h")
  have step: "collect_loop h budget = collect_loop h' budget"
    using ph ms by (subst collect_loop.simps) (simp add: collect_slice_def)
  from mark_slice_spec [OF less.prems ms] show ?case
  proof
    assume "p = Marking \<and> mark_inv h0 roots cs h' \<and> card (pending h') + budget \<le> card (pending h)"
    then show ?thesis using less.hyps [of h'] step assms(2) by simp
  next
    assume "\<exists>h1. mark_inv h0 roots cs h1 \<and> grey_free h1 \<and> h' = begin_compaction h1"
    then obtain h1 where h1: "mark_inv h0 roots cs h1" "grey_free h1" "h' = begin_compaction h1" by blast
    have hi: "heap_inv h1 cs" "hp_phase h1 = Marking" "store h1 = store h0" using h1(1) by (simp_all add: mark_inv_def)
    note bc = begin_compaction_inv [OF hi(1,2)]
    obtain h2 where h2: "collect_loop h' budget = Some h2" "hp_phase h2 = Idle" "store h2 = swept h' cs"
      "heap_inv h2 ([] @ filter (\<lambda>(i, n). is_black h' i) cs)"
      using collect_compacting [OF bc(1,4) assms(2)] h1(3) by auto
    have "swept h' cs = swept h1 cs" unfolding swept_def h1(3) bc(2,3) by (simp add: is_black_def mark_at_def)
    then have "store h2 k = (if reachable h0 roots k then store h0 k else None)" for k
      using h2(3) swept_black [OF hi(1)] hi(3) grey_free_reachable [OF h1(1,2), of k]
      by (cases "store h0 k") (simp_all add: is_black_def mark_at_def)
    then show ?thesis using step h2 by (intro exI [of _ h2]) auto
  qed
qed

lemma collect_correct:
  assumes "heap_inv h cs" "hp_phase h = Idle" "0 < budget"
  shows "\<exists>h' cs'. collect h roots budget = Some (Inr h') \<and> hp_phase h' = Idle \<and> heap_inv h' cs' \<and>
    store h' = (\<lambda>k. if reachable h roots k then store h k else None)"
proof -
  obtain h1 where "begin_collection h roots = Inr h1" "mark_inv h roots cs h1"
    using begin_collection_inv [OF assms(1,2)] by blast
  then show ?thesis using collect_marking [OF _ assms(3)] by (fastforce simp: collect_def)
qed

end
