(* ===== verification/Heap_Interface.thy ===== *)
theory Heap_Interface
  imports Gc_Collect
begin

text \<open>
  The heap as its clients see it. \<open>cell_store\<close> is the contract: a store of cells that hands out a
  fresh name for zeroed bytes, replaces the bytes of a cell, and drops what is not reachable. The heap
  with its arena, slots and slices is one; what clients build on the contract they get for the heap.
\<close>

subsection \<open>The contract\<close>

locale cell_store =
  fixes ok :: "'s \<Rightarrow> bool"
    and contents :: "'s \<Rightarrow> 'n \<Rightarrow> ('k \<times> 'b list) option"
    and admits :: "'k \<Rightarrow> bool"
    and zero :: 'b
    and alloc :: "'s \<Rightarrow> 'k \<Rightarrow> nat \<Rightarrow> 'e + 'n \<times> 's"
    and put :: "'s \<Rightarrow> 'n \<Rightarrow> 'b list \<Rightarrow> 'e + 's"
  assumes alloc_law: "ok s \<Longrightarrow> admits k \<Longrightarrow> alloc s k n = Inr (r, s') \<Longrightarrow>
      ok s' \<and> contents s r = None \<and> contents s' = (contents s)(r \<mapsto> (k, replicate n zero))"
    and put_law: "ok s \<Longrightarrow> contents s r = Some (k, old) \<Longrightarrow> length bytes = length old \<Longrightarrow>
      \<exists>s'. put s r bytes = Inr s' \<and> ok s' \<and> contents s' = (contents s)(r \<mapsto> (k, bytes))"
begin

definition new_cell :: "'s \<Rightarrow> 'k \<Rightarrow> 'b list \<Rightarrow> 'e + 'n \<times> 's" where
  "new_cell s k bytes =
     and_then (alloc s k (length bytes)) (\<lambda>(r, s). and_then (put s r bytes) (\<lambda>s. Inr (r, s)))"

text \<open>Allocating and filling a cell adds exactly that cell.\<close>

lemma new_cell_adds:
  assumes "ok s" "admits k" "new_cell s k bytes = Inr (r, s')"
  shows "ok s'" "contents s r = None" "contents s' = (contents s)(r \<mapsto> (k, bytes))"
proof -
  obtain s1 where a: "alloc s k (length bytes) = Inr (r, s1)" and p: "put s1 r bytes = Inr s'"
    using assms(3) by (auto simp: new_cell_def and_then_Inr)
  note law = alloc_law [OF assms(1,2) a]
  have c: "contents s1 r = Some (k, replicate (length bytes) zero)" using law by simp
  obtain s2 where s2: "put s1 r bytes = Inr s2" "ok s2" "contents s2 = (contents s1)(r \<mapsto> (k, bytes))"
    using put_law [OF _ c, of bytes] law by auto
  then show "ok s'" "contents s r = None" "contents s' = (contents s)(r \<mapsto> (k, bytes))"
    using p law by auto
qed

text \<open>It fails only when the allocation does.\<close>

lemma new_cell_fails:
  assumes "ok s" "admits k" "new_cell s k bytes = Inl e"
  shows "alloc s k (length bytes) = Inl e"
proof (cases "alloc s k (length bytes)")
  case (Inr a)
  then obtain r s1 where a: "alloc s k (length bytes) = Inr (r, s1)" by (cases a) simp
  note law = alloc_law [OF assms(1,2) a]
  have c: "contents s1 r = Some (k, replicate (length bytes) zero)" using law by simp
  obtain s2 where "put s1 r bytes = Inr s2" using put_law [OF _ c, of bytes] law by auto
  then show ?thesis using assms(3) a by (simp add: new_cell_def)
qed (use assms(3) in \<open>simp add: new_cell_def\<close>)

lemma new_cell_keeps:
  assumes "ok s" "admits k" "new_cell s k bytes = Inr (r, s')" "contents s q = Some c"
  shows "contents s' q = Some c"
  using new_cell_adds [OF assms(1-3)] assms(4) by auto

end

subsection \<open>The heap implements it\<close>

definition heap_ok :: "heap \<Rightarrow> bool" where
  "heap_ok h \<longleftrightarrow> hp_phase h = Idle \<and> (\<exists>cs. heap_inv h cs)"

lemma heap_okI: "heap_inv h cs \<Longrightarrow> hp_phase h = Idle \<Longrightarrow> heap_ok h"
  by (auto simp: heap_ok_def)

lemma heap_okE:
  assumes "heap_ok h" obtains cs where "heap_inv h cs" "hp_phase h = Idle"
  using assms by (auto simp: heap_ok_def)

interpretation cells: cell_store heap_ok store "\<lambda>k. k \<noteq> FreeCell" "0 :: byte" heap_allocate heap_cell_put
proof unfold_locales
  fix s k n r s'
  assume "heap_ok s" "k \<noteq> FreeCell" "heap_allocate s k n = Inr (r, s')"
  then show "heap_ok s' \<and> store s r = None \<and> store s' = (store s)(r \<mapsto> (k, replicate n 0))"
    using heap_allocate_inv heap_allocate_store heap_okI by (elim heap_okE) metis
next
  fix s r k old and bytes :: "byte list"
  assume "heap_ok s" "store s r = Some (k, old)" "length bytes = length old"
  then show "\<exists>s'. heap_cell_put s r bytes = Inr s' \<and> heap_ok s' \<and> store s' = (store s)(r \<mapsto> (k, bytes))"
    using heap_cell_put_store heap_okI by (elim heap_okE) metis
qed

lemma heap_over_ok:
  assumes "length arena + 31 \<le> u32_max" "length slots \<le> u32_max"
  shows "heap_ok (heap_with_worklist arena slots worklist)"
  by (rule heap_okI [where cs = "[]"])
    (use assms in \<open>auto simp: heap_inv_def heap_with_worklist_def heap_over_def slot_empty_def live_indices_def\<close>)

lemma heap_cell_stale: "heap_ok h \<Longrightarrow> store h k = None \<Longrightarrow> heap_slot h k = Inl StaleHandle"
  by (erule heap_okE) (simp add: store_None_iff heap_slot_Inl)

lemma heap_allocate_store_cases:
  assumes "heap_ok h" "kind \<noteq> FreeCell"
  shows "case heap_allocate h kind n of
      Inr (hdl, h') \<Rightarrow> heap_ok h' \<and> store h hdl = None \<and> store h' = (store h)(hdl \<mapsto> (kind, replicate n 0))
    | Inl e \<Rightarrow> (e = ArenaFull \<and> length (hp_arena h) < (hp_used h + 7) div 8 * 8 + 8 + n) \<or>
        (e = SlotsFull \<and> (\<forall>s \<in> set (hp_slots h). s_kind s \<noteq> 0))"
proof (cases "heap_allocate h kind n")
  case (Inr r)
  then show ?thesis using cells.alloc_law [OF assms, of n] by (cases r) simp
next
  case (Inl e)
  obtain cs where cs: "heap_inv h cs" "hp_phase h = Idle" using assms(1) by (rule heap_okE)
  have u: "(hp_used h + 7) div 8 * 8 = row_end 0 cs" using cs(1) by (simp add: heap_inv_def)
  have full: "\<forall>s \<in> set (hp_slots h). s_kind s \<noteq> 0" if all: "live_indices (hp_slots h) = {..<length (hp_slots h)}"
  proof
    fix s
    assume "s \<in> set (hp_slots h)"
    then obtain i where "i < length (hp_slots h)" "hp_slots h ! i = s" by (auto simp: in_set_conv_nth)
    then show "s_kind s \<noteq> 0" using all by (auto simp: live_indices_def)
  qed
  have "if length (hp_arena h) < row_end 0 cs + 8 + n then e = ArenaFull
      else e = SlotsFull \<and> live_indices (hp_slots h) = {..<length (hp_slots h)}"
    using heap_allocate_fails [OF cs, of kind n e] Inl by simp
  then show ?thesis
    unfolding Inl sum.case u using full by (cases "length (hp_arena h) < row_end 0 cs + 8 + n") simp_all
qed

text \<open>C14: the heap is a map from handles to cells. On a well-formed idle heap an allocation answers a handle that
  named nothing, after which the map has one more cell, zeroed and of the kind and length asked for, and every
  other handle reads as before; it fails only because the arena has no room for the cell or every slot is in use,
  and then says which. Reading a cell of the map answers its kind and its bytes; writing bytes of the same length
  to it succeeds, and changes the map at that handle only. Any other handle is reported stale, by reading and
  by writing.\<close>

theorem heap_allocate_refines:
  assumes "heap_ok h" "kind \<noteq> FreeCell"
  shows "(case heap_allocate h kind n of
      Inr (hdl, h') \<Rightarrow> heap_ok h' \<and> store h hdl = None \<and> store h' = (store h)(hdl \<mapsto> (kind, replicate n 0))
    | Inl e \<Rightarrow> (e = ArenaFull \<and> length (hp_arena h) < (hp_used h + 7) div 8 * 8 + 8 + n) \<or>
        (e = SlotsFull \<and> (\<forall>s \<in> set (hp_slots h). s_kind s \<noteq> 0))) \<and>
    (case store h k of
       Some (kd, old) \<Rightarrow> heap_kind h k = Inr kd \<and> heap_cell h k = Inr old \<and>
         (length bytes = length old \<longrightarrow>
           (\<exists>h'. heap_cell_put h k bytes = Inr h' \<and> heap_ok h' \<and> store h' = (store h)(k \<mapsto> (kd, bytes))))
     | None \<Rightarrow> heap_kind h k = Inl StaleHandle \<and> heap_cell h k = Inl StaleHandle \<and>
         heap_cell_put h k bytes = Inl StaleHandle)"
proof (intro conjI)
  show "case store h k of
       Some (kd, old) \<Rightarrow> heap_kind h k = Inr kd \<and> heap_cell h k = Inr old \<and>
         (length bytes = length old \<longrightarrow>
           (\<exists>h'. heap_cell_put h k bytes = Inr h' \<and> heap_ok h' \<and> store h' = (store h)(k \<mapsto> (kd, bytes))))
     | None \<Rightarrow> heap_kind h k = Inl StaleHandle \<and> heap_cell h k = Inl StaleHandle \<and>
         heap_cell_put h k bytes = Inl StaleHandle"
  proof (cases "store h k")
    case None
    then show ?thesis using heap_cell_stale [OF assms(1) None] by (simp add: heap_kind_def heap_cell_def heap_cell_put_def)
  next
    case (Some x)
    obtain kd old where x: "x = (kd, old)" by (cases x)
    have "heap_kind h k = Inr kd" "heap_cell h k = Inr old" using Some x by (auto simp: store_def split: sum.splits)
    then show ?thesis using cells.put_law [OF assms(1), of k kd old bytes] Some x by simp
  qed
qed (rule heap_allocate_store_cases [OF assms])

theorem heap_allocate_refines_witness:
  "case heap_allocate (heap_new (replicate 64 0) [slot_empty, slot_empty]) ObjectCell 20 of
      Inr (hdl, h') \<Rightarrow> store h' hdl = Some (ObjectCell, replicate 20 0) \<and>
        (\<exists>h''. heap_cell_put h' hdl (replicate 20 7) = Inr h'' \<and> store h'' hdl = Some (ObjectCell, replicate 20 7))
    | Inl e \<Rightarrow> False"
proof -
  let ?h = "heap_new (replicate 64 0) [slot_empty, slot_empty]"
  have "heap_ok ?h" unfolding heap_new_def by (rule heap_over_ok) simp_all
  from conjunct1 [OF heap_allocate_refines [OF this, of ObjectCell 20]] obtain hdl h' where
    a: "heap_allocate ?h ObjectCell 20 = Inr (hdl, h')" "heap_ok h'" "store h' hdl = Some (ObjectCell, replicate 20 0)"
    by (auto simp: heap_new_def heap_with_worklist_def heap_over_def slot_empty_def split: sum.splits)
  from conjunct2 [OF heap_allocate_refines [OF a(2), of ObjectCell 0 hdl "replicate 20 7"]] a show ?thesis by auto
qed

end
