(* ===== verification/Heap_Safety.thy ===== *)
theory Heap_Safety
  imports Heap_Interface "HOL-Library.Code_Target_Nat"
begin

text \<open>
  What the whole heap guarantees: a collection returns and keeps exactly the reachable cells, and a
  handle that has gone stale stays stale whatever is allocated, written or collected later. Places
  where the code does less than its comments say end the theory.
\<close>

subsection \<open>Collections\<close>

text \<open>C13: a collection is exact and it ends. On a well-formed idle heap with a budget above zero, running the
  slices of \<open>collect\<close> returns an idle well-formed heap whose store is the old store restricted to what
  the roots reach through the references the cells hold, bytes and kinds unchanged. Those references are read off
  the layout of the cells by \<open>cell_children\<close>: the prototype, table, slot, home and reactions of an object, the key
  and both values of a property, the four values at the head of an environment with the name and value of each
  binding, and the three values of a reaction.\<close>

theorem collect_keeps_reachable:
  assumes "heap_ok h" "0 < budget"
  shows "\<exists>h'. collect h roots budget = Some (Inr h') \<and> heap_ok h' \<and>
    store h' = (\<lambda>k. if reachable h roots k then store h k else None)"
proof -
  obtain cs where "heap_inv h cs" "hp_phase h = Idle" using assms(1) by (rule heap_okE)
  from collect_correct [OF this assms(2)] show ?thesis using heap_okI by blast
qed

text \<open>A scope whose parent field refers to another cell: from the scope both stay, from the other cell the scope goes.\<close>

definition scope_heap :: heap where
  "scope_heap = heap_new (replicate 64 0) (replicate 2 slot_empty)"

definition scope_cell :: "handle \<Rightarrow> byte list" where
  "scope_cell parent = encode_at (v_object parent) (replicate 24 0) environment_PARENT"

lemma scope_children: "cell_children EnvironmentCell (scope_cell b) = [b]"
proof -
  have wf: "value_wf (v_object b)" by (simp add: value_wf_def v_object_def)
  have len: "length (scope_cell b) = 24" by (simp add: scope_cell_def encode_at_def)
  have parent: "decode_at (scope_cell b) 12 = v_object b"
    unfolding scope_cell_def by (rule decode_encode_at [OF wf]) (simp add: encoded_def)
  have rest: "decode_at (scope_cell b) i = v_undefined" if "16 < i" for i
    using that len by (simp add: decode_at_def field_def subrange_def get_at_def split: option.splits)
  have count: "field 4 (scope_cell b) 4 = Some (replicate 4 0)"
    unfolding scope_cell_def by (simp add: field_def encode_at_frame encoded_def) (simp add: subrange_def)
  have "holds_reference (v_object b)" "\<not> holds_reference v_undefined"
    by (simp_all add: holds_reference_def v_object_def v_undefined_def)
  moreover have "of_le (replicate 4 0) = 0" by (simp add: numeral_eq_Suc)
  ultimately show ?thesis
    using parent rest count by (simp add: environment_children_def environment_refs_def value_handles_def)
qed

lemma allocate_success:
  assumes "heap_ok h" "kind \<noteq> FreeCell" "\<exists>s \<in> set (hp_slots h). s_kind s = 0"
    "(hp_used h + 7) div 8 * 8 + 8 + n \<le> length (hp_arena h)"
  obtains k h' where "heap_allocate h kind n = Inr (k, h')"
proof (cases "heap_allocate h kind n")
  case (Inl e)
  then show ?thesis using heap_allocate_store_cases [OF assms(1,2), of n] assms(3,4) by auto
next
  case (Inr r)
  then show ?thesis using that by (cases r) simp
qed

lemma scope_runs:
  obtains a h1 b h2 where "heap_allocate scope_heap EnvironmentCell 24 = Inr (a, h1)" "heap_allocate h1 StringCell 4 = Inr (b, h2)"
proof -
  have ok: "heap_ok scope_heap" unfolding scope_heap_def heap_new_def by (rule heap_over_ok) simp_all
  have h: "hp_used scope_heap = 0" "hp_slots scope_heap = [slot_empty, slot_empty]" "length (hp_arena scope_heap) = 64"
    by (simp_all add: scope_heap_def heap_new_def heap_with_worklist_def heap_over_def numeral_2_eq_2)
  obtain a h1 where a: "heap_allocate scope_heap EnvironmentCell 24 = Inr (a, h1)"
    by (rule allocate_success [OF ok, of EnvironmentCell 24]) (simp_all add: h slot_empty_def)
  have ok1: "heap_ok h1" using cells.alloc_law [OF ok _ a] by simp
  obtain index g where t: "take_slot scope_heap = Inr (index, g)"
    using a unfolding heap_allocate_def Let_def by (auto simp: and_then_Inr split: if_splits)
  have g: "hp_slots g = hp_slots scope_heap" "index < 2" using take_slot_Inr [OF t] h(2) by auto
  have "length (hp_arena g) = 64" using t h(3) by (auto simp: take_slot_def Let_def split: option.splits if_splits)
  then have "hp_used h1 = 32 \<and> length (hp_arena h1) = 64 \<and> (\<exists>s. hp_slots h1 = [slot_empty, slot_empty][index := s])"
    using a t g h unfolding heap_allocate_def Let_def
    by (auto simp: and_then_Inr get_at_def checked_add32_def wadd32_def align8_def split: if_splits)
  moreover from this have "\<exists>s \<in> set (hp_slots h1). s_kind s = 0"
    using g(2) by (cases "index = 0") (auto simp: slot_empty_def less_2_cases_iff)
  ultimately have "hp_used h1 = 32 \<and> length (hp_arena h1) = 64 \<and> (\<exists>s \<in> set (hp_slots h1). s_kind s = 0)" by blast
  then obtain b h2 where "heap_allocate h1 StringCell 4 = Inr (b, h2)"
    using allocate_success [OF ok1, of StringCell 4] by auto
  then show ?thesis using a that by blast
qed

lemma scope_cells:
  obtains h a b where "heap_ok h" "a \<noteq> b" "cell_children EnvironmentCell (scope_cell b) = [b]"
    "store h = [a \<mapsto> (EnvironmentCell, scope_cell b), b \<mapsto> (StringCell, replicate 4 0)]"
proof -
  obtain a h1 b h2 where a: "heap_allocate scope_heap EnvironmentCell 24 = Inr (a, h1)"
    and b: "heap_allocate h1 StringCell 4 = Inr (b, h2)" by (rule scope_runs)
  have h0: "heap_ok scope_heap" unfolding scope_heap_def heap_new_def by (rule heap_over_ok) simp_all
  have "store scope_heap k = None" for k
    by (auto simp: scope_heap_def store_eq slot_names_def heap_new_def heap_with_worklist_def heap_over_def slot_empty_def)
  then have empty: "store scope_heap = Map.empty" by (simp add: fun_eq_iff)
  note l1 = cells.alloc_law [OF h0 _ a]
  then have ok1: "heap_ok h1" by simp
  note l2 = cells.alloc_law [OF ok1 _ b]
  have ne: "a \<noteq> b" using l1 l2 by auto
  have "store h2 a = Some (EnvironmentCell, replicate 24 0)" using l1 l2 ne by simp
  moreover have "length (scope_cell b) = length (replicate 24 (0 :: byte))" by (simp add: scope_cell_def encode_at_def)
  ultimately obtain h where h: "heap_ok h" "store h = (store h2)(a \<mapsto> (EnvironmentCell, scope_cell b))"
    using cells.put_law [of h2 a EnvironmentCell "replicate 24 0" "scope_cell b"] l2 by auto
  have "store h = [a \<mapsto> (EnvironmentCell, scope_cell b), b \<mapsto> (StringCell, replicate 4 0)]"
    using h(2) l1 l2 ne empty by (auto simp: fun_eq_iff)
  then show ?thesis using that h(1) ne scope_children by blast
qed

theorem collect_keeps_reachable_witness:
  "\<exists>h a b h1 h2. store h = [a \<mapsto> (EnvironmentCell, scope_cell b), b \<mapsto> (StringCell, replicate 4 0)] \<and> a \<noteq> b \<and>
    collect h [a] 1 = Some (Inr h1) \<and> store h1 = store h \<and>
    collect h [b] 1 = Some (Inr h2) \<and> store h2 = [b \<mapsto> (StringCell, replicate 4 0)]"
proof -
  obtain h a b where h: "heap_ok h" "a \<noteq> b" "cell_children EnvironmentCell (scope_cell b) = [b]"
    "store h = [a \<mapsto> (EnvironmentCell, scope_cell b), b \<mapsto> (StringCell, replicate 4 0)]"
    by (rule scope_cells)
  have a: "reachable h [a] a" "reachable h [b] b" using h(2,4) by (auto intro!: reachable.root)
  then have "reachable h [a] b" using reachable.child [of h "[a]" a EnvironmentCell "scope_cell b" b] h by simp
  then have all: "(if reachable h [a] k then store h k else None) = store h k" for k using a h(4) by simp
  have "k = b" if "reachable h [b] k" for k
    using that by (induction rule: reachable.induct) (use h in \<open>auto split: if_splits\<close>)
  then have one: "reachable h [b] k \<longleftrightarrow> k = b" for k using a(2) by blast
  obtain h1 where "collect h [a] 1 = Some (Inr h1)" "store h1 = store h"
    using collect_keeps_reachable [OF h(1), of 1 "[a]"] unfolding all by auto
  moreover obtain h2 where "collect h [b] 1 = Some (Inr h2)" "store h2 = [b \<mapsto> (StringCell, replicate 4 0)]"
  proof -
    have "(\<lambda>k. if k = b then store h k else None) = [b \<mapsto> (StringCell, replicate 4 0)]" using h(4) by auto
    then show thesis using that collect_keeps_reachable [OF h(1), of 1 "[b]"] unfolding one by auto
  qed
  ultimately show ?thesis using h(2,4) by blast
qed

lemma collect_loop_stuck: "collect_loop h budget = Some h' \<Longrightarrow> \<not> (budget = 0 \<and> hp_phase h = Marking)"
proof (erule collect_loop.raw_induct [where P = "\<lambda>h budget h'. \<not> (budget = 0 \<and> hp_phase h = Marking)", rotated])
  fix loop h budget h'
  assume IH: "\<And>h budget h'. loop h budget = Some h' \<Longrightarrow> \<not> (budget = 0 \<and> hp_phase h = Marking)"
    and body: "(if hp_phase h = Idle then Some h
      else case collect_slice h budget of None \<Rightarrow> None | Some (_, h) \<Rightarrow> loop h budget) = Some h'"
  show "\<not> (budget = 0 \<and> hp_phase h = Marking)"
  proof
    assume "budget = 0 \<and> hp_phase h = Marking"
    then show False using body IH [of h 0 h'] by (simp add: collect_slice_def)
  qed
qed

text \<open>C27: the loop of \<open>collect\<close> ends exactly when its budget is not zero: a slice with no budget visits no
  cell, so with one the loop makes progress until the heap is idle and with none it turns for ever.\<close>

theorem collect_returns_iff:
  assumes "heap_ok h"
  shows "(\<exists>r. collect h roots budget = Some r) \<longleftrightarrow> 0 < budget"
proof
  assume "0 < budget"
  then show "\<exists>r. collect h roots budget = Some r"
    using collect_correct assms by (elim heap_okE) blast
next
  assume "\<exists>r. collect h roots budget = Some r"
  moreover obtain cs where cs: "heap_inv h cs" "hp_phase h = Idle" using assms by (rule heap_okE)
  moreover obtain h1 where h1: "begin_collection h roots = Inr h1" "mark_inv h roots cs h1"
    using begin_collection_inv [OF cs] by blast
  ultimately obtain h2 where "collect_loop h1 budget = Some h2" by (auto simp: collect_def)
  then show "0 < budget" using collect_loop_stuck [of h1 budget h2] h1(2) by (simp add: mark_inv_def)
qed

theorem collect_returns_iff_witness:
  "(\<exists>r. collect (heap_new (replicate 64 0) [slot_empty]) [] 0 = Some r) \<longleftrightarrow> 0 < (0 :: nat)"
  by (rule collect_returns_iff) (unfold heap_new_def, rule heap_over_ok, simp_all)

subsection \<open>Slots age\<close>

text \<open>
  From one heap to a later one a slot's generation does not fall, and a slot that is released moves to
  the next generation unless the counter is full.
\<close>

definition older :: "heap \<Rightarrow> heap \<Rightarrow> bool" where
  "older h h' \<longleftrightarrow> length (hp_slots h') = length (hp_slots h) \<and>
     (\<forall>j < length (hp_slots h).
        unat (s_generation (hp_slots h ! j)) \<le> unat (s_generation (hp_slots h' ! j)) \<and>
        (s_generation (hp_slots h' ! j) = s_generation (hp_slots h ! j) \<and> s_generation (hp_slots h ! j) \<noteq> 0xFFFFFFFF \<and>
         s_kind (hp_slots h ! j) \<noteq> 0 \<longrightarrow> s_kind (hp_slots h' ! j) \<noteq> 0))"

lemma older_refl [simp]: "older h h"
  by (simp add: older_def)

lemma older_slots_eq: "hp_slots h' = hp_slots h \<Longrightarrow> older h h'"
  by (simp add: older_def)

lemma older_other [simp]:
  "older h (h'\<lparr>hp_compact_read := n\<rparr>) = older h h'"
  "older h (h'\<lparr>hp_worklist_length := n\<rparr>) = older h h'"
  by (simp_all add: older_def)

lemma older_trans:
  assumes "older a b" "older b c" shows "older a c"
proof -
  have "unat (s_generation (hp_slots a ! j)) \<le> unat (s_generation (hp_slots c ! j)) \<and>
      (s_generation (hp_slots c ! j) = s_generation (hp_slots a ! j) \<and> s_generation (hp_slots a ! j) \<noteq> 0xFFFFFFFF \<and>
       s_kind (hp_slots a ! j) \<noteq> 0 \<longrightarrow> s_kind (hp_slots c ! j) \<noteq> 0)" if "j < length (hp_slots a)" for j
  proof -
    have ab: "unat (s_generation (hp_slots a ! j)) \<le> unat (s_generation (hp_slots b ! j))"
      and bc: "unat (s_generation (hp_slots b ! j)) \<le> unat (s_generation (hp_slots c ! j))"
      using assms that by (simp_all add: older_def)
    have "s_generation (hp_slots c ! j) = s_generation (hp_slots a ! j) \<Longrightarrow>
        s_generation (hp_slots b ! j) = s_generation (hp_slots a ! j)"
      using ab bc by (simp add: word_unat_eq_iff)
    moreover have "s_generation (hp_slots b ! j) = s_generation (hp_slots a ! j) \<and> s_generation (hp_slots a ! j) \<noteq> 0xFFFFFFFF \<and>
        s_kind (hp_slots a ! j) \<noteq> 0 \<longrightarrow> s_kind (hp_slots b ! j) \<noteq> 0"
      "s_generation (hp_slots c ! j) = s_generation (hp_slots b ! j) \<and> s_generation (hp_slots b ! j) \<noteq> 0xFFFFFFFF \<and>
        s_kind (hp_slots b ! j) \<noteq> 0 \<longrightarrow> s_kind (hp_slots c ! j) \<noteq> 0"
      using assms that by (simp_all add: older_def)
    ultimately show ?thesis using le_trans [OF ab bc] by auto
  qed
  then show ?thesis using assms by (simp add: older_def)
qed

lemma generation_next_gt: "g \<noteq> 0xFFFFFFFF \<Longrightarrow> unat g < unat (generation_next g)"
proof -
  assume g: "g \<noteq> 0xFFFFFFFF"
  have "unat g \<noteq> 4294967295" using g unfolding word_unat_eq_iff by simp
  then have "unat g + 1 < 4294967296" using unat_bound [of g] by simp
  then have "unat (g + 1) = unat g + 1" by (simp add: unat_word_ariths)
  then show ?thesis using g by (simp add: generation_next_def)
qed

lemma generation_next_ge: "unat g \<le> unat (generation_next g)"
  using generation_next_gt [of g] by (cases "g = 0xFFFFFFFF") (auto simp: generation_next_def)

lemma older_update:
  assumes "hp_slots h' = (hp_slots h)[i := s]" "i < length (hp_slots h)"
    "s_generation s = s_generation (hp_slots h ! i) \<and> (s_kind (hp_slots h ! i) \<noteq> 0 \<longrightarrow> s_kind s \<noteq> 0) \<or>
     s_generation s = generation_next (s_generation (hp_slots h ! i))"
  shows "older h h'"
  using assms generation_next_ge [of "s_generation (hp_slots h ! i)"] generation_next_gt [of "s_generation (hp_slots h ! i)"]
  by (auto simp: older_def nth_list_update)

lemma same_cells_older: "same_cells h h' \<Longrightarrow> older h h'"
  using same_cells_slots [of h h'] by (auto simp: older_def)

subsection \<open>Every operation ages the slots\<close>

lemma allocate_older:
  assumes "heap_allocate h kind n = Inr (hdl, h')" "kind \<noteq> FreeCell"
  shows "older h h'"
proof -
  obtain index h1 where t: "take_slot h = Inr (index, h1)"
    using assms(1) unfolding heap_allocate_def Let_def by (auto simp: and_then_Inr split: if_splits)
  have h1: "hp_slots h1 = hp_slots h" "index < length (hp_slots h)" using take_slot_Inr [OF t] by auto
  then obtain s where "hp_slots h' = (hp_slots h)[index := s]" "s_generation s = s_generation (hp_slots h ! index)" "s_kind s \<noteq> 0"
    using assms t unfolding heap_allocate_def Let_def
    by (auto simp: and_then_Inr get_at_def split: if_splits)
  then show ?thesis using h1(2) older_update [of h' h index s] by simp
qed

lemma put_older: "heap_cell_put h hdl bytes = Inr h' \<Longrightarrow> older h h'"
  by (auto simp: heap_cell_put_def and_then_Inr intro!: older_slots_eq)

lemma blacken_older: "blacken h i = (hdl, h') \<Longrightarrow> older h h'"
proof (cases "i < length (hp_slots h)")
  case False
  then show "blacken h i = (hdl, h') \<Longrightarrow> older h h'" by (auto simp: blacken_def Let_def list_update_beyond intro!: older_slots_eq)
next
  case True
  then show "blacken h i = (hdl, h') \<Longrightarrow> older h h'"
    by (auto simp: blacken_def Let_def intro!: older_update)
qed

lemma next_grey_older: "next_grey h = (r, h') \<Longrightarrow> older h h'"
proof -
  assume ng: "next_grey h = (r, h')"
  have *: "older h h'" if "blacken (h\<lparr>hp_worklist_length := n\<rparr>) i = (k, h')" for n i k
    using older_trans [OF older_slots_eq blacken_older [OF that], of h] by simp
  show ?thesis
    using ng * by (auto simp: next_grey_def Let_def split: prod.splits option.splits)
qed

lemma trace_same: "same_cells h (trace h k)"
proof (cases "store h k")
  case (Some x)
  then show ?thesis using trace_children [of h k "fst x" "snd x"] shade_all_same by simp
next
  case None
  then have "(\<exists>e. heap_kind h k = Inl e) \<or> (\<exists>e. heap_cell h k = Inl e)"
    by (auto simp: store_def split: sum.splits)
  then show ?thesis
  proof
    assume "\<exists>e. heap_cell h k = Inl e"
    then obtain e where e: "heap_cell h k = Inl e" ..
    then have "trace_object h k = h" "trace_property_table h k = h" "trace_environment h k = h" "trace_reactions h k = h"
      unfolding trace_property_table_def trace_environment_def trace_reactions_def
      by (simp add: trace_object_def, (subst trace_records.simps trace_bindings.simps, simp)+)
    then show ?thesis by (auto simp: trace_def split: sum.split cell_kind.split)
  qed (auto simp: trace_def)
qed

lemma mark_slice_older: "mark_slice n h = (p, h') \<Longrightarrow> older h h'"
proof (induction n arbitrary: h)
  case (Suc n)
  obtain r h1 where r: "next_grey h = (r, h1)" by (cases "next_grey h")
  note o1 = next_grey_older [OF r]
  show ?case
  proof (cases r)
    case None
    then have "h' = begin_compaction h1" using Suc.prems r by (simp add: Let_def)
    then have "older h1 h'" by (intro older_slots_eq) (simp add: begin_compaction_def)
    then show ?thesis by (rule older_trans [OF o1])
  next
    case (Some k)
    then have "older (trace h1 k) h'" using Suc r by simp
    then show ?thesis using o1 same_cells_older [OF trace_same] older_trans by blast
  qed
qed simp

lemma compact_cell_older: "older h (compact_cell h i n)"
proof (cases "i < length (hp_slots h)")
  case True
  have "older h (compact_keep h i n)"
    by (rule older_update [where i = i and s = "(hp_slots h ! i)\<lparr>s_offset := wadd32 (hp_compact_write h) cell_header\<rparr>"])
      (use True in \<open>simp_all add: compact_keep_def Let_def get_at_def\<close>)
  moreover have "older h (compact_discard h i n)"
  proof (cases "s_kind (hp_slots h ! i) = 0")
    case True
    then show ?thesis by (intro older_slots_eq) (simp add: compact_discard_def Let_def get_at_def)
  next
    case False
    then show ?thesis
      by (intro older_update [where i = i and s = "slot_release (hp_slots h ! i)"])
        (use True in \<open>simp_all add: compact_discard_def Let_def get_at_def note_free_eq slot_release_def\<close>)
  qed
  ultimately show ?thesis
    by (simp add: compact_cell_def Let_def)
next
  case False
  then show ?thesis
    by (intro older_slots_eq) (simp add: compact_cell_def compact_keep_def compact_discard_def Let_def get_at_def)
qed

lemma compact_loop_older: "compact_loop h budget moved = Some (b, h') \<Longrightarrow> older h h'"
proof -
  have "compact_loop h budget moved = Some r \<Longrightarrow> older h (snd r)" for r
  proof (erule compact_loop.raw_induct [where P = "\<lambda>h budget moved r. older h (snd r)", rotated])
    fix loop h budget moved r
    assume IH: "\<And>h budget moved r. loop h budget moved = Some r \<Longrightarrow> older h (snd r)"
      and body: "(if \<not> hp_compact_read h < hp_used h then Some (True, compact_finish h)
        else if budget \<le> moved then Some (False, h)
        else case compact_header h of None \<Rightarrow> Some (True, compact_finish h)
          | Some (index, n) \<Rightarrow> loop (compact_cell h index n) budget (sadd32 moved (align8 (cell_total n)))) = Some r"
    have fin: "older h (compact_finish h)" by (intro older_slots_eq) (simp add: compact_finish_def)
    show "older h (snd r)"
    proof (cases "compact_header h")
      case None
      then show ?thesis using body fin by (auto split: if_splits)
    next
      case (Some c)
      obtain index n where "c = (index, n)" by (cases c)
      then show ?thesis
        using body Some fin older_trans [OF compact_cell_older IH] by (auto split: if_splits)
    qed
  qed
  then show "compact_loop h budget moved = Some (b, h') \<Longrightarrow> older h h'" by fastforce
qed

lemma collect_slice_older: "collect_slice h budget = Some (p, h') \<Longrightarrow> older h h'"
  by (auto simp: collect_slice_def compact_step_def split: phase.splits if_splits
      dest: mark_slice_older compact_loop_older)

lemma collect_loop_older: "collect_loop h budget = Some h' \<Longrightarrow> older h h'"
proof (erule collect_loop.raw_induct [where P = "\<lambda>h budget h'. older h h'", rotated])
  fix loop h budget h'
  assume IH: "\<And>h budget h'. loop h budget = Some h' \<Longrightarrow> older h h'"
    and body: "(if hp_phase h = Idle then Some h
      else case collect_slice h budget of None \<Rightarrow> None | Some (_, h) \<Rightarrow> loop h budget) = Some h'"
  show "older h h'"
    using body older_trans [OF collect_slice_older IH] by (auto split: if_splits option.splits)
qed

lemma collect_older: "collect h roots budget = Some (Inr h') \<Longrightarrow> older h h'"
proof -
  assume c: "collect h roots budget = Some (Inr h')"
  then obtain h1 where h1: "begin_collection h roots = Inr h1" "collect_loop h1 budget = Some h'"
    by (auto simp: collect_def split: sum.splits)
  let ?u = "h\<lparr>hp_slots := map (\<lambda>slot. slot\<lparr>s_mark := WHITE\<rparr>) (hp_slots h), hp_worklist_length := 0,
             hp_phase := Marking, hp_reclaimed_cells := 0, hp_reclaimed_bytes := 0\<rparr>"
  have "h1 = shade_all ?u roots"
    using h1(1) by (auto simp: begin_collection_def shade_all_def split: if_splits)
  moreover have "older h ?u" by (simp add: older_def)
  ultimately have "older h h1" using same_cells_older [OF shade_all_same] older_trans by blast
  then show ?thesis using collect_loop_older [OF h1(2)] older_trans by blast
qed


lemma retire_older: "heap_retire h k = Inr h' \<Longrightarrow> older h h'"
proof -
  assume r: "heap_retire h k = Inr h'"
  let ?i = "unat (h_index k)"
  have i: "?i < length (hp_slots h)"
    using r by (auto simp: heap_retire_def Let_def get_at_def split: if_splits)
  then have "hp_slots h' = (hp_slots h)[?i := slot_release (hp_slots h ! ?i)]"
    using r by (auto simp: heap_retire_def Let_def get_at_def note_free_eq split: if_splits)
  from older_update [OF this i] show ?thesis by (simp add: slot_release_def)
qed

subsection \<open>Stale handles\<close>

text \<open>Whatever the program does to its heap, in any order: an operation that fails leaves it as it was.\<close>

inductive heap_step :: "heap \<Rightarrow> heap \<Rightarrow> bool" where
  allocates: "heap_allocate h kind n = Inr (k, h') \<Longrightarrow> kind \<noteq> FreeCell \<Longrightarrow> heap_step h h'"
| writes: "heap_cell_put h k bytes = Inr h' \<Longrightarrow> heap_step h h'"
| retires: "heap_retire h k = Inr h' \<Longrightarrow> heap_step h h'"
| collects: "collect h roots budget = Some (Inr h') \<Longrightarrow> heap_step h h'"

lemma heap_step_older: "heap_step h h' \<Longrightarrow> older h h'"
  by (induction rule: heap_step.induct) (auto dest: allocate_older put_older retire_older collect_older)

lemma heap_steps_older: "heap_step\<^sup>*\<^sup>* h h' \<Longrightarrow> older h h'"
  by (induction rule: rtranclp_induct) (auto dest: heap_step_older intro: older_trans)

lemma heap_slot_Inr_iff:
  "(\<exists>s. heap_slot h k = Inr s) \<longleftrightarrow>
     unat (h_index k) < length (hp_slots h) \<and> s_generation (hp_slots h ! unat (h_index k)) = h_generation k \<and>
     s_kind (hp_slots h ! unat (h_index k)) \<noteq> 0"
  by (auto simp: heap_slot_def and_then_Inr ok_or_def get_at_def kind_from_byte_free split: option.splits if_splits)

text \<open>C15: a handle that has gone stale never becomes valid again, unless its generation is the counter's maximum. Take
  a handle that names a cell and whose generation is not 0xFFFFFFFF. If after some allocations, writes,
  retirements and collections it is stale, then it is stale after any more of them, however its slot is reused.\<close>

theorem stale_handle_never_revived:
  assumes "heap_slot h k = Inr s" "h_generation k \<noteq> 0xFFFFFFFF"
    and "heap_step\<^sup>*\<^sup>* h h1" "heap_slot h1 k = Inl StaleHandle"
    and "heap_step\<^sup>*\<^sup>* h1 h2"
  shows "heap_slot h2 k = Inl StaleHandle"
proof -
  let ?i = "unat (h_index k)"
  have h: "?i < length (hp_slots h)" "s_generation (hp_slots h ! ?i) = h_generation k" "s_kind (hp_slots h ! ?i) \<noteq> 0"
    using assms(1) heap_slot_Inr_iff [of h k] by auto
  have o: "older h h1" "older h1 h2" using assms(3,5) by (auto intro: heap_steps_older)
  have len: "?i < length (hp_slots h1)" using o(1) h(1) by (simp add: older_def)
  have "\<not> (s_generation (hp_slots h1 ! ?i) = h_generation k \<and> s_kind (hp_slots h1 ! ?i) \<noteq> 0)"
    using assms(4) len heap_slot_Inr_iff [of h1 k] by auto
  then have "s_generation (hp_slots h1 ! ?i) \<noteq> h_generation k"
    using o(1) h assms(2) by (auto simp: older_def)
  moreover have "unat (h_generation k) \<le> unat (s_generation (hp_slots h1 ! ?i))"
    "unat (s_generation (hp_slots h1 ! ?i)) \<le> unat (s_generation (hp_slots h2 ! ?i))"
    using o h(1,2) len by (auto simp: older_def)
  ultimately have "s_generation (hp_slots h2 ! ?i) \<noteq> h_generation k"
    by (auto simp: word_unat_eq_iff)
  then have "\<not> (\<exists>s. heap_slot h2 k = Inr s)" by (simp add: heap_slot_Inr_iff)
  then show ?thesis by (cases "heap_slot h2 k") (simp_all add: heap_slot_Inl)
qed


definition spare_heap :: heap where
  "spare_heap = heap_new (replicate 64 0) [slot_empty]"

lemma case_Inr:
  "(case r of Inl _ \<Rightarrow> False | Inr x \<Rightarrow> P x) \<longleftrightarrow> (\<exists>x. r = Inr x \<and> P x)"
  "(case q of Inl _ \<Rightarrow> False | Inr (a, b) \<Rightarrow> Q a b) \<longleftrightarrow> (\<exists>a b. q = Inr (a, b) \<and> Q a b)"
  by (cases r; simp) (cases q; auto)

theorem stale_handle_never_revived_witness:
  "case heap_allocate spare_heap StringCell 4 of Inl _ \<Rightarrow> False | Inr (k, h1) \<Rightarrow>
    (case heap_retire h1 k of Inl _ \<Rightarrow> False | Inr h2 \<Rightarrow>
    (case heap_allocate h2 ObjectCell 8 of Inl _ \<Rightarrow> False | Inr (k', h3) \<Rightarrow>
       h_index k' = h_index k \<and> heap_slot h3 k = Inl StaleHandle))"
proof -
  have "case heap_allocate spare_heap StringCell 4 of Inl _ \<Rightarrow> False | Inr (k, h1) \<Rightarrow>
      heap_slot h1 k \<noteq> Inl StaleHandle \<and> h_generation k \<noteq> 0xFFFFFFFF \<and>
      (case heap_retire h1 k of Inl _ \<Rightarrow> False | Inr h2 \<Rightarrow> heap_slot h2 k = Inl StaleHandle \<and>
      (case heap_allocate h2 ObjectCell 8 of Inl _ \<Rightarrow> False | Inr (k', h3) \<Rightarrow> h_index k' = h_index k))"
    by code_simp
  then obtain k h1 h2 k' h3 where run: "heap_allocate spare_heap StringCell 4 = Inr (k, h1)"
      "heap_retire h1 k = Inr h2" "heap_allocate h2 ObjectCell 8 = Inr (k', h3)"
    and s: "heap_slot h1 k \<noteq> Inl StaleHandle" "h_generation k \<noteq> 0xFFFFFFFF" "heap_slot h2 k = Inl StaleHandle"
      "h_index k' = h_index k"
    unfolding case_Inr by blast
  obtain slot where "heap_slot h1 k = Inr slot" using s(1) by (cases "heap_slot h1 k") (simp_all add: heap_slot_Inl)
  moreover have "heap_step\<^sup>*\<^sup>* h1 h2" "heap_step\<^sup>*\<^sup>* h2 h3"
    using heap_step.retires [OF run(2)] heap_step.allocates [OF run(3)] by auto
  ultimately have "heap_slot h3 k = Inl StaleHandle"
    using stale_handle_never_revived [of h1 k slot h2 h3] s(2,3) by blast
  then show ?thesis using run s(4) by simp
qed

subsection \<open>Where the code falls short of its comments\<close>

declare compact_loop.simps [code] collect_loop.simps [code]

text \<open>C38: the generation counter stops at its maximum instead of retiring the slot, so there a handle does come
  back. Whenever a cell whose handle has generation 0xFFFFFFFF is retired, the handle is stale; and whenever the
  next allocation takes the same slot, it hands out the same handle, which then names the new cell.\<close>

theorem full_generation_revives:
  assumes "heap_slot h k = Inr s" "h_generation k = 0xFFFFFFFF" "heap_retire h k = Inr h2"
    and "heap_allocate h2 kind n = Inr (k', h3)" "kind \<noteq> FreeCell" "h_index k' = h_index k"
  shows "heap_slot h2 k = Inl StaleHandle \<and> k' = k \<and> heap_kind h3 k = Inr kind"
proof -
  let ?i = "unat (h_index k)"
  have i: "?i < length (hp_slots h)" "s_generation (hp_slots h ! ?i) = h_generation k"
    using assms(1) heap_slot_Inr_iff [of h k] by auto
  then have slots: "hp_slots h2 = (hp_slots h)[?i := slot_release (hp_slots h ! ?i)]"
    using assms(3) by (auto simp: heap_retire_def Let_def get_at_def note_free_eq split: if_splits)
  then have free: "s_kind (hp_slots h2 ! ?i) = 0" "s_generation (hp_slots h2 ! ?i) = h_generation k"
    using i assms(2) by (simp_all add: slot_release_def generation_next_def)
  then have "\<not> (\<exists>s. heap_slot h2 k = Inr s)" by (simp add: heap_slot_Inr_iff)
  then have stale: "heap_slot h2 k = Inl StaleHandle" by (cases "heap_slot h2 k") (simp_all add: heap_slot_Inl)
  obtain index h2' where t: "take_slot h2 = Inr (index, h2')"
    using assms(4) unfolding heap_allocate_def Let_def by (auto simp: and_then_Inr split: if_splits)
  have h2': "hp_slots h2' = hp_slots h2" "index < length (hp_slots h2)" "index \<le> u32_max"
    using take_slot_Inr [OF t] t by (auto simp: take_slot_def Let_def split: option.splits if_splits)
  then obtain slot where slot: "hp_slots h3 = (hp_slots h2)[index := slot]" "s_kind slot = cell_kind_byte kind"
      "s_generation slot = s_generation (hp_slots h2 ! index)"
    and k': "k' = handle_new (of_nat index) (s_generation (hp_slots h2 ! index))"
    using assms(4) t unfolding heap_allocate_def Let_def
    by (auto simp: and_then_Inr get_at_def split: if_splits)
  have "unat (of_nat index :: 32 word) = index" using h2'(3) by (simp add: unat_of_nat)
  then have index: "index = ?i" using k' assms(6) by (metis handle_new_def handle.select_convs(1))
  have "k' = k" unfolding k' using index free(2) by (cases k) (simp add: handle_new_def)
  moreover have "slot_names (hp_slots h3) k"
    using slot index h2'(2) free(2) assms(5) by (cases kind) (simp_all add: slot_names_def)
  then have "heap_slot h3 k = Inr slot" using slot(1) index h2'(2) by (simp add: heap_slot_Inr)
  then have "heap_kind h3 k = Inr kind" using slot(2) assms(5)
    by (cases kind) (simp_all add: heap_kind_def cell_kind_from_byte_def)
  ultimately show ?thesis using stale by simp
qed

theorem full_generation_revives_witness:
  "case heap_allocate (heap_over (replicate 64 0) [slot_empty\<lparr>s_generation := 0xFFFFFFFF\<rparr>] []) StringCell 4 of
     Inl _ \<Rightarrow> False | Inr (k, h1) \<Rightarrow>
    (case heap_retire h1 k of Inl _ \<Rightarrow> False | Inr h2 \<Rightarrow>
       heap_slot h2 k = Inl StaleHandle \<and>
       (case heap_allocate h2 ObjectCell 8 of Inl _ \<Rightarrow> False | Inr (k', h3) \<Rightarrow> k' = k \<and> heap_kind h3 k = Inr ObjectCell))"
proof -
  let ?h = "heap_over (replicate 64 0) [slot_empty\<lparr>s_generation := 0xFFFFFFFF\<rparr>] []"
  have "case heap_allocate ?h StringCell 4 of Inl _ \<Rightarrow> False | Inr (k, h1) \<Rightarrow>
      heap_slot h1 k \<noteq> Inl StaleHandle \<and> h_generation k = 0xFFFFFFFF \<and>
      (case heap_retire h1 k of Inl _ \<Rightarrow> False | Inr h2 \<Rightarrow>
      (case heap_allocate h2 ObjectCell 8 of Inl _ \<Rightarrow> False | Inr (k', h3) \<Rightarrow> h_index k' = h_index k))"
    by code_simp
  then obtain k h1 h2 k' h3 where run: "heap_allocate ?h StringCell 4 = Inr (k, h1)"
      "heap_retire h1 k = Inr h2" "heap_allocate h2 ObjectCell 8 = Inr (k', h3)"
    and k: "heap_slot h1 k \<noteq> Inl StaleHandle" "h_generation k = 0xFFFFFFFF" "h_index k' = h_index k"
    unfolding case_Inr by blast
  obtain slot where "heap_slot h1 k = Inr slot" using k(1) by (cases "heap_slot h1 k") (simp_all add: heap_slot_Inl)
  from full_generation_revives [OF this k(2) run(2,3) _ k(3)] show ?thesis using run by simp
qed

text \<open>A slot that was retired and reused before a compaction loses its new cell there. The arena still
  holds the header of the retired cell, which names the slot; the compaction finds that the slot's cell
  is elsewhere, takes the header for garbage and releases the slot, although its cell is a root.\<close>

lemma retired_slot_reuse_lost:
  "case heap_allocate spare_heap StringCell 4 of Inl _ \<Rightarrow> False | Inr (k, h1) \<Rightarrow>
    (case heap_retire h1 k of Inl _ \<Rightarrow> False | Inr h2 \<Rightarrow>
    (case heap_allocate h2 StringCell 4 of Inl _ \<Rightarrow> False | Inr (root, h3) \<Rightarrow>
       heap_kind h3 root = Inr StringCell \<and>
       (case collect h3 [root] 64 of Some (Inr h4) \<Rightarrow> heap_kind h4 root = Inl StaleHandle | _ \<Rightarrow> False)))"
  by code_simp

text \<open>A compaction leaves \<open>used\<close> rounded up past the end of an arena whose length is no multiple of
  eight, and \<open>free\<close>, an unchecked subtraction, then reports four gigabytes instead of nothing.\<close>

lemma compaction_free_wraps:
  "case heap_allocate (heap_new (replicate 20 0) [slot_empty]) StringCell 9 of Inl _ \<Rightarrow> False | Inr (root, h1) \<Rightarrow>
     heap_free h1 = 3 \<and>
     (case collect h1 [root] 64 of Some (Inr h2) \<Rightarrow> hp_used h2 = 24 \<and> heap_free h2 = 2 ^ 32 - 4 | _ \<Rightarrow> False)"
  by code_simp

end
