(* ===== verification/Cell_Access.thy ===== *)
theory Cell_Access
  imports Heap_Interface
begin

text \<open>
  How the object, environment and promise modules reach a cell: little-endian fields, single bytes,
  and the borrow of \<open>cell_mut\<close>. A borrow reads the cell, changes the copy and writes it back, which is
  what a mutable slice of the arena does while nothing else touches the heap. A byte index past the
  end of the cell panics in the source; here it is an error value of the caller's choice.
\<close>

definition map_err :: "('e \<Rightarrow> 'f) \<Rightarrow> 'e + 'a \<Rightarrow> 'f + 'a" where
  "map_err f r = (case r of Inl e \<Rightarrow> Inl (f e) | Inr x \<Rightarrow> Inr x)"

lemma map_err_simps [simp]: "map_err f (Inl e) = Inl (f e)" "map_err f (Inr x) = Inr x"
  by (simp_all add: map_err_def)

lemma map_err_Inr [simp]: "map_err f r = Inr x \<longleftrightarrow> r = Inr x"
  by (cases r) simp_all

definition read_u32_at :: "byte list \<Rightarrow> nat \<Rightarrow> nat" where
  "read_u32_at bytes at = (case field 4 bytes at of None \<Rightarrow> 0 | Some f \<Rightarrow> of_le f)"

definition write_u32 :: "byte list \<Rightarrow> nat \<Rightarrow> nat \<Rightarrow> byte list" where
  "write_u32 bytes at v = put_at bytes at (le_bytes 4 v)"

definition read_u64 :: "byte list \<Rightarrow> nat \<Rightarrow> 64 word" where
  "read_u64 bytes at = (case field 8 bytes at of None \<Rightarrow> 0 | Some f \<Rightarrow> of_nat (of_le f))"

definition write_u64 :: "byte list \<Rightarrow> nat \<Rightarrow> 64 word \<Rightarrow> byte list" where
  "write_u64 bytes at v = put_at bytes at (le_bytes 8 (unat v))"

definition byte_at :: "'e \<Rightarrow> byte list \<Rightarrow> nat \<Rightarrow> 'e + byte" where
  "byte_at panic bytes at = ok_or panic (get_at bytes at)"

definition set_byte :: "'e \<Rightarrow> byte list \<Rightarrow> nat \<Rightarrow> byte \<Rightarrow> 'e + byte list" where
  "set_byte panic bytes at b = (if at < length bytes then Inr (put_at bytes at [b]) else Inl panic)"

definition with_cell ::
  "(heap_error \<Rightarrow> 'e) \<Rightarrow> heap \<Rightarrow> handle \<Rightarrow> (byte list \<Rightarrow> 'e + byte list) \<Rightarrow> 'e + heap" where
  "with_cell lift h k change =
     and_then (map_err lift (heap_cell h k)) (\<lambda>cell.
     and_then (change cell) (\<lambda>cell.
       map_err lift (heap_cell_put h k cell)))"

subsection \<open>Reading back what was written\<close>

lemma store_reads:
  assumes "store h k = Some (kind, cell)"
  shows "heap_kind h k = Inr kind" "heap_cell h k = Inr cell"
  using assms by (auto simp: store_def split: sum.splits)

lemma heap_kind_store:
  assumes "heap_ok h" "heap_kind h k = Inr kind"
  obtains cell where "store h k = Some (kind, cell)"
proof -
  obtain cs where cs: "heap_inv h cs" using assms(1) by (rule heap_okE)
  have "slot_names (hp_slots h) k"
    using assms(2) by (cases "heap_slot h k") (auto simp: heap_kind_def heap_slot_Inr)
  then have "store h k \<noteq> None" using store_names [OF cs] by blast
  then obtain kind' cell where "store h k = Some (kind', cell)" by auto
  then show ?thesis using that store_reads(1) assms(2) by fastforce
qed

lemma with_cell_store:
  assumes "heap_ok h" "store h k = Some (kind, cell)" "change cell = Inr cell'" "length cell' = length cell"
  shows "\<exists>h'. with_cell lift h k change = Inr h' \<and> heap_ok h' \<and> store h' = (store h)(k \<mapsto> (kind, cell'))"
  using cells.put_law [OF assms(1,2,4)] assms(2,3) by (auto simp: with_cell_def store_reads)

lemma field_put_same: "at + length bytes \<le> length out \<Longrightarrow> length bytes = n \<Longrightarrow> field n (put_at out at bytes) at = Some bytes"
  using subrange_put_same [of at bytes out] by (simp add: field_def)

lemma field_put_other: "at + n \<le> i \<or> i + length bytes \<le> at \<Longrightarrow> field n (put_at out i bytes) at = field n out at"
  by (simp add: field_def subrange_put_other)

lemma get_at_put_other: "at < i \<or> i + length bytes \<le> at \<Longrightarrow> get_at (put_at out i bytes) at = get_at out at"
  by (cases "i + length bytes \<le> length out") (auto simp: get_at_def put_at_nth, auto simp: put_at_def)

lemma read_write_u32 [simp]:
  assumes "at + 4 \<le> length out" "v \<le> u32_max"
  shows "read_u32_at (write_u32 out at v) at = v"
  using assms by (simp add: read_u32_at_def write_u32_def field_put_same of_le_le_bytes)

lemma read_u32_at_le: "read_u32_at bytes at \<le> u32_max"
proof (cases "field 4 bytes at")
  case (Some f)
  then have "length f = 4" by (auto simp: field_def dest: length_subrange)
  then show ?thesis using of_le_bound [of f] Some by (simp add: read_u32_at_def)
qed (simp add: read_u32_at_def)

lemma read_write_u64 [simp]: "at + 8 \<le> length out \<Longrightarrow> read_u64 (write_u64 out at v) at = v"
  by (simp add: read_u64_def write_u64_def field_put_same)

lemma write_lengths [simp]:
  "length (write_u32 out at v) = length out" "length (write_u64 out at w) = length out"
  "length (encode_at x out at) = length out" "length (encode_short_at x out at) = length out"
  "length (handle_write_at k out at) = length out" "length (handle_write_none_at out at) = length out"
  by (simp_all add: write_u32_def write_u64_def encode_at_def encode_short_at_def handle_write_at_def
      handle_write_none_at_def Let_def)

lemma set_byte_Inr: "set_byte panic bytes at b = Inr bytes' \<longleftrightarrow> at < length bytes \<and> bytes' = put_at bytes at [b]"
  by (auto simp: set_byte_def)

end
