(* ===== verification/Js_Number.thy ===== *)
theory Js_Number
  imports Js_Value Complex_Main
begin

text \<open>
  Numbers and equality from \<^verbatim>\<open>modules/common/value.rs\<close>, with the comparison of
  \<^verbatim>\<open>modules/common/softfloat.rs\<close>: the conversions to fixed-width integers, truncation, and the three
  equalities. A binary64 is its bits, as in the source; \<open>f64_real\<close> says which real number they denote,
  and the conversions are proved against it.
\<close>

unbundle bit_operations_syntax

subsection \<open>Comparison\<close>

abbreviation (input) SIGN :: "64 word" where "SIGN \<equiv> 0x8000000000000000"

definition ordered_bits :: "f64 \<Rightarrow> int" where
  "ordered_bits bits = (if bits AND SIGN \<noteq> 0 then - sint (bits AND NOT SIGN) else sint bits)"

definition f64_compare :: "f64 \<Rightarrow> f64 \<Rightarrow> int" where
  "f64_compare left right =
     (if f64_is_nan left \<or> f64_is_nan right then 2
      else
        (let a_zero = left AND NOT SIGN = 0; b_zero = right AND NOT SIGN = 0 in
         if a_zero \<and> b_zero then 0
         else
           (let a = ordered_bits left; b = ordered_bits right in
            if a < b then -1 else if b < a then 1 else 0)))"

datatype comparison = CmpLess | CmpEqual | CmpGreater | CmpUndefined

definition compare_numbers :: "f64 \<Rightarrow> f64 \<Rightarrow> comparison" where
  "compare_numbers left right =
     (let ordering = f64_compare left right in
      if ordering = -1 then CmpLess
      else if ordering = 0 then CmpEqual
      else if ordering = 1 then CmpGreater
      else CmpUndefined)"

subsection \<open>Equality\<close>

definition number_equals :: "f64 \<Rightarrow> f64 \<Rightarrow> bool" where
  "number_equals left right \<longleftrightarrow> f64_compare left right = 0"

definition same_value_number :: "f64 \<Rightarrow> f64 \<Rightarrow> bool" where
  "same_value_number left right \<longleftrightarrow>
     (if f64_is_nan left \<and> f64_is_nan right then True
      else canonical_bits left = canonical_bits right)"

definition same_value_zero_number :: "f64 \<Rightarrow> f64 \<Rightarrow> bool" where
  "same_value_zero_number left right \<longleftrightarrow>
     (if f64_is_nan left \<and> f64_is_nan right then True else f64_compare left right = 0)"

definition strict_equals :: "jsvalue \<Rightarrow> jsvalue \<Rightarrow> bool option" where
  "strict_equals left right =
     (if v_tag left \<noteq> v_tag right then Some False
      else
        (case v_tag left of
           Undefined \<Rightarrow> Some True
         | Null \<Rightarrow> Some True
         | Boolean \<Rightarrow> Some (as_boolean left = as_boolean right)
         | Number \<Rightarrow> Some (number_equals (as_number left) (as_number right))
         | Symbol \<Rightarrow> Some (as_handle left = as_handle right)
         | Object \<Rightarrow> Some (as_handle left = as_handle right)
         | String \<Rightarrow> (if as_handle left = as_handle right then Some True else None)
         | BigInt \<Rightarrow> (if as_handle left = as_handle right then Some True else None)))"

definition same_value :: "jsvalue \<Rightarrow> jsvalue \<Rightarrow> bool" where
  "same_value left right \<longleftrightarrow>
     (if v_tag left \<noteq> v_tag right then False
      else if v_tag left = Number then same_value_number (as_number left) (as_number right)
      else (case strict_equals left right of Some b \<Rightarrow> b | None \<Rightarrow> False))"

definition same_value_zero :: "jsvalue \<Rightarrow> jsvalue \<Rightarrow> bool" where
  "same_value_zero left right \<longleftrightarrow>
     (if v_tag left \<noteq> v_tag right then False
      else if v_tag left = Number then same_value_zero_number (as_number left) (as_number right)
      else (case strict_equals left right of Some b \<Rightarrow> b | None \<Rightarrow> False))"

subsection \<open>Conversions\<close>

definition biased_exponent :: "f64 \<Rightarrow> nat" where
  "biased_exponent bits = unat (drop_bit 52 bits AND 0x7FF)"

definition to_uint32 :: "f64 \<Rightarrow> 32 word" where
  "to_uint32 bits =
     (let biased = biased_exponent bits; fraction = bits AND 0xFFFFFFFFFFFFF in
      if biased = 0x7FF then 0
      else if biased = 0 then 0
      else
        (let significand = fraction OR push_bit 52 1;
             exponent = int biased - 1075;
             magnitude =
               (if 0 \<le> exponent then
                  (if 64 \<le> exponent then 0 else push_bit (nat exponent) significand)
                else if 64 \<le> - exponent then 0
                else drop_bit (nat (- exponent)) significand);
             truncated = (ucast (magnitude AND 0xFFFFFFFF) :: 32 word)
         in if drop_bit 63 bits = 1 then - truncated else truncated))"

text \<open>The signed results read the same word: \<open>as i32\<close> changes no bit.\<close>

definition to_int32 :: "f64 \<Rightarrow> int" where
  "to_int32 bits = sint (to_uint32 bits)"

definition to_uint16 :: "f64 \<Rightarrow> 16 word" where
  "to_uint16 bits = ucast (to_uint32 bits AND 0xFFFF)"

definition to_int16 :: "f64 \<Rightarrow> int" where
  "to_int16 bits = sint (to_uint16 bits)"

definition to_uint8 :: "f64 \<Rightarrow> 8 word" where
  "to_uint8 bits = ucast (to_uint32 bits AND 0xFF)"

definition to_int8 :: "f64 \<Rightarrow> int" where
  "to_int8 bits = sint (to_uint8 bits)"

definition f64_truncate :: "f64 \<Rightarrow> f64" where
  "f64_truncate bits =
     (let biased = biased_exponent bits in
      if 1075 \<le> biased then bits
      else if biased < 1023 then (if drop_bit 63 bits = 1 then SIGN else 0)
      else bits AND NOT (push_bit (1075 - biased) 1 - 1))"

definition f64_is_infinite :: "f64 \<Rightarrow> bool" where
  "f64_is_infinite bits \<longleftrightarrow> bits AND NOT SIGN = 0x7FF0000000000000"

definition to_integer_or_infinity :: "f64 \<Rightarrow> f64" where
  "to_integer_or_infinity value =
     (if f64_is_nan value then 0
      else if f64_is_infinite value \<or> f64_compare value 0 = 0 then value
      else f64_truncate value)"

definition is_integral :: "f64 \<Rightarrow> bool" where
  "is_integral value \<longleftrightarrow> \<not> f64_is_nan value \<and> \<not> f64_is_infinite value \<and> f64_compare (f64_truncate value) value = 0"

definition unary_minus :: "f64 \<Rightarrow> f64" where
  "unary_minus value = value XOR SIGN"

datatype type_of_result =
  TypeUndefined | TypeObject | TypeBoolean | TypeNumber | TypeString | TypeSymbol | TypeBigInt | TypeFunction

definition type_of :: "jsvalue \<Rightarrow> bool \<Rightarrow> type_of_result" where
  "type_of value callable =
     (case v_tag value of
        Undefined \<Rightarrow> TypeUndefined
      | Null \<Rightarrow> TypeObject
      | Boolean \<Rightarrow> TypeBoolean
      | Number \<Rightarrow> TypeNumber
      | String \<Rightarrow> TypeString
      | Symbol \<Rightarrow> TypeSymbol
      | BigInt \<Rightarrow> TypeBigInt
      | Object \<Rightarrow> (if callable then TypeFunction else TypeObject))"

definition to_boolean_primitive :: "jsvalue \<Rightarrow> bool option" where
  "to_boolean_primitive value =
     (case v_tag value of
        Undefined \<Rightarrow> Some False
      | Null \<Rightarrow> Some False
      | Boolean \<Rightarrow> Some (as_boolean value)
      | Number \<Rightarrow> Some (\<not> (f64_compare (as_number value) 0 = 0 \<or> f64_is_nan (as_number value)))
      | Symbol \<Rightarrow> Some True
      | Object \<Rightarrow> Some True
      | String \<Rightarrow> None
      | BigInt \<Rightarrow> None)"

definition to_number_primitive :: "jsvalue \<Rightarrow> f64 option" where
  "to_number_primitive value =
     (case v_tag value of
        Undefined \<Rightarrow> Some 0x7FF8000000000000
      | Null \<Rightarrow> Some 0
      | Boolean \<Rightarrow> Some (if as_boolean value then 0x3FF0000000000000 else 0)
      | Number \<Rightarrow> Some (as_number value)
      | _ \<Rightarrow> None)"

subsection \<open>The number the bits denote\<close>

definition f64_fraction :: "f64 \<Rightarrow> nat" where
  "f64_fraction bits = unat (take_bit 52 bits)"

definition f64_significand :: "f64 \<Rightarrow> nat" where
  "f64_significand bits = (if biased_exponent bits = 0 then 0 else 2 ^ 52) + f64_fraction bits"

definition f64_real :: "f64 \<Rightarrow> real" where
  "f64_real bits =
     (if bit bits 63 then -1 else 1) * real (f64_significand bits) * 2 powi (int (max 1 (biased_exponent bits)) - 1075)"

definition real_truncate :: "real \<Rightarrow> int" where
  "real_truncate x = (if x < 0 then - \<lfloor>- x\<rfloor> else \<lfloor>x\<rfloor>)"

lemma biased_take: "biased_exponent bits = unat (take_bit 11 (drop_bit 52 bits))"
  by (simp add: biased_exponent_def take_bit_eq_mask mask_eq_exp_minus_1)

lemma sign_bit: "drop_bit 63 (bits :: 64 word) = 1 \<longleftrightarrow> bit bits 63"
proof
  assume "drop_bit 63 bits = 1"
  then have "bit (drop_bit 63 bits) 0" by simp
  then show "bit bits 63" by (simp add: bit_drop_bit_eq)
next
  assume b: "bit bits 63"
  show "drop_bit 63 bits = 1"
    by (rule bit_word_eqI) (use b in \<open>auto simp: bit_simps bit_1_iff dest: bit_imp_le_length\<close>)
qed

lemma fraction_bound: "f64_fraction bits < 2 ^ 52"
proof -
  have "unat (take_bit 52 bits) = take_bit 52 (unat bits)" by (simp add: unsigned_take_bit_eq)
  then show ?thesis using take_bit_nat_less_exp [of 52 "unat bits"] by (simp add: f64_fraction_def)
qed

lemma significand_word: "unat (bits AND 0xFFFFFFFFFFFFF OR push_bit 52 1 :: 64 word) = 2 ^ 52 + f64_fraction bits"
proof -
  have m: "(0xFFFFFFFFFFFFF :: 64 word) = mask 52" by (simp add: mask_eq_exp_minus_1)
  have "bits AND 0xFFFFFFFFFFFFF OR push_bit 52 1 = take_bit 52 bits + push_bit 52 1"
    unfolding m take_bit_eq_mask [symmetric]
  proof (rule disjunctive_add [symmetric])
    fix n
    show "\<not> bit (take_bit 52 bits) n \<or> \<not> bit (push_bit 52 1 :: 64 word) n"
      unfolding bit_take_bit_iff bit_push_bit_iff by auto
  qed
  also have "unat \<dots> = unat (take_bit 52 bits) + 2 ^ 52"
    using fraction_bound [of bits] by (simp add: unat_word_ariths f64_fraction_def push_bit_eq_mult)
  finally show ?thesis by (simp add: f64_fraction_def)
qed


lemma uint_significand: "uint (bits AND 0xFFFFFFFFFFFFF OR push_bit 52 1 :: 64 word) = 2 ^ 52 + int (f64_fraction bits)"
  unfolding uint_nat significand_word by simp

lemma low_word: "uint (ucast (w AND 0xFFFFFFFF :: 64 word) :: 32 word) = uint w mod 2 ^ 32"
proof -
  have "(w AND 0xFFFFFFFF :: 64 word) = take_bit 32 w" by (simp add: take_bit_eq_mask mask_eq_exp_minus_1)
  then have "uint (ucast (w AND 0xFFFFFFFF) :: 32 word) = take_bit 32 (uint (take_bit 32 w))"
    by (simp add: unsigned_ucast_eq)
  also have "\<dots> = take_bit 32 (uint w)" unfolding unsigned_take_bit_eq by simp
  finally show ?thesis by (simp add: take_bit_eq_mod)
qed

lemma floor_shift:
  assumes "0 \<le> (m :: int)"
  shows "\<lfloor>real_of_int m * 2 powi e\<rfloor> = (if 0 \<le> e then m * 2 ^ nat e else m div 2 ^ nat (- e))"
proof (cases "0 \<le> e")
  case True
  then have "real_of_int m * 2 powi e = real_of_int (m * 2 ^ nat e)" by (simp add: power_int_def)
  then show ?thesis using True by (simp only: floor_of_int if_True)
next
  case False
  then have "real_of_int m * 2 powi e = real_of_int m / real_of_int (2 ^ nat (- e))"
    by (simp add: power_int_def field_simps)
  then show ?thesis using False by (simp only: floor_divide_of_int_eq if_False)
qed

text \<open>The magnitude, as the source shifts it in 64 bits, is right in its low 32.\<close>

lemma magnitude_low:
  fixes w :: "64 word"
  assumes "uint w < 2 ^ 53"
  defines "magnitude \<equiv> \<lambda>e. if 0 \<le> e then (if 64 \<le> e then 0 else push_bit (nat e) w)
      else if 64 \<le> - e then 0 else drop_bit (nat (- e)) w"
  shows "uint (magnitude e) mod 2 ^ 32 = (if 0 \<le> e then uint w * 2 ^ nat e else uint w div 2 ^ nat (- e)) mod 2 ^ 32"
proof -
  consider "64 \<le> e" | "0 \<le> e" "e < 64" | "e < 0" "- e < 64" | "64 \<le> - e" by linarith
  then show ?thesis
  proof cases
    case 1
    then have "(2 :: int) ^ 32 dvd 2 ^ nat e" by (intro le_imp_power_dvd) simp
    then have "(2 :: int) ^ 32 dvd uint w * 2 ^ nat e" by (rule dvd_mult)
    then have "uint w * 2 ^ nat e mod 2 ^ 32 = 0" by (rule dvd_imp_mod_0)
    then show ?thesis using 1 by (simp add: magnitude_def)
  next
    case 2
    have "uint (push_bit (nat e) w) = uint w * 2 ^ nat e mod 2 ^ 64"
      unfolding unsigned_push_bit_eq by (simp add: push_bit_eq_mult take_bit_eq_mod)
    moreover have "x mod 2 ^ 64 mod 2 ^ 32 = x mod (2 :: int) ^ 32" for x
      by (rule mod_mod_cancel) (simp add: le_imp_power_dvd)
    ultimately show ?thesis using 2 by (simp add: magnitude_def)
  next
    case 3
    have "uint (drop_bit (nat (- e)) w) = uint w div 2 ^ nat (- e)"
      using unsigned_less [of w, where ?'a = int] unfolding unsigned_drop_bit_eq
      by (simp add: drop_bit_eq_div take_bit_eq_mod)
    then show ?thesis using 3 by (simp add: magnitude_def)
  next
    case 4
    have "(2 :: int) ^ 53 \<le> 2 ^ nat (- e)" using 4 by (intro power_increasing) simp_all
    then have "uint w < 2 ^ nat (- e)" using assms(1) by simp
    then have "uint w div 2 ^ nat (- e) = 0" by (simp add: div_pos_pos_trivial)
    then show ?thesis using 4 by (simp add: magnitude_def)
  qed
qed


abbreviation f64_finite :: "f64 \<Rightarrow> bool" where
  "f64_finite bits \<equiv> biased_exponent bits \<noteq> 2047"

lemma real_truncate_sign: "0 \<le> x \<Longrightarrow> real_truncate ((if b then -1 else 1) * x) = (if b then - \<lfloor>x\<rfloor> else \<lfloor>x\<rfloor>)"
  by (auto simp: real_truncate_def)

lemma real_truncate_f64:
  "real_truncate (f64_real bits) = (if bit bits 63 then -1 else 1) *
     (let e = int (max 1 (biased_exponent bits)) - 1075; m = int (f64_significand bits) in
      if 0 \<le> e then m * 2 ^ nat e else m div 2 ^ nat (- e))"
proof -
  let ?e = "int (max 1 (biased_exponent bits)) - 1075" and ?m = "int (f64_significand bits)"
  have "f64_real bits = (if bit bits 63 then -1 else 1) * (real_of_int ?m * 2 powi ?e)"
    by (simp add: f64_real_def)
  then have "real_truncate (f64_real bits) = (if bit bits 63 then -1 else 1) * \<lfloor>real_of_int ?m * 2 powi ?e\<rfloor>"
    using real_truncate_sign [of "real_of_int ?m * 2 powi ?e" "bit bits 63"] by simp
  then show ?thesis unfolding Let_def floor_shift [OF of_nat_0_le_iff] .
qed

lemma small_div: "x < 2 ^ 52 \<Longrightarrow> 52 \<le> k \<Longrightarrow> int x div 2 ^ k = 0"
proof -
  assume "x < 2 ^ 52" "52 \<le> k"
  then have "x < 2 ^ k" by (meson less_le_trans one_le_numeral power_increasing)
  then have "x div 2 ^ k = 0" by (rule div_less)
  then have "int (x div 2 ^ k) = 0" by (simp only: of_nat_0)
  then show ?thesis by (simp only: of_nat_div of_nat_power of_nat_numeral)
qed

lemma to_uint32_finite:
  assumes "f64_finite bits"
  shows "uint (to_uint32 bits) = real_truncate (f64_real bits) mod 2 ^ 32"
proof (cases "biased_exponent bits = 0")
  case True
  let ?e = "int (max 1 (biased_exponent bits)) - 1075"
  have sig: "f64_significand bits < 2 ^ 52" using True fraction_bound [of bits] by (simp add: f64_significand_def)
  have "int (f64_significand bits) div 2 ^ nat (- ?e) = 0" by (rule small_div) (use sig True in simp_all)
  then have "real_truncate (f64_real bits) = 0"
    unfolding real_truncate_f64 Let_def using True by simp
  then show ?thesis using True by (simp add: to_uint32_def Let_def)
next
  case False
  let ?w = "bits AND 0xFFFFFFFFFFFFF OR push_bit 52 1 :: 64 word" and ?e = "int (biased_exponent bits) - 1075"
  define magnitude where "magnitude = (if 0 \<le> ?e then (if 64 \<le> ?e then 0 else push_bit (nat ?e) ?w)
      else if 64 \<le> - ?e then 0 else drop_bit (nat (- ?e)) ?w)"
  define t where "t = (ucast (magnitude AND 0xFFFFFFFF) :: 32 word)"
  define m where "m = (if 0 \<le> ?e then uint ?w * 2 ^ nat ?e else uint ?w div 2 ^ nat (- ?e))"
  have w: "uint ?w = int (f64_significand bits)" using False by (simp only: uint_significand f64_significand_def) simp
  have "uint ?w < 2 ^ 53" unfolding uint_significand using fraction_bound [of bits] by simp
  then have t: "uint t = m mod 2 ^ 32"
    unfolding t_def low_word magnitude_def m_def by (rule magnitude_low)
  have code: "to_uint32 bits = (if bit bits 63 then - t else t)"
    using assms False unfolding to_uint32_def Let_def sign_bit t_def magnitude_def by (simp only: if_False)
  have "real_truncate (f64_real bits) = (if bit bits 63 then -1 else 1) * m"
    unfolding real_truncate_f64 m_def w using False by (simp add: Let_def)
  moreover have "uint (- t) = (- m) mod 2 ^ 32"
    by (simp add: uint_word_ariths t mod_minus_eq)
  ultimately show ?thesis using t by (simp add: code)
qed


subsection \<open>Truncation\<close>

lemma biased_bound: "biased_exponent bits < 2 ^ 11"
  unfolding biased_take unsigned_take_bit_eq by (rule take_bit_nat_less_exp)

lemma truncate_middle:
  assumes "1023 \<le> biased_exponent bits" "biased_exponent bits < 1075"
  defines "k \<equiv> 1075 - biased_exponent bits"
  shows "bit (f64_truncate bits) 63 = bit bits 63" "biased_exponent (f64_truncate bits) = biased_exponent bits"
    "f64_fraction (f64_truncate bits) = f64_fraction bits div 2 ^ k * 2 ^ k"
proof -
  have k: "k \<le> 52" using assms by simp
  have "f64_truncate bits = bits AND NOT (mask k)"
    using assms by (simp add: f64_truncate_def Let_def mask_eq_exp_minus_1)
  then have b: "bit (f64_truncate bits) n \<longleftrightarrow> bit bits n \<and> k \<le> n" if "n < 64" for n
    using that by (auto simp: bit_simps)
  show "bit (f64_truncate bits) 63 = bit bits 63" using b k by simp
  have "take_bit 11 (drop_bit 52 (f64_truncate bits)) = take_bit 11 (drop_bit 52 bits)"
    by (rule bit_word_eqI) (use b k in \<open>auto simp: bit_simps\<close>)
  then show "biased_exponent (f64_truncate bits) = biased_exponent bits" by (simp only: biased_take)
  have "take_bit 52 (f64_truncate bits) = push_bit k (drop_bit k (take_bit 52 bits))"
    by (rule bit_word_eqI) (use b k in \<open>auto simp: bit_simps\<close>)
  then have "f64_fraction (f64_truncate bits) = unat (push_bit k (drop_bit k (take_bit 52 bits)))"
    by (simp only: f64_fraction_def)
  also have "\<dots> = take_bit 64 (push_bit k (drop_bit k (f64_fraction bits)))"
    using fraction_bound [of bits]
    by (simp add: unsigned_push_bit_eq unsigned_drop_bit_eq f64_fraction_def take_bit_nat_eq_self)
  also have "\<dots> = f64_fraction bits div 2 ^ k * 2 ^ k"
  proof -
    have "f64_fraction bits div 2 ^ k * 2 ^ k < 2 ^ 64"
      by (rule le_less_trans [OF div_times_less_eq_dividend]) (use fraction_bound [of bits] in simp)
    then show ?thesis by (simp add: push_bit_eq_mult drop_bit_eq_div take_bit_nat_eq_self)
  qed
  finally show "f64_fraction (f64_truncate bits) = f64_fraction bits div 2 ^ k * 2 ^ k" .
qed


lemma truncate_exact:
  assumes "f64_finite bits"
  shows "f64_real (f64_truncate bits) = real_of_int (real_truncate (f64_real bits))"
proof -
  let ?b = "biased_exponent bits" and ?m = "f64_significand bits"
  consider "1075 \<le> ?b" | "?b < 1023" | "1023 \<le> ?b" "?b < 1075" by linarith
  then show ?thesis
  proof cases
    case 1
    have "real_truncate (f64_real bits) = (if bit bits 63 then -1 else 1) * (int ?m * 2 ^ (?b - 1075))"
      unfolding real_truncate_f64 Let_def using 1 by (simp add: nat_diff_distrib)
    then show ?thesis using 1 by (simp add: f64_truncate_def f64_real_def power_int_def nat_diff_distrib)
  next
    case 2
    let ?k = "nat (- (int (max 1 ?b) - 1075))"
    have k: "53 \<le> ?k" using 2 by simp
    have "?m < 2 ^ 53" using fraction_bound [of bits] by (simp add: f64_significand_def)
    then have "?m < 2 ^ ?k" using k by (meson less_le_trans one_le_numeral power_increasing)
    then have "int (?m div 2 ^ ?k) = 0" by (simp only: div_less of_nat_0)
    then have "int ?m div 2 ^ ?k = 0" by (simp only: of_nat_div of_nat_power of_nat_numeral)
    then have "real_truncate (f64_real bits) = 0" unfolding real_truncate_f64 Let_def using 2 by (auto simp: max_def)
    moreover have "f64_real SIGN = 0" "f64_real 0 = 0"
      by (simp_all add: f64_real_def f64_significand_def f64_fraction_def biased_exponent_def)
    ultimately show ?thesis using 2 by (simp add: f64_truncate_def)
  next
    case 3
    define k where "k = 1075 - ?b"
    have k: "k \<le> 52" "0 < k" using 3 by (simp_all add: k_def)
    have t: "f64_significand (f64_truncate bits) = ?m div 2 ^ k * 2 ^ k"
    proof -
      define c :: nat where "c = 2 ^ (52 - k)"
      have c: "(2 :: nat) ^ 52 = c * 2 ^ k" using k unfolding c_def by (simp flip: power_add)
      have m: "?m = c * 2 ^ k + f64_fraction bits" unfolding f64_significand_def c using 3 by simp
      have "?m div 2 ^ k = c + f64_fraction bits div 2 ^ k" unfolding m by simp
      then have "?m div 2 ^ k * 2 ^ k = 2 ^ 52 + f64_fraction bits div 2 ^ k * 2 ^ k"
        unfolding c by (simp only: distrib_right)
      then show ?thesis using truncate_middle [OF 3] 3 by (simp add: f64_significand_def k_def)
    qed
    have e: "int (max 1 ?b) - 1075 = - int k" using 3 by (simp add: k_def)
    have "real_truncate (f64_real bits) = (if bit bits 63 then -1 else 1) * int (?m div 2 ^ k)"
      unfolding real_truncate_f64 Let_def e using k by (simp add: zdiv_int)
    moreover have "f64_real (f64_truncate bits) =
        (if bit bits 63 then -1 else 1) * real (?m div 2 ^ k * 2 ^ k) * 2 powi (- int k)"
      using truncate_middle(1,2) [OF 3] by (simp only: f64_real_def t e)
    ultimately show ?thesis by (simp add: power_int_def field_simps)
  qed
qed


subsection \<open>Order\<close>

text \<open>The magnitude the low 63 bits denote grows with them.\<close>

definition magnitude_real :: "nat \<Rightarrow> real" where
  "magnitude_real n =
     (let e = n div 2 ^ 52 in real ((if e = 0 then 0 else 2 ^ 52) + n mod 2 ^ 52) * 2 powi (int (max 1 e) - 1075))"

lemma magnitude_Suc: "magnitude_real n < magnitude_real (Suc n)"
proof (cases "Suc (n mod 2 ^ 52) = 2 ^ 52")
  case False
  then have "Suc n div 2 ^ 52 = n div 2 ^ 52" "Suc n mod 2 ^ 52 = Suc (n mod 2 ^ 52)"
    by (simp_all add: div_Suc mod_Suc)
  then show ?thesis by (simp add: magnitude_real_def Let_def)
next
  case True
  let ?e = "n div 2 ^ 52"
  have n: "n mod 2 ^ 52 = 2 ^ 52 - 1" using True by simp
  have s: "Suc n div 2 ^ 52 = Suc ?e" "Suc n mod 2 ^ 52 = 0" using True by (simp_all add: div_Suc mod_Suc)
  show ?thesis
  proof (cases "?e = 0")
    case True
    then show ?thesis unfolding magnitude_real_def Let_def s n by simp
  next
    case False
    then have "int (max 1 (Suc ?e)) - 1075 = (int (max 1 ?e) - 1075) + 1" by (simp add: max_def)
    then have "2 powi (int (max 1 (Suc ?e)) - 1075) = (2 powi (int (max 1 ?e) - 1075) :: real) * 2"
      by (simp only: power_int_add_1 [of "2 :: real"] zero_neq_numeral [symmetric] simp_thms)
    then show ?thesis unfolding magnitude_real_def Let_def s n using False by simp
  qed
qed

lemma magnitude_mono: "strict_mono magnitude_real"
  by (rule strict_mono_Suc_iff [THEN iffD2]) (simp add: magnitude_Suc)

lemma unat_shift: "unat (drop_bit n (w :: 64 word)) = unat w div 2 ^ n"
  using unat_bound [of w] unfolding unsigned_drop_bit_eq by (simp add: drop_bit_eq_div take_bit_eq_mod)

lemma unat_low: "unat (take_bit n (w :: 64 word)) = unat w mod 2 ^ n"
  by (simp only: unsigned_take_bit_eq) (rule take_bit_eq_mod)

lemma f64_parts:
  "f64_real bits = (if bit bits 63 then -1 else 1) * magnitude_real (unat (take_bit 63 bits))"
proof -
  have "drop_bit 52 (take_bit 63 bits) = take_bit 11 (drop_bit 52 bits)" by (simp only: drop_bit_take_bit) simp
  then have d: "unat (take_bit 63 bits) div 2 ^ 52 = biased_exponent bits"
    by (simp only: biased_take flip: unat_shift)
  have m: "unat (take_bit 63 bits) mod 2 ^ 52 = f64_fraction bits"
    by (simp only: f64_fraction_def flip: unat_low) simp
  show ?thesis unfolding magnitude_real_def d m by (simp add: f64_real_def f64_significand_def Let_def)
qed


definition signed_magnitude :: "int \<Rightarrow> real" where
  "signed_magnitude i = (if i < 0 then - magnitude_real (nat (- i)) else magnitude_real (nat i))"

lemma magnitude_zero [simp]: "magnitude_real 0 = 0"
  by (simp add: magnitude_real_def)

lemma signed_magnitude_of:
  "signed_magnitude ((if b then -1 else 1) * int n) = (if b then -1 else 1) * magnitude_real n"
  by (cases "n = 0") (auto simp: signed_magnitude_def)

lemma signed_magnitude_mono: "strict_mono signed_magnitude"
proof (rule strict_monoI)
  fix i j :: int
  assume "i < j"
  moreover have "0 < magnitude_real n" if "0 < n" for n
    using strict_monoD [OF magnitude_mono that] by simp
  moreover have "0 \<le> magnitude_real n" for n
    using calculation(2) [of n] by (cases "n = 0") auto
  ultimately show "signed_magnitude i < signed_magnitude j"
    unfolding signed_magnitude_def
    by (auto simp: strict_mono_less [OF magnitude_mono] intro: less_le_trans [of _ 0])
qed

lemma clear_sign: "bits AND NOT SIGN = take_bit 63 bits"
proof (rule bit_word_eqI)
  fix n
  assume "n < LENGTH(64)"
  moreover have sign: "SIGN = (push_bit 63 1 :: 64 word)" by simp
  ultimately show "bit (bits AND NOT SIGN) n = bit (take_bit 63 bits) n"
    unfolding sign bit_and_iff bit_not_iff bit_take_bit_iff bit_push_bit_iff bit_1_iff by auto
qed

lemma positive_low: "\<not> bit (w :: 64 word) 63 \<Longrightarrow> take_bit 63 w = w"
proof (rule bit_word_eqI)
  fix n
  assume "\<not> bit w 63" "n < LENGTH(64)"
  then show "bit (take_bit 63 w) n = bit w n" by (cases "n = 63") (auto simp: bit_take_bit_iff)
qed

lemma ordered_bits_eq:
  "ordered_bits bits = (if bit bits 63 then -1 else 1) * int (unat (take_bit 63 bits))"
proof -
  have top: "bits AND SIGN \<noteq> 0 \<longleftrightarrow> bit bits 63"
  proof -
    have "SIGN = (push_bit 63 1 :: 64 word)" by simp
    then show ?thesis using and_exp_eq_0_iff_not_bit [of bits 63] by (simp add: push_bit_eq_mult)
  qed
  have small: "sint w = int (unat w)" if "\<not> bit w 63" for w :: "64 word"
  proof -
    have "take_bit 63 (uint w) = uint w" unfolding unsigned_take_bit_eq [symmetric] using positive_low [OF that] by simp
    moreover have "\<not> bit (uint w) 63" using that by (simp add: bit_uint_iff)
    ultimately show ?thesis by (simp add: sint_uint signed_take_bit_eq_if_positive)
  qed
  have "\<not> bit (take_bit 63 bits) 63" by (simp add: bit_take_bit_iff)
  from small [OF this] have s: "sint (take_bit 63 bits) = int (unat (take_bit 63 bits))" .
  show ?thesis unfolding ordered_bits_def clear_sign top using s positive_low [of bits] by auto
qed


lemma f64_compare_order:
  assumes "\<not> f64_is_nan x" "\<not> f64_is_nan y"
  shows "f64_compare x y = (if f64_real x < f64_real y then -1 else if f64_real y < f64_real x then 1 else 0)"
proof -
  have real: "f64_real bits = signed_magnitude (ordered_bits bits)" for bits
    unfolding f64_parts ordered_bits_eq by (rule signed_magnitude_of [symmetric])
  have "ordered_bits bits = 0" if "bits AND NOT SIGN = 0" for bits
    using that unfolding clear_sign ordered_bits_eq by simp
  then show ?thesis
    unfolding real strict_mono_less [OF signed_magnitude_mono]
    using assms by (auto simp: f64_compare_def Let_def)
qed


lemma sint_shift: "sint (w :: 32 word) = (uint w + 2 ^ 31) mod 2 ^ 32 - 2 ^ 31"
  by (simp add: sint_uint signed_take_bit_eq_take_bit_shift take_bit_eq_mod)

lemma truncate_not_finite: "\<not> f64_finite x \<Longrightarrow> f64_truncate x = x"
  by (simp add: f64_truncate_def)

text \<open>C26: the number conversions are exact, for every bit pattern. \<open>to_uint32\<close> is the integer part modulo two to the
  thirty-second, whatever shift the exponent asks for, and \<open>to_int32\<close> the representative of the same residue from
  \<open>- 2 ^ 31\<close> up to \<open>2 ^ 31\<close>; NaN and the infinities convert to zero. \<open>truncate\<close> is the integer part of a finite number
  and leaves NaN and the infinities alone. Comparison is undefined exactly on a NaN and otherwise the order of the
  reals, an infinity standing for \<open>2 ^ 1024\<close> with its sign, which is beyond every finite number; and
  \<open>compare_numbers\<close> names the four outcomes.\<close>

theorem number_conversions_exact:
  "uint (to_uint32 x) = (if f64_finite x then real_truncate (f64_real x) else 0) mod 2 ^ 32 \<and>
   to_int32 x = ((if f64_finite x then real_truncate (f64_real x) else 0) + 2 ^ 31) mod 2 ^ 32 - 2 ^ 31 \<and>
   (if f64_finite x then f64_real (f64_truncate x) = real_of_int (real_truncate (f64_real x)) else f64_truncate x = x) \<and>
   f64_compare x y = (if f64_is_nan x \<or> f64_is_nan y then 2
     else if f64_real x < f64_real y then -1 else if f64_real y < f64_real x then 1 else 0) \<and>
   compare_numbers x y = (if f64_is_nan x \<or> f64_is_nan y then CmpUndefined
     else if f64_real x < f64_real y then CmpLess else if f64_real y < f64_real x then CmpGreater else CmpEqual)"
proof -
  define n where "n = (if f64_finite x then real_truncate (f64_real x) else 0)"
  have u: "uint (to_uint32 x) = n mod 2 ^ 32"
    using to_uint32_finite [of x] by (simp add: n_def to_uint32_def Let_def)
  moreover have "to_int32 x = (n + 2 ^ 31) mod 2 ^ 32 - 2 ^ 31"
    unfolding to_int32_def sint_shift u by (simp only: mod_add_left_eq)
  moreover have c: "f64_compare x y = (if f64_is_nan x \<or> f64_is_nan y then 2
     else if f64_real x < f64_real y then -1 else if f64_real y < f64_real x then 1 else 0)"
    using f64_compare_order [of x y] by (cases "f64_is_nan x \<or> f64_is_nan y") (simp_all add: f64_compare_def)
  moreover have "compare_numbers x y = (if f64_is_nan x \<or> f64_is_nan y then CmpUndefined
     else if f64_real x < f64_real y then CmpLess else if f64_real y < f64_real x then CmpGreater else CmpEqual)"
    unfolding compare_numbers_def Let_def c by simp
  ultimately show ?thesis using truncate_exact [of x] truncate_not_finite [of x] unfolding n_def by simp
qed

text \<open>The bits are those of \<open>-3.5\<close> and \<open>2.0\<close>.\<close>

theorem number_conversions_exact_witness:
  "real_truncate (f64_real 0xC00C000000000000) mod 2 ^ 32 = 4294967293 \<and>
   (real_truncate (f64_real 0xC00C000000000000) + 2 ^ 31) mod 2 ^ 32 - 2 ^ 31 = -3 \<and>
   f64_real (f64_truncate 0xC00C000000000000) = real_of_int (real_truncate (f64_real 0xC00C000000000000)) \<and>
   f64_real 0xC00C000000000000 < f64_real 0x4000000000000000"
proof -
  let ?x = "0xC00C000000000000" and ?y = "0x4000000000000000"
  note exact = number_conversions_exact [of ?x ?y]
  have f: "f64_finite ?x" by code_simp
  have "uint (to_uint32 ?x) = 4294967293" by code_simp
  moreover have "to_int32 ?x = -3" by code_simp
  moreover have "f64_compare ?x ?y = -1" by code_simp
  ultimately show ?thesis using exact f by (auto split: if_splits)
qed

end
