(* ===== verification/Object_Cells.thy ===== *)
theory Object_Cells
  imports Cell_Access Js_Number
begin

text \<open>
  Ordinary objects, from \<^verbatim>\<open>modules/common/object.rs\<close>: an object is a cell of 56 bytes with its prototype,
  its flags and the handle of a property table, and a table is a cell of fixed-width records. Every
  function of the source is here with its heap passed and returned; an error drops the heap, since
  the only errors a well-formed heap gives are those of an allocation, which come before any write.
\<close>

unbundle bit_operations_syntax

subsection \<open>Descriptors, keys and layout\<close>

abbreviation (input) attr_WRITABLE :: byte where "attr_WRITABLE \<equiv> 1"
abbreviation (input) attr_ENUMERABLE :: byte where "attr_ENUMERABLE \<equiv> 2"
abbreviation (input) attr_CONFIGURABLE :: byte where "attr_CONFIGURABLE \<equiv> 4"
abbreviation (input) attr_DEFAULT :: byte where "attr_DEFAULT \<equiv> 7"

datatype descriptor_kind = DataProperty | AccessorProperty

record descriptor =
  d_kind :: descriptor_kind
  d_attributes :: byte
  d_value :: jsvalue
  d_getter :: jsvalue
  d_setter :: jsvalue

definition descriptor_data :: "jsvalue \<Rightarrow> byte \<Rightarrow> descriptor" where
  "descriptor_data value attributes =
     \<lparr>d_kind = DataProperty, d_attributes = attributes, d_value = value,
      d_getter = v_undefined, d_setter = v_undefined\<rparr>"

definition descriptor_accessor :: "jsvalue \<Rightarrow> jsvalue \<Rightarrow> byte \<Rightarrow> descriptor" where
  "descriptor_accessor getter setter attributes =
     \<lparr>d_kind = AccessorProperty, d_attributes = attributes, d_value = v_undefined,
      d_getter = getter, d_setter = setter\<rparr>"

definition d_has :: "descriptor \<Rightarrow> byte \<Rightarrow> bool" where
  "d_has d attribute \<longleftrightarrow> d_attributes d AND attribute \<noteq> 0"

datatype key = KeyIndex "32 word" | KeyName handle | KeySymbol handle

abbreviation (input) object_EXTENSIBLE :: nat where "object_EXTENSIBLE \<equiv> 9"
abbreviation (input) object_EXOTIC :: nat where "object_EXOTIC \<equiv> 10"
abbreviation (input) object_FLAGS :: nat where "object_FLAGS \<equiv> 21"
abbreviation (input) object_CODE :: nat where "object_CODE \<equiv> 24"
abbreviation (input) object_EXTRA :: nat where "object_EXTRA \<equiv> 44"
abbreviation (input) object_SIZE :: nat where "object_SIZE \<equiv> 56"
abbreviation (input) object_TABLE_CAPACITY :: nat where "object_TABLE_CAPACITY \<equiv> 4"
abbreviation (input) record_ACCESSOR :: nat where "record_ACCESSOR \<equiv> 1"
abbreviation (input) record_ATTRIBUTES :: nat where "record_ATTRIBUTES \<equiv> 2"
abbreviation (input) initial_capacity :: nat where "initial_capacity \<equiv> 4"
abbreviation (input) max_prototype_depth :: nat where "max_prototype_depth \<equiv> 256"

text \<open>\<open>IndexPanic\<close> is no variant of the source's enumeration: it stands for an index out of range.\<close>

datatype object_error = ObjectHeap heap_error | PrototypeChainTooDeep | TooManyKeys | IndexPanic

abbreviation (input) INTERNAL_PLAIN :: byte where "INTERNAL_PLAIN \<equiv> 0"
abbreviation (input) INTERNAL_FUNCTION :: byte where "INTERNAL_FUNCTION \<equiv> 1"
abbreviation (input) INTERNAL_NATIVE :: byte where "INTERNAL_NATIVE \<equiv> 2"
abbreviation (input) INTERNAL_PROMISE :: byte where "INTERNAL_PROMISE \<equiv> 3"
abbreviation (input) INTERNAL_WRAPPER :: byte where "INTERNAL_WRAPPER \<equiv> 4"
abbreviation (input) INTERNAL_ITERATOR :: byte where "INTERNAL_ITERATOR \<equiv> 5"
abbreviation (input) INTERNAL_REGEXP :: byte where "INTERNAL_REGEXP \<equiv> 6"
abbreviation (input) INTERNAL_GENERATOR :: byte where "INTERNAL_GENERATOR \<equiv> 7"
abbreviation (input) INTERNAL_ARGUMENTS :: byte where "INTERNAL_ARGUMENTS \<equiv> 8"
abbreviation (input) flag_CONSTRUCTOR :: byte where "flag_CONSTRUCTOR \<equiv> 1"

subsection \<open>Cells and tables\<close>

definition object_cell :: "heap \<Rightarrow> handle \<Rightarrow> object_error + byte list" where
  "object_cell h k =
     and_then (map_err ObjectHeap (heap_kind h k)) (\<lambda>kind.
     if kind \<noteq> ObjectCell then Inl (ObjectHeap StaleHandle)
     else
       and_then (map_err ObjectHeap (heap_cell h k)) (\<lambda>cell.
       if length cell < object_SIZE then Inl (ObjectHeap StaleHandle) else Inr cell))"

definition change_object :: "heap \<Rightarrow> handle \<Rightarrow> (byte list \<Rightarrow> object_error + byte list) \<Rightarrow> object_error + heap" where
  "change_object h k change = with_cell ObjectHeap h k change"

definition object_byte :: "heap \<Rightarrow> handle \<Rightarrow> nat \<Rightarrow> object_error + byte" where
  "object_byte h k i = and_then (object_cell h k) (\<lambda>cell. byte_at IndexPanic cell i)"

definition table_of :: "heap \<Rightarrow> handle \<Rightarrow> object_error + handle option" where
  "table_of h k = and_then (object_cell h k) (\<lambda>cell. Inr (handle_read_at cell object_TABLE))"

definition set_table :: "heap \<Rightarrow> handle \<Rightarrow> handle \<Rightarrow> object_error + heap" where
  "set_table h k table = change_object h k (\<lambda>cell. Inr (handle_write_at table cell object_TABLE))"

definition table_count :: "heap \<Rightarrow> handle \<Rightarrow> object_error + nat" where
  "table_count h table =
     and_then (map_err ObjectHeap (heap_cell h table)) (\<lambda>cell. Inr (read_u32_at cell object_TABLE_COUNT))"

definition table_capacity :: "heap \<Rightarrow> handle \<Rightarrow> object_error + nat" where
  "table_capacity h table =
     and_then (map_err ObjectHeap (heap_cell h table)) (\<lambda>cell. Inr (read_u32_at cell object_TABLE_CAPACITY))"

definition record_at :: "nat \<Rightarrow> nat" where
  "record_at index = object_TABLE_HEADER + index * object_RECORD"

definition table_record :: "byte list \<Rightarrow> nat \<Rightarrow> byte list option" where
  "table_record cell index = subrange cell (record_at index) (record_at index + object_RECORD)"

definition read_key :: "byte list \<Rightarrow> nat \<Rightarrow> object_error + key" where
  "read_key cell index =
     and_then (ok_or (ObjectHeap StaleHandle) (table_record cell index)) (\<lambda>record.
       let payload = read_u64 record record_KEY in
       and_then (byte_at IndexPanic record record_KIND) (\<lambda>kind.
       Inr (if kind = 0 then KeyIndex (ucast (payload AND 0xFFFFFFFF))
            else if kind = 1 then KeyName (handle_unpack payload)
            else KeySymbol (handle_unpack payload))))"

definition read_record :: "byte list \<Rightarrow> nat \<Rightarrow> object_error + descriptor" where
  "read_record cell index =
     and_then (ok_or (ObjectHeap StaleHandle) (table_record cell index)) (\<lambda>record.
     and_then (byte_at IndexPanic record record_ACCESSOR) (\<lambda>accessor.
       let kind = (if accessor = 0 then DataProperty else AccessorProperty);
           first_value = decode_at record record_FIRST;
           second = decode_short_at record record_SECOND
       in and_then (byte_at IndexPanic record record_ATTRIBUTES) (\<lambda>attributes.
          Inr (case kind of
            DataProperty \<Rightarrow>
              \<lparr>d_kind = kind, d_attributes = attributes, d_value = first_value,
               d_getter = v_undefined, d_setter = v_undefined\<rparr>
          | AccessorProperty \<Rightarrow>
              \<lparr>d_kind = kind, d_attributes = attributes, d_value = v_undefined,
               d_getter = first_value, d_setter = second\<rparr>))))"

fun key_kind :: "key \<Rightarrow> byte" where
  "key_kind (KeyIndex value) = 0"
| "key_kind (KeyName k) = 1"
| "key_kind (KeySymbol k) = 2"

fun key_payload :: "key \<Rightarrow> 64 word" where
  "key_payload (KeyIndex value) = ucast value"
| "key_payload (KeyName k) = handle_pack k"
| "key_payload (KeySymbol k) = handle_pack k"

text \<open>The record is a sub-slice of the cell, so the writes go to the cell at the record's place.\<close>

definition fill_record :: "byte list \<Rightarrow> key \<Rightarrow> descriptor \<Rightarrow> object_error + byte list" where
  "fill_record record key d =
     and_then (set_byte IndexPanic record record_KIND (key_kind key)) (\<lambda>record.
     and_then (set_byte IndexPanic record record_ACCESSOR (if d_kind d = AccessorProperty then 1 else 0)) (\<lambda>record.
     and_then (set_byte IndexPanic record record_ATTRIBUTES (d_attributes d)) (\<lambda>record.
     and_then (set_byte IndexPanic record 3 0) (\<lambda>record.
       let record = write_u64 record record_KEY (key_payload key) in
       Inr (case d_kind d of
              DataProperty \<Rightarrow>
                encode_short_at v_undefined (encode_at (d_value d) record record_FIRST) record_SECOND
            | AccessorProperty \<Rightarrow>
                encode_short_at (d_setter d) (encode_at (d_getter d) record record_FIRST) record_SECOND)))))"

definition write_record :: "byte list \<Rightarrow> nat \<Rightarrow> key \<Rightarrow> descriptor \<Rightarrow> object_error + byte list" where
  "write_record cell index key d =
     and_then (ok_or (ObjectHeap ArenaFull) (table_record cell index)) (\<lambda>record.
     and_then (fill_record record key d) (\<lambda>record.
       Inr (put_at cell (record_at index) record)))"

fun same_key :: "key \<Rightarrow> key \<Rightarrow> bool" where
  "same_key (KeyIndex a) (KeyIndex b) \<longleftrightarrow> a = b"
| "same_key (KeyName a) (KeyName b) \<longleftrightarrow> a = b"
| "same_key (KeySymbol a) (KeySymbol b) \<longleftrightarrow> a = b"
| "same_key _ _ \<longleftrightarrow> False"

definition same_reference :: "jsvalue \<Rightarrow> jsvalue \<Rightarrow> bool" where
  "same_reference left right \<longleftrightarrow>
     (if v_tag left \<noteq> v_tag right then False
      else if v_tag left = Null \<or> v_tag left = Undefined then True
      else as_handle left = as_handle right)"

definition is_compatible :: "descriptor \<Rightarrow> descriptor \<Rightarrow> bool" where
  "is_compatible current proposed \<longleftrightarrow>
     (if d_has current attr_CONFIGURABLE then True
      else if d_has proposed attr_CONFIGURABLE then False
      else if d_has current attr_ENUMERABLE \<noteq> d_has proposed attr_ENUMERABLE then False
      else if d_kind current \<noteq> d_kind proposed then False
      else
        (case d_kind current of
           DataProperty \<Rightarrow>
             (if d_has current attr_WRITABLE then True
              else \<not> d_has proposed attr_WRITABLE \<and>
                strict_equals (d_value current) (d_value proposed) = Some True)
         | AccessorProperty \<Rightarrow>
             same_reference (d_getter current) (d_getter proposed) \<and>
             same_reference (d_setter current) (d_setter proposed)))"

definition merge_descriptor :: "descriptor \<Rightarrow> descriptor \<Rightarrow> descriptor" where
  "merge_descriptor current proposed = proposed"

subsection \<open>Finding and adding a property\<close>

fun scan_records :: "byte list \<Rightarrow> key \<Rightarrow> nat \<Rightarrow> nat \<Rightarrow> object_error + nat option" where
  "scan_records cell key index 0 = Inr None"
| "scan_records cell key index (Suc left) =
     and_then (read_key cell index) (\<lambda>k.
       if same_key k key then Inr (Some index) else scan_records cell key (index + 1) left)"

definition guess_record :: "byte list \<Rightarrow> nat \<Rightarrow> key \<Rightarrow> object_error + nat option" where
  "guess_record cell n key =
     (case key of
        KeyIndex element \<Rightarrow>
          (let guess = sadd32 (unat element) 1 in
           if guess < n
           then and_then (read_key cell guess) (\<lambda>k. Inr (if same_key k key then Some guess else None))
           else Inr None)
      | _ \<Rightarrow> Inr None)"

definition find_property :: "heap \<Rightarrow> handle \<Rightarrow> key \<Rightarrow> object_error + (handle \<times> nat) option" where
  "find_property h k key =
     and_then (table_of h k) (\<lambda>found.
     case found of
       None \<Rightarrow> Inr None
     | Some table \<Rightarrow>
         and_then (table_count h table) (\<lambda>n.
         and_then (map_err ObjectHeap (heap_cell h table)) (\<lambda>cell.
         and_then (guess_record cell n key) (\<lambda>guess.
         case guess of
           Some index \<Rightarrow> Inr (Some (table, index))
         | None \<Rightarrow>
             and_then (scan_records cell key 0 n) (\<lambda>r. Inr (map_option (Pair table) r))))))"

definition allocate_table :: "heap \<Rightarrow> nat \<Rightarrow> object_error + handle \<times> heap" where
  "allocate_table h capacity =
     (let n = object_TABLE_HEADER + capacity * object_RECORD in
      if u32_max < n then Inl (ObjectHeap ArenaFull)
      else
        and_then (map_err ObjectHeap (heap_allocate h PropertyTableCell n)) (\<lambda>(table, h).
        and_then (change_object h table (\<lambda>cell.
          Inr (write_u32 (write_u32 cell object_TABLE_COUNT 0) object_TABLE_CAPACITY capacity))) (\<lambda>h.
        Inr (table, h))))"

fun copy_records :: "heap \<Rightarrow> handle \<Rightarrow> handle \<Rightarrow> nat \<Rightarrow> nat \<Rightarrow> object_error + heap" where
  "copy_records h table larger index 0 = Inr h"
| "copy_records h table larger index (Suc left) =
     and_then (map_err ObjectHeap (heap_cell h table)) (\<lambda>cell.
       let buffer = (case table_record cell index of Some r \<Rightarrow> r | None \<Rightarrow> replicate object_RECORD 0) in
       and_then (change_object h larger (\<lambda>cell. Inr (put_at cell (record_at index) buffer))) (\<lambda>h.
       copy_records h table larger (index + 1) left))"

definition grow_table :: "heap \<Rightarrow> handle \<Rightarrow> handle \<Rightarrow> nat \<Rightarrow> object_error + handle \<times> heap" where
  "grow_table h k table capacity =
     and_then (table_count h table) (\<lambda>n.
     and_then (allocate_table h (max (min (capacity * 2) u32_max) initial_capacity)) (\<lambda>(larger, h).
     and_then (copy_records h table larger 0 n) (\<lambda>h.
     and_then (change_object h larger (\<lambda>cell. Inr (write_u32 cell object_TABLE_COUNT n))) (\<lambda>h.
     and_then (set_table h k larger) (\<lambda>h.
     Inr (larger, h))))))"

definition table_with_room :: "heap \<Rightarrow> handle \<Rightarrow> object_error + handle \<times> heap" where
  "table_with_room h k =
     and_then (table_of h k) (\<lambda>found.
     case found of
       Some table \<Rightarrow>
         and_then (table_count h table) (\<lambda>n.
         and_then (table_capacity h table) (\<lambda>capacity.
         if n = capacity then grow_table h k table capacity else Inr (table, h)))
     | None \<Rightarrow>
         and_then (allocate_table h initial_capacity) (\<lambda>(table, h).
         and_then (set_table h k table) (\<lambda>h. Inr (table, h))))"

definition append_property :: "heap \<Rightarrow> handle \<Rightarrow> key \<Rightarrow> descriptor \<Rightarrow> object_error + heap" where
  "append_property h k key d =
     and_then (table_with_room h k) (\<lambda>(table, h).
     and_then (table_count h table) (\<lambda>n.
     change_object h table (\<lambda>cell.
       and_then (write_record cell n key d) (\<lambda>cell.
       Inr (write_u32 cell object_TABLE_COUNT (wadd32 n 1))))))"

definition object_reserve :: "heap \<Rightarrow> handle \<Rightarrow> nat \<Rightarrow> object_error + heap" where
  "object_reserve h k n =
     (if n = 0 then Inr h
      else
        and_then (table_of h k) (\<lambda>found.
        case found of
          Some table \<Rightarrow>
            and_then (table_capacity h table) (\<lambda>capacity.
            and_then (table_count h table) (\<lambda>used.
            if wadd32 used n \<le> capacity then Inr h
            else and_then (grow_table h k table (wadd32 used n - 1)) (\<lambda>(_, h). Inr h)))
        | None \<Rightarrow>
            and_then (allocate_table h n) (\<lambda>(table, h). set_table h k table)))"


subsection \<open>Prototype and extensibility\<close>

definition object_create :: "heap \<Rightarrow> jsvalue \<Rightarrow> object_error + handle \<times> heap" where
  "object_create h proto =
     and_then (map_err ObjectHeap (heap_allocate h ObjectCell object_SIZE)) (\<lambda>(k, h).
     and_then (change_object h k (\<lambda>cell.
       and_then (set_byte IndexPanic (encode_at proto cell object_PROTOTYPE) object_EXTENSIBLE 1) (\<lambda>cell.
       and_then (set_byte IndexPanic (handle_write_none_at cell object_TABLE) object_INTERNAL INTERNAL_PLAIN) (\<lambda>cell.
       Inr (handle_write_none_at cell object_HOME))))) (\<lambda>h.
     Inr (k, h)))"

definition prototype :: "heap \<Rightarrow> handle \<Rightarrow> object_error + jsvalue" where
  "prototype h k = and_then (object_cell h k) (\<lambda>cell. Inr (decode_at cell object_PROTOTYPE))"

definition is_extensible :: "heap \<Rightarrow> handle \<Rightarrow> object_error + bool" where
  "is_extensible h k = and_then (object_byte h k object_EXTENSIBLE) (\<lambda>b. Inr (b \<noteq> 0))"

definition prevent_extensions :: "heap \<Rightarrow> handle \<Rightarrow> object_error + heap" where
  "prevent_extensions h k = change_object h k (\<lambda>cell. set_byte IndexPanic cell object_EXTENSIBLE 0)"

text \<open>The walk up the chain: \<open>left\<close> is how many steps the depth limit still admits.\<close>

fun chain_reaches :: "heap \<Rightarrow> handle \<Rightarrow> nat \<Rightarrow> jsvalue \<Rightarrow> object_error + bool" where
  "chain_reaches h k left walker =
     (if v_tag walker \<noteq> Object then Inr False
      else if as_handle walker = k then Inr True
      else
        (case left of
           0 \<Rightarrow> Inl PrototypeChainTooDeep
         | Suc left \<Rightarrow> and_then (prototype h (as_handle walker)) (\<lambda>walker. chain_reaches h k left walker)))"

declare chain_reaches.simps [simp del]

definition set_prototype :: "heap \<Rightarrow> handle \<Rightarrow> jsvalue \<Rightarrow> object_error + bool \<times> heap" where
  "set_prototype h k value =
     and_then (prototype h k) (\<lambda>current.
     if same_reference current value then Inr (True, h)
     else
       and_then (is_extensible h k) (\<lambda>extensible.
       if \<not> extensible then Inr (False, h)
       else
         and_then (chain_reaches h k max_prototype_depth value) (\<lambda>cyclic.
         if cyclic then Inr (False, h)
         else
           and_then (change_object h k (\<lambda>cell. Inr (encode_at value cell object_PROTOTYPE))) (\<lambda>h.
           Inr (True, h)))))"

subsection \<open>Properties\<close>

definition get_own_property :: "heap \<Rightarrow> handle \<Rightarrow> key \<Rightarrow> object_error + descriptor option" where
  "get_own_property h k key =
     and_then (find_property h k key) (\<lambda>found.
     case found of
       None \<Rightarrow> Inr None
     | Some (table, index) \<Rightarrow>
         and_then (map_err ObjectHeap (heap_cell h table)) (\<lambda>cell.
         and_then (read_record cell index) (\<lambda>d. Inr (Some d))))"

definition define_own_property :: "heap \<Rightarrow> handle \<Rightarrow> key \<Rightarrow> descriptor \<Rightarrow> object_error + bool \<times> heap" where
  "define_own_property h k key d =
     and_then (find_property h k key) (\<lambda>found.
     case found of
       Some (table, index) \<Rightarrow>
         and_then (map_err ObjectHeap (heap_cell h table)) (\<lambda>cell.
         and_then (read_record cell index) (\<lambda>current.
         if \<not> is_compatible current d then Inr (False, h)
         else
           and_then (change_object h table (\<lambda>cell.
             write_record cell index key (merge_descriptor current d))) (\<lambda>h.
           Inr (True, h))))
     | None \<Rightarrow>
         and_then (is_extensible h k) (\<lambda>extensible.
         if \<not> extensible then Inr (False, h)
         else and_then (append_property h k key d) (\<lambda>h. Inr (True, h))))"

datatype property_lookup = Absent | LookupValue jsvalue | LookupAccessor jsvalue

definition lookup_of :: "descriptor \<Rightarrow> property_lookup" where
  "lookup_of d =
     (case d_kind d of
        DataProperty \<Rightarrow> LookupValue (d_value d)
      | AccessorProperty \<Rightarrow> LookupAccessor (d_getter d))"

fun get_chain :: "heap \<Rightarrow> key \<Rightarrow> nat \<Rightarrow> handle \<Rightarrow> object_error + property_lookup" where
  "get_chain h key left current =
     and_then (get_own_property h current key) (\<lambda>found.
     case found of
       Some d \<Rightarrow> Inr (lookup_of d)
     | None \<Rightarrow>
         and_then (prototype h current) (\<lambda>parent.
         if v_tag parent \<noteq> Object then Inr Absent
         else
           (case left of
              0 \<Rightarrow> Inl PrototypeChainTooDeep
            | Suc left \<Rightarrow> get_chain h key left (as_handle parent))))"

declare get_chain.simps [simp del]

definition object_get :: "heap \<Rightarrow> handle \<Rightarrow> key \<Rightarrow> object_error + property_lookup" where
  "object_get h k key = get_chain h key max_prototype_depth k"

definition has_property :: "heap \<Rightarrow> handle \<Rightarrow> key \<Rightarrow> object_error + bool" where
  "has_property h k key = and_then (object_get h k key) (\<lambda>r. Inr (r \<noteq> Absent))"

datatype assignment = AssignDone | AssignRefused | AssignSetter handle

definition through_setter :: "descriptor \<Rightarrow> assignment" where
  "through_setter d =
     (if v_tag (d_setter d) = Object then AssignSetter (as_handle (d_setter d)) else AssignRefused)"

definition inherited_decides :: "descriptor \<Rightarrow> assignment option" where
  "inherited_decides d =
     (case d_kind d of
        DataProperty \<Rightarrow> (if \<not> d_has d attr_WRITABLE then Some AssignRefused else None)
      | AccessorProperty \<Rightarrow> Some (through_setter d))"

text \<open>What the chain above the object says of an assignment: \<open>None\<close> where it may add a property.\<close>

fun set_chain :: "heap \<Rightarrow> key \<Rightarrow> nat \<Rightarrow> jsvalue \<Rightarrow> object_error + assignment option" where
  "set_chain h key left current =
     (if v_tag current \<noteq> Object then Inr None
      else
        and_then (get_own_property h (as_handle current) key) (\<lambda>found.
        case found of
          Some d \<Rightarrow> Inr (inherited_decides d)
        | None \<Rightarrow>
            (case left of
               0 \<Rightarrow> Inl PrototypeChainTooDeep
             | Suc left \<Rightarrow>
                 and_then (prototype h (as_handle current)) (\<lambda>parent. set_chain h key left parent))))"

declare set_chain.simps [simp del]

definition object_set :: "heap \<Rightarrow> handle \<Rightarrow> key \<Rightarrow> jsvalue \<Rightarrow> object_error + assignment \<times> heap" where
  "object_set h k key value =
     and_then (get_own_property h k key) (\<lambda>own.
     case own of
       Some d \<Rightarrow>
         (case d_kind d of
            DataProperty \<Rightarrow>
              if \<not> d_has d attr_WRITABLE then Inr (AssignRefused, h)
              else
                and_then (find_property h k key) (\<lambda>found.
                case found of
                  None \<Rightarrow> Inr (AssignRefused, h)
                | Some (table, index) \<Rightarrow>
                    and_then (change_object h table (\<lambda>cell.
                      write_record cell index key (d\<lparr>d_value := value\<rparr>))) (\<lambda>h.
                    Inr (AssignDone, h)))
          | AccessorProperty \<Rightarrow> Inr (through_setter d, h))
     | None \<Rightarrow>
         and_then (prototype h k) (\<lambda>parent.
         and_then (set_chain h key max_prototype_depth parent) (\<lambda>decided.
         case decided of
           Some a \<Rightarrow> Inr (a, h)
         | None \<Rightarrow>
             and_then (is_extensible h k) (\<lambda>extensible.
             if \<not> extensible then Inr (AssignRefused, h)
             else
               and_then (append_property h k key (descriptor_data value attr_DEFAULT)) (\<lambda>h.
               Inr (AssignDone, h))))))"

text \<open>Later records move down one place, \<open>left\<close> of them.\<close>

fun move_records :: "byte list \<Rightarrow> nat \<Rightarrow> nat \<Rightarrow> byte list" where
  "move_records cell cursor 0 = cell"
| "move_records cell cursor (Suc left) =
     (let buffer = (case table_record cell (cursor + 1) of Some r \<Rightarrow> r | None \<Rightarrow> replicate object_RECORD 0) in
      move_records (put_at cell (record_at cursor) buffer) (cursor + 1) left)"

definition object_delete :: "heap \<Rightarrow> handle \<Rightarrow> key \<Rightarrow> object_error + bool \<times> heap" where
  "object_delete h k key =
     and_then (find_property h k key) (\<lambda>found.
     case found of
       None \<Rightarrow> Inr (True, h)
     | Some (table, index) \<Rightarrow>
         and_then (map_err ObjectHeap (heap_cell h table)) (\<lambda>cell.
         and_then (read_record cell index) (\<lambda>d.
         if \<not> d_has d attr_CONFIGURABLE then Inr (False, h)
         else
           and_then (table_count h table) (\<lambda>n.
           and_then (change_object h table (\<lambda>cell.
             Inr (write_u32 (move_records cell index (n - 1 - index)) object_TABLE_COUNT (n - 1)))) (\<lambda>h.
           Inr (True, h))))))"

subsection \<open>Own keys\<close>

fun next_index ::
  "byte list \<Rightarrow> 32 word option \<Rightarrow> nat \<Rightarrow> nat \<Rightarrow> 32 word option \<Rightarrow> object_error + 32 word option" where
  "next_index cell previous index 0 best = Inr best"
| "next_index cell previous index (Suc left) best =
     and_then (read_key cell index) (\<lambda>k.
       next_index cell previous (index + 1) left
         (case k of
            KeyIndex value \<Rightarrow>
              (let after = (case previous of Some p \<Rightarrow> p < value | None \<Rightarrow> True);
                   better = (case best of Some b \<Rightarrow> value < b | None \<Rightarrow> True)
               in if after \<and> better then Some value else best)
          | _ \<Rightarrow> best))"

fun index_keys :: "byte list \<Rightarrow> nat \<Rightarrow> nat \<Rightarrow> 32 word option \<Rightarrow> object_error + key list" where
  "index_keys cell n room previous =
     and_then (next_index cell previous 0 n None) (\<lambda>best.
     case best of
       None \<Rightarrow> Inr []
     | Some value \<Rightarrow>
         (case room of
            0 \<Rightarrow> Inl TooManyKeys
          | Suc room \<Rightarrow>
              and_then (index_keys cell n room (Some value)) (\<lambda>rest. Inr (KeyIndex value # rest))))"

declare index_keys.simps [simp del]

fun is_symbol_key :: "key \<Rightarrow> bool" where
  "is_symbol_key (KeySymbol k) \<longleftrightarrow> True"
| "is_symbol_key _ \<longleftrightarrow> False"

fun is_index_key :: "key \<Rightarrow> bool" where
  "is_index_key (KeyIndex value) \<longleftrightarrow> True"
| "is_index_key _ \<longleftrightarrow> False"

fun ordered_keys :: "byte list \<Rightarrow> bool \<Rightarrow> nat \<Rightarrow> nat \<Rightarrow> nat \<Rightarrow> object_error + key list" where
  "ordered_keys cell wanted_symbol index 0 room = Inr []"
| "ordered_keys cell wanted_symbol index (Suc left) room =
     and_then (read_key cell index) (\<lambda>k.
       if \<not> is_index_key k \<and> is_symbol_key k = wanted_symbol then
         (case room of
            0 \<Rightarrow> Inl TooManyKeys
          | Suc room \<Rightarrow>
              and_then (ordered_keys cell wanted_symbol (index + 1) left room) (\<lambda>rest. Inr (k # rest)))
       else ordered_keys cell wanted_symbol (index + 1) left room)"

text \<open>The keys written, for an output slice of \<open>room\<close> keys.\<close>

definition own_keys :: "heap \<Rightarrow> handle \<Rightarrow> nat \<Rightarrow> object_error + key list" where
  "own_keys h k room =
     and_then (table_of h k) (\<lambda>found.
     case found of
       None \<Rightarrow> Inr []
     | Some table \<Rightarrow>
         and_then (table_count h table) (\<lambda>n.
         and_then (map_err ObjectHeap (heap_cell h table)) (\<lambda>cell.
         and_then (index_keys cell n room None) (\<lambda>indices.
         and_then (ordered_keys cell False 0 n (room - length indices)) (\<lambda>names.
         and_then (ordered_keys cell True 0 n (room - length indices - length names)) (\<lambda>symbols.
         Inr (indices @ names @ symbols)))))))"

definition own_property_count :: "heap \<Rightarrow> handle \<Rightarrow> object_error + nat" where
  "own_property_count h k =
     and_then (table_of h k) (\<lambda>found. case found of Some table \<Rightarrow> table_count h table | None \<Rightarrow> Inr 0)"

end
