(* ===== verification/Object_Slots.thy ===== *)
theory Object_Slots
  imports Object_Cells
begin

text \<open>
  The internal slots of an object cell, from \<^verbatim>\<open>modules/common/object.rs\<close>: functions, natives, wrappers,
  iterators, regular expressions, generators, mapped arguments objects and promises share the same
  bytes, told apart by the internal kind.
\<close>

unbundle bit_operations_syntax

subsection \<open>Home object and exotic behaviour\<close>

definition set_home_object :: "heap \<Rightarrow> handle \<Rightarrow> handle \<Rightarrow> object_error + heap" where
  "set_home_object h k home = change_object h k (\<lambda>cell. Inr (handle_write_at home cell object_HOME))"

definition home_object :: "heap \<Rightarrow> handle \<Rightarrow> object_error + handle option" where
  "home_object h k = and_then (object_cell h k) (\<lambda>cell. Inr (handle_read_at cell object_HOME))"

definition exotic_kind :: "heap \<Rightarrow> handle \<Rightarrow> object_error + byte" where
  "exotic_kind h k = object_byte h k object_EXOTIC"

definition set_exotic_kind :: "heap \<Rightarrow> handle \<Rightarrow> byte \<Rightarrow> object_error + heap" where
  "set_exotic_kind h k kind = change_object h k (\<lambda>cell. set_byte IndexPanic cell object_EXOTIC kind)"

subsection \<open>Making objects with slots\<close>

definition create_with ::
  "heap \<Rightarrow> jsvalue \<Rightarrow> (byte list \<Rightarrow> object_error + byte list) \<Rightarrow> object_error + handle \<times> heap" where
  "create_with h proto fill =
     and_then (object_create h proto) (\<lambda>(k, h).
     and_then (change_object h k fill) (\<lambda>h. Inr (k, h)))"

definition create_function_in ::
  "heap \<Rightarrow> jsvalue \<Rightarrow> nat \<Rightarrow> jsvalue \<Rightarrow> byte \<Rightarrow> nat \<Rightarrow> object_error + handle \<times> heap" where
  "create_function_in h proto code environment flags mod_index =
     create_with h proto (\<lambda>cell.
       and_then (set_byte IndexPanic cell object_INTERNAL INTERNAL_FUNCTION) (\<lambda>cell.
       and_then (set_byte IndexPanic cell object_FLAGS flags) (\<lambda>cell.
         let cell = write_u32 cell object_CODE code;
             cell = encode_at environment cell object_SLOT
         in Inr (write_u32 cell object_EXTRA mod_index))))"

definition create_function :: "heap \<Rightarrow> jsvalue \<Rightarrow> nat \<Rightarrow> jsvalue \<Rightarrow> byte \<Rightarrow> object_error + handle \<times> heap" where
  "create_function h proto code environment flags = create_function_in h proto code environment flags 0"

definition function_module :: "heap \<Rightarrow> handle \<Rightarrow> object_error + nat" where
  "function_module h k =
     and_then (object_cell h k) (\<lambda>cell.
     and_then (byte_at IndexPanic cell object_INTERNAL) (\<lambda>kind.
       Inr (if kind \<noteq> INTERNAL_FUNCTION then 0 else read_u32_at cell object_EXTRA)))"

definition create_wrapper :: "heap \<Rightarrow> jsvalue \<Rightarrow> jsvalue \<Rightarrow> object_error + handle \<times> heap" where
  "create_wrapper h proto v =
     create_with h proto (\<lambda>cell.
       and_then (set_byte IndexPanic cell object_INTERNAL INTERNAL_WRAPPER) (\<lambda>cell.
       Inr (encode_at v cell object_SLOT)))"

definition slot_if :: "heap \<Rightarrow> handle \<Rightarrow> byte \<Rightarrow> (byte list \<Rightarrow> object_error + 'a) \<Rightarrow> object_error + 'a option" where
  "slot_if h k wanted read =
     and_then (object_cell h k) (\<lambda>cell.
     and_then (byte_at IndexPanic cell object_INTERNAL) (\<lambda>kind.
       if kind \<noteq> wanted then Inr None else and_then (read cell) (\<lambda>x. Inr (Some x))))"

definition wrapper_value :: "heap \<Rightarrow> handle \<Rightarrow> object_error + jsvalue option" where
  "wrapper_value h k = slot_if h k INTERNAL_WRAPPER (\<lambda>cell. Inr (decode_at cell object_SLOT))"

definition create_iterator :: "heap \<Rightarrow> jsvalue \<Rightarrow> jsvalue \<Rightarrow> byte \<Rightarrow> object_error + handle \<times> heap" where
  "create_iterator h proto target kind =
     create_with h proto (\<lambda>cell.
       and_then (set_byte IndexPanic cell object_INTERNAL INTERNAL_ITERATOR) (\<lambda>cell.
       and_then (set_byte IndexPanic cell object_FLAGS kind) (\<lambda>cell.
       Inr (write_u32 (encode_at target cell object_SLOT) object_EXTRA 0))))"

definition iterator_state :: "heap \<Rightarrow> handle \<Rightarrow> object_error + (jsvalue \<times> nat \<times> byte) option" where
  "iterator_state h k =
     slot_if h k INTERNAL_ITERATOR (\<lambda>cell.
       and_then (byte_at IndexPanic cell object_FLAGS) (\<lambda>kind.
       Inr (decode_at cell object_SLOT, read_u32_at cell object_EXTRA, kind)))"

text \<open>A setter of one kind's slot leaves an object of another kind alone.\<close>

definition change_if :: "heap \<Rightarrow> handle \<Rightarrow> byte \<Rightarrow> (byte list \<Rightarrow> object_error + byte list) \<Rightarrow> object_error + heap" where
  "change_if h k wanted change =
     change_object h k (\<lambda>cell.
       and_then (byte_at IndexPanic cell object_INTERNAL) (\<lambda>kind.
         if kind \<noteq> wanted then Inr cell else change cell))"

definition set_iterator_index :: "heap \<Rightarrow> handle \<Rightarrow> nat \<Rightarrow> object_error + heap" where
  "set_iterator_index h k index =
     change_if h k INTERNAL_ITERATOR (\<lambda>cell. Inr (write_u32 cell object_EXTRA index))"

definition create_regexp :: "heap \<Rightarrow> jsvalue \<Rightarrow> jsvalue \<Rightarrow> byte \<Rightarrow> object_error + handle \<times> heap" where
  "create_regexp h proto program flags =
     create_with h proto (\<lambda>cell.
       and_then (set_byte IndexPanic cell object_INTERNAL INTERNAL_REGEXP) (\<lambda>cell.
       and_then (set_byte IndexPanic cell object_FLAGS flags) (\<lambda>cell.
       Inr (encode_at program cell object_SLOT))))"

definition regexp_program :: "heap \<Rightarrow> handle \<Rightarrow> object_error + (jsvalue \<times> byte) option" where
  "regexp_program h k =
     slot_if h k INTERNAL_REGEXP (\<lambda>cell.
       and_then (byte_at IndexPanic cell object_FLAGS) (\<lambda>flags. Inr (decode_at cell object_SLOT, flags)))"

definition create_native :: "heap \<Rightarrow> jsvalue \<Rightarrow> nat \<Rightarrow> byte \<Rightarrow> object_error + handle \<times> heap" where
  "create_native h proto native flags =
     create_with h proto (\<lambda>cell.
       and_then (set_byte IndexPanic cell object_INTERNAL INTERNAL_NATIVE) (\<lambda>cell.
       and_then (set_byte IndexPanic cell object_FLAGS flags) (\<lambda>cell.
       Inr (encode_at v_undefined (write_u32 cell object_CODE native) object_SLOT))))"

definition create_generator :: "heap \<Rightarrow> jsvalue \<Rightarrow> jsvalue \<Rightarrow> object_error + handle \<times> heap" where
  "create_generator h proto coroutine =
     create_with h proto (\<lambda>cell.
       and_then (set_byte IndexPanic cell object_INTERNAL INTERNAL_GENERATOR) (\<lambda>cell.
       and_then (set_byte IndexPanic cell object_FLAGS 0) (\<lambda>cell.
       Inr (encode_at coroutine cell object_SLOT))))"

subsection \<open>Mapped arguments\<close>

definition map_arguments :: "heap \<Rightarrow> handle \<Rightarrow> jsvalue \<Rightarrow> nat \<Rightarrow> object_error + heap" where
  "map_arguments h k environment mapped =
     (let mask = (if 32 \<le> mapped then u32_max else 2 ^ mapped - 1) in
      change_object h k (\<lambda>cell.
        and_then (set_byte IndexPanic cell object_INTERNAL INTERNAL_ARGUMENTS) (\<lambda>cell.
        Inr (write_u32 (encode_at environment cell object_SLOT) object_EXTRA mask))))"

definition arguments_map :: "heap \<Rightarrow> handle \<Rightarrow> object_error + (jsvalue \<times> nat) option" where
  "arguments_map h k =
     slot_if h k INTERNAL_ARGUMENTS (\<lambda>cell. Inr (decode_at cell object_SLOT, read_u32_at cell object_EXTRA))"

definition unmap_argument :: "heap \<Rightarrow> handle \<Rightarrow> nat \<Rightarrow> object_error + heap" where
  "unmap_argument h k index =
     change_object h k (\<lambda>cell.
       and_then (byte_at IndexPanic cell object_INTERNAL) (\<lambda>kind.
         if kind \<noteq> INTERNAL_ARGUMENTS \<or> 32 \<le> index then Inr cell
         else
           (let mask = (of_nat (read_u32_at cell object_EXTRA) :: 32 word);
                mask = mask AND NOT (push_bit index 1)
            in Inr (write_u32 cell object_EXTRA (unat mask)))))"

subsection \<open>Generators and functions\<close>

definition is_generator :: "heap \<Rightarrow> handle \<Rightarrow> object_error + bool" where
  "is_generator h k = and_then (object_byte h k object_INTERNAL) (\<lambda>kind. Inr (kind = INTERNAL_GENERATOR))"

definition generator_of :: "heap \<Rightarrow> handle \<Rightarrow> object_error + (byte \<times> jsvalue) option" where
  "generator_of h k =
     slot_if h k INTERNAL_GENERATOR (\<lambda>cell.
       and_then (byte_at IndexPanic cell object_FLAGS) (\<lambda>state. Inr (state, decode_at cell object_SLOT)))"

definition set_generator :: "heap \<Rightarrow> handle \<Rightarrow> byte \<Rightarrow> jsvalue \<Rightarrow> object_error + heap" where
  "set_generator h k state coroutine =
     change_if h k INTERNAL_GENERATOR (\<lambda>cell.
       and_then (set_byte IndexPanic cell object_FLAGS state) (\<lambda>cell.
       Inr (encode_at coroutine cell object_SLOT)))"

definition is_callable :: "heap \<Rightarrow> handle \<Rightarrow> object_error + bool" where
  "is_callable h k =
     and_then (object_byte h k object_INTERNAL) (\<lambda>kind.
       Inr (kind = INTERNAL_FUNCTION \<or> kind = INTERNAL_NATIVE))"

definition is_native :: "heap \<Rightarrow> handle \<Rightarrow> object_error + bool" where
  "is_native h k = and_then (object_byte h k object_INTERNAL) (\<lambda>kind. Inr (kind = INTERNAL_NATIVE))"

definition is_constructor :: "heap \<Rightarrow> handle \<Rightarrow> object_error + bool" where
  "is_constructor h k =
     and_then (object_byte h k object_INTERNAL) (\<lambda>kind.
     and_then (object_byte h k object_FLAGS) (\<lambda>flags.
       Inr (kind \<noteq> INTERNAL_PLAIN \<and> flags AND flag_CONSTRUCTOR \<noteq> 0)))"

definition function_flags :: "heap \<Rightarrow> handle \<Rightarrow> object_error + byte" where
  "function_flags h k = object_byte h k object_FLAGS"

definition add_function_flags :: "heap \<Rightarrow> handle \<Rightarrow> byte \<Rightarrow> object_error + heap" where
  "add_function_flags h k flags =
     change_object h k (\<lambda>cell.
       and_then (byte_at IndexPanic cell object_FLAGS) (\<lambda>old.
       set_byte IndexPanic cell object_FLAGS (old OR flags)))"

definition function_code :: "heap \<Rightarrow> handle \<Rightarrow> object_error + nat" where
  "function_code h k = and_then (object_cell h k) (\<lambda>cell. Inr (read_u32_at cell object_CODE))"

definition function_environment :: "heap \<Rightarrow> handle \<Rightarrow> object_error + jsvalue" where
  "function_environment h k = and_then (object_cell h k) (\<lambda>cell. Inr (decode_at cell object_SLOT))"

definition set_bound_value :: "heap \<Rightarrow> handle \<Rightarrow> jsvalue \<Rightarrow> object_error + heap" where
  "set_bound_value h k v = change_object h k (\<lambda>cell. Inr (encode_at v cell object_SLOT))"

subsection \<open>Promise slots\<close>

definition make_promise :: "heap \<Rightarrow> handle \<Rightarrow> object_error + heap" where
  "make_promise h k =
     change_object h k (\<lambda>cell.
       and_then (set_byte IndexPanic cell object_INTERNAL INTERNAL_PROMISE) (\<lambda>cell.
       and_then (set_byte IndexPanic cell object_FLAGS 0) (\<lambda>cell.
       Inr (handle_write_none_at (encode_at v_undefined cell object_SLOT) object_REACTIONS))))"

definition is_promise :: "heap \<Rightarrow> handle \<Rightarrow> object_error + bool" where
  "is_promise h k = and_then (object_byte h k object_INTERNAL) (\<lambda>kind. Inr (kind = INTERNAL_PROMISE))"

definition promise_state :: "heap \<Rightarrow> handle \<Rightarrow> object_error + byte" where
  "promise_state h k = object_byte h k object_FLAGS"

definition promise_value :: "heap \<Rightarrow> handle \<Rightarrow> object_error + jsvalue" where
  "promise_value h k = and_then (object_cell h k) (\<lambda>cell. Inr (decode_at cell object_SLOT))"

definition settle_promise :: "heap \<Rightarrow> handle \<Rightarrow> byte \<Rightarrow> jsvalue \<Rightarrow> object_error + bool \<times> heap" where
  "settle_promise h k state v =
     and_then (promise_state h k) (\<lambda>current.
     if current \<noteq> 0 then Inr (False, h)
     else
       and_then (change_object h k (\<lambda>cell.
         and_then (set_byte IndexPanic cell object_FLAGS state) (\<lambda>cell.
         Inr (encode_at v cell object_SLOT)))) (\<lambda>h.
       Inr (True, h)))"

definition promise_reactions :: "heap \<Rightarrow> handle \<Rightarrow> object_error + handle option" where
  "promise_reactions h k = and_then (object_cell h k) (\<lambda>cell. Inr (handle_read_at cell object_REACTIONS))"

definition set_promise_reactions :: "heap \<Rightarrow> handle \<Rightarrow> handle \<Rightarrow> object_error + heap" where
  "set_promise_reactions h k reactions =
     change_object h k (\<lambda>cell. Inr (handle_write_at reactions cell object_REACTIONS))"

end
