(* ===== verification/Promise_Cells.thy ===== *)
theory Promise_Cells
  imports Job_Queue Object_Slots
begin

text \<open>
  Promises and their reactions, from \<^verbatim>\<open>modules/common/promise.rs\<close>. A pending promise keeps its reactions in a
  list cell; settling it turns each into a job. \<open>settle\<close> changes the promise and the queue before it can fail, so
  it answers the heap and the queue together with its result, error or not; the other operations answer their
  state on success. Names of operations that other components have too carry the prefix \<open>promise\<close>.
\<close>

abbreviation (input) PENDING :: byte where "PENDING \<equiv> 0"
abbreviation (input) FULFILLED :: byte where "FULFILLED \<equiv> 1"
abbreviation (input) REJECTED :: byte where "REJECTED \<equiv> 2"
abbreviation (input) reactions_CAPACITY :: nat where "reactions_CAPACITY \<equiv> 4"
abbreviation (input) reaction_KIND :: nat where "reaction_KIND \<equiv> 0"
abbreviation (input) promise_initial_capacity :: nat where "promise_initial_capacity \<equiv> 4"

datatype promise_error = PromiseObject object_error | PromiseQueue queue_error | NotAPromise

text \<open>\<open>f64::from\<close> on a byte: the bits of the number with that value.\<close>

fun floor_log2 :: "nat \<Rightarrow> nat" where
  "floor_log2 n = (if n < 2 then 0 else 1 + floor_log2 (n div 2))"

declare floor_log2.simps [simp del]

definition f64_from_u8 :: "byte \<Rightarrow> f64" where
  "f64_from_u8 b =
     (let n = unat b; e = floor_log2 n in
      if n = 0 then 0 else of_nat ((1023 + e) * 2 ^ 52 + (n - 2 ^ e) * 2 ^ (52 - e)))"

subsection \<open>The list of reactions\<close>

definition promise_cell :: "heap \<Rightarrow> handle \<Rightarrow> promise_error + byte list" where
  "promise_cell h t = map_err (\<lambda>e. PromiseObject (ObjectHeap e)) (heap_cell h t)"

definition change_reactions ::
  "heap \<Rightarrow> handle \<Rightarrow> (byte list \<Rightarrow> promise_error + byte list) \<Rightarrow> promise_error + heap" where
  "change_reactions h t change = with_cell (\<lambda>e. PromiseObject (ObjectHeap e)) h t change"

definition reaction_count :: "heap \<Rightarrow> handle \<Rightarrow> promise_error + nat" where
  "reaction_count h t = and_then (promise_cell h t) (\<lambda>cell. Inr (read_u32_at cell reactions_COUNT))"

definition reaction_capacity :: "heap \<Rightarrow> handle \<Rightarrow> promise_error + nat" where
  "reaction_capacity h t = and_then (promise_cell h t) (\<lambda>cell. Inr (read_u32_at cell reactions_CAPACITY))"

definition set_reaction_count :: "heap \<Rightarrow> handle \<Rightarrow> nat \<Rightarrow> promise_error + heap" where
  "set_reaction_count h t n = change_reactions h t (\<lambda>cell. Inr (write_u32 cell reactions_COUNT n))"

definition reaction_at :: "nat \<Rightarrow> nat" where
  "reaction_at index = reactions_HEADER + index * reactions_RECORD"

definition read_reaction :: "heap \<Rightarrow> handle \<Rightarrow> nat \<Rightarrow> promise_error + jsvalue \<times> jsvalue \<times> jsvalue" where
  "read_reaction h t index =
     and_then (promise_cell h t) (\<lambda>cell.
     Inr (case subrange cell (reaction_at index) (reaction_at index + reactions_RECORD) of
            None \<Rightarrow> (v_undefined, v_undefined, v_undefined)
          | Some record \<Rightarrow>
              (decode_at record reaction_ON_FULFILLED, decode_at record reaction_ON_REJECTED,
               decode_at record reaction_DERIVED)))"

definition write_reaction ::
  "heap \<Rightarrow> handle \<Rightarrow> nat \<Rightarrow> jsvalue \<Rightarrow> jsvalue \<Rightarrow> jsvalue \<Rightarrow> promise_error + heap" where
  "write_reaction h t index on_fulfilled on_rejected derived =
     change_reactions h t (\<lambda>cell.
       case subrange cell (reaction_at index) (reaction_at index + reactions_RECORD) of
         None \<Rightarrow> Inr cell
       | Some record \<Rightarrow>
           and_then (set_byte (PromiseObject IndexPanic) record reaction_KIND 0) (\<lambda>record.
             let record = encode_at on_fulfilled record reaction_ON_FULFILLED;
                 record = encode_at on_rejected record reaction_ON_REJECTED;
                 record = encode_at derived record reaction_DERIVED
             in Inr (put_at cell (reaction_at index) record)))"

text \<open>The two header fields are written by index: the cell has at least eight bytes.\<close>

definition promise_allocate :: "heap \<Rightarrow> nat \<Rightarrow> promise_error + handle \<times> heap" where
  "promise_allocate h capacity =
     (let n = reactions_HEADER + capacity * reactions_RECORD in
      if u32_max < n then Inl (PromiseObject (ObjectHeap ArenaFull))
      else
        and_then (map_err (\<lambda>e. PromiseObject (ObjectHeap e)) (heap_allocate h ElementsCell n)) (\<lambda>(t, h).
        and_then (change_reactions h t (\<lambda>cell.
          if length cell < 8 then Inl (PromiseObject IndexPanic)
          else Inr (write_u32 (write_u32 cell reactions_COUNT 0) reactions_CAPACITY capacity))) (\<lambda>h.
        Inr (t, h))))"

fun copy_reactions :: "heap \<Rightarrow> handle \<Rightarrow> handle \<Rightarrow> nat \<Rightarrow> nat \<Rightarrow> promise_error + heap" where
  "copy_reactions h t larger index 0 = Inr h"
| "copy_reactions h t larger index (Suc left) =
     and_then (read_reaction h t index) (\<lambda>(on_fulfilled, on_rejected, derived).
     and_then (write_reaction h larger index on_fulfilled on_rejected derived) (\<lambda>h.
     copy_reactions h t larger (index + 1) left))"

definition promise_grow :: "heap \<Rightarrow> handle \<Rightarrow> handle \<Rightarrow> nat \<Rightarrow> promise_error + handle \<times> heap" where
  "promise_grow h p t capacity =
     and_then (reaction_count h t) (\<lambda>n.
     and_then (promise_allocate h (max (min (capacity * 2) u32_max) promise_initial_capacity)) (\<lambda>(larger, h).
     and_then (copy_reactions h t larger 0 n) (\<lambda>h.
     and_then (set_reaction_count h larger n) (\<lambda>h.
     and_then (map_err PromiseObject (set_promise_reactions h p larger)) (\<lambda>h.
     Inr (larger, h))))))"

definition list_with_room :: "heap \<Rightarrow> handle \<Rightarrow> promise_error + handle \<times> heap" where
  "list_with_room h p =
     and_then (map_err PromiseObject (promise_reactions h p)) (\<lambda>found.
     case found of
       Some t \<Rightarrow>
         and_then (reaction_count h t) (\<lambda>n.
         and_then (reaction_capacity h t) (\<lambda>capacity.
         if n = capacity then promise_grow h p t capacity else Inr (t, h)))
     | None \<Rightarrow>
         and_then (promise_allocate h promise_initial_capacity) (\<lambda>(t, h).
         and_then (map_err PromiseObject (set_promise_reactions h p t)) (\<lambda>h. Inr (t, h))))"

definition promise_append ::
  "heap \<Rightarrow> handle \<Rightarrow> jsvalue \<Rightarrow> jsvalue \<Rightarrow> jsvalue \<Rightarrow> promise_error + heap" where
  "promise_append h p on_fulfilled on_rejected derived =
     and_then (list_with_room h p) (\<lambda>(t, h).
     and_then (reaction_count h t) (\<lambda>n.
     and_then (write_reaction h t n on_fulfilled on_rejected derived) (\<lambda>h.
     set_reaction_count h t (wadd32 n 1))))"

subsection \<open>Creating, reacting and settling\<close>

definition promise_create :: "heap \<Rightarrow> jsvalue \<Rightarrow> promise_error + handle \<times> heap" where
  "promise_create h proto =
     and_then (map_err PromiseObject (object_create h proto)) (\<lambda>(p, h).
     and_then (map_err PromiseObject (make_promise h p)) (\<lambda>h. Inr (p, h)))"

definition promise_enqueue ::
  "queue \<Rightarrow> byte \<Rightarrow> jsvalue \<Rightarrow> jsvalue \<Rightarrow> jsvalue \<Rightarrow> promise_error + queue" where
  "promise_enqueue q state handler v derived =
     (if v_tag handler = Undefined then
        (if v_tag derived = Object
         then map_err PromiseQueue (queue_push q
           \<lparr>j_kind = Settle, j_target = derived, j_argument = v, j_derived = v_number (f64_from_u8 state)\<rparr>)
         else Inr q)
      else map_err PromiseQueue (queue_push q
        \<lparr>j_kind = Reaction, j_target = handler, j_argument = v, j_derived = derived\<rparr>))"

definition react ::
  "heap \<Rightarrow> queue \<Rightarrow> handle \<Rightarrow> jsvalue \<Rightarrow> jsvalue \<Rightarrow> jsvalue \<Rightarrow> promise_error + heap \<times> queue" where
  "react h q p on_fulfilled on_rejected derived =
     and_then (map_err PromiseObject (is_promise h p)) (\<lambda>promise.
     if \<not> promise then Inl NotAPromise
     else
       and_then (map_err PromiseObject (promise_state h p)) (\<lambda>state.
       if state = PENDING
       then and_then (promise_append h p on_fulfilled on_rejected derived) (\<lambda>h. Inr (h, q))
       else
         and_then (map_err PromiseObject (promise_value h p)) (\<lambda>v.
         and_then (promise_enqueue q state (if state = FULFILLED then on_fulfilled else on_rejected) v derived) (\<lambda>q.
         Inr (h, q)))))"

text \<open>The jobs of the reactions, \<open>left\<close> of them: the queue as it is when the loop ends or fails.\<close>

fun enqueue_reactions ::
  "heap \<Rightarrow> handle \<Rightarrow> byte \<Rightarrow> jsvalue \<Rightarrow> nat \<Rightarrow> nat \<Rightarrow> queue \<Rightarrow> queue \<times> promise_error option" where
  "enqueue_reactions h t state v index 0 q = (q, None)"
| "enqueue_reactions h t state v index (Suc left) q =
     (case read_reaction h t index of
        Inl e \<Rightarrow> (q, Some e)
      | Inr (on_fulfilled, on_rejected, derived) \<Rightarrow>
          (case promise_enqueue q state (if state = FULFILLED then on_fulfilled else on_rejected) v derived of
             Inl e \<Rightarrow> (q, Some e)
           | Inr q \<Rightarrow> enqueue_reactions h t state v (index + 1) left q))"

definition settle_reactions ::
  "heap \<Rightarrow> queue \<Rightarrow> handle \<Rightarrow> byte \<Rightarrow> jsvalue \<Rightarrow> (promise_error + bool) \<times> heap \<times> queue" where
  "settle_reactions h q t state v =
     (case reaction_count h t of
        Inl e \<Rightarrow> (Inl e, h, q)
      | Inr n \<Rightarrow>
          (case enqueue_reactions h t state v 0 n q of
             (q, Some e) \<Rightarrow> (Inl e, h, q)
           | (q, None) \<Rightarrow>
               (case set_reaction_count h t 0 of
                  Inl e \<Rightarrow> (Inl e, h, q)
                | Inr h \<Rightarrow> (Inr True, h, q))))"

definition settle ::
  "heap \<Rightarrow> queue \<Rightarrow> handle \<Rightarrow> byte \<Rightarrow> jsvalue \<Rightarrow> (promise_error + bool) \<times> heap \<times> queue" where
  "settle h q p state v =
     (case is_promise h p of
        Inl e \<Rightarrow> (Inl (PromiseObject e), h, q)
      | Inr False \<Rightarrow> (Inl NotAPromise, h, q)
      | Inr True \<Rightarrow>
          (case settle_promise h p state v of
             Inl e \<Rightarrow> (Inl (PromiseObject e), h, q)
           | Inr (False, h) \<Rightarrow> (Inr False, h, q)
           | Inr (True, h) \<Rightarrow>
               (case promise_reactions h p of
                  Inl e \<Rightarrow> (Inl (PromiseObject e), h, q)
                | Inr None \<Rightarrow> (Inr True, h, q)
                | Inr (Some t) \<Rightarrow> settle_reactions h q t state v)))"

end
