(* ===== verification/Record_Array.thy ===== *)
theory Record_Array
  imports Cell_Access
begin

text \<open>
  The contract of a cell that is a counted array of records: a header with a count and a capacity, then
  records of one size. Environments and reaction lists are such cells. Reading, replacing and adding a record
  are proved once, for any sizes, to be the operations on a list of records.
\<close>

definition nth_of :: "nat \<Rightarrow> nat \<Rightarrow> byte list \<Rightarrow> nat \<Rightarrow> byte list" where
  "nth_of header sz cell i = take sz (drop (header + i * sz) cell)"

definition array_ok :: "nat \<Rightarrow> nat \<Rightarrow> nat \<Rightarrow> nat \<Rightarrow> byte list \<Rightarrow> bool" where
  "array_ok header sz cnt cap cell \<longleftrightarrow>
     length cell = header + read_u32_at cell cap * sz \<and> read_u32_at cell cnt \<le> read_u32_at cell cap"

definition array_elems :: "nat \<Rightarrow> nat \<Rightarrow> nat \<Rightarrow> byte list \<Rightarrow> byte list list" where
  "array_elems header sz cnt cell = map (nth_of header sz cell) [0..<read_u32_at cell cnt]"

lemma length_array_elems [simp]: "length (array_elems header sz cnt cell) = read_u32_at cell cnt"
  by (simp add: array_elems_def)

lemma nth_array_elems: "i < read_u32_at cell cnt \<Longrightarrow> array_elems header sz cnt cell ! i = nth_of header sz cell i"
  by (simp add: array_elems_def)

locale record_array =
  fixes header :: nat and sz :: nat and cnt :: nat and cap :: nat
  assumes fields: "0 < sz" "cnt + 4 \<le> header" "cap + 4 \<le> header" "cnt + 4 \<le> cap \<or> cap + 4 \<le> cnt"
begin

abbreviation place :: "nat \<Rightarrow> nat" where "place i \<equiv> header + i * sz"
abbreviation ok :: "byte list \<Rightarrow> bool" where "ok \<equiv> array_ok header sz cnt cap"
abbreviation elems :: "byte list \<Rightarrow> byte list list" where "elems \<equiv> array_elems header sz cnt"

lemma place_mono: "i < j \<Longrightarrow> place i + sz \<le> place j"
proof -
  assume "i < j"
  then have "(i + 1) * sz \<le> j * sz" by (intro mult_le_mono1) simp
  then show ?thesis by simp
qed

lemma room: "ok cell \<Longrightarrow> i < read_u32_at cell cap \<Longrightarrow> place i + sz \<le> length cell"
  using place_mono [of i "read_u32_at cell cap"] by (simp add: array_ok_def)

lemma record_get:
  assumes "ok cell" "i < read_u32_at cell cap"
  shows "subrange cell (place i) (place i + sz) = Some (nth_of header sz cell i)" "length (nth_of header sz cell i) = sz"
  using room [OF assms] by (simp_all add: subrange_def nth_of_def)

lemma record_put:
  assumes "ok cell" "i < read_u32_at cell cap" "length r = sz"
  defines "cell' \<equiv> put_at cell (place i) r"
  shows "length cell' = length cell" "read_u32_at cell' cnt = read_u32_at cell cnt" "read_u32_at cell' cap = read_u32_at cell cap"
    "ok cell'" "take header cell' = take header cell"
    "j < read_u32_at cell cap \<Longrightarrow> nth_of header sz cell' j = (if j = i then r else nth_of header sz cell j)"
    "elems cell' = (elems cell)[i := r]"
proof -
  show len: "length cell' = length cell" by (simp add: cell'_def)
  show n: "read_u32_at cell' cnt = read_u32_at cell cnt" "read_u32_at cell' cap = read_u32_at cell cap"
    using fields(2,3) by (simp_all add: cell'_def read_u32_at_def field_put_other)
  then show ok': "ok cell'" using assms(1) len by (simp add: array_ok_def)
  show "take header cell' = take header cell" by (simp add: cell'_def put_at_def)
  show nth: "nth_of header sz cell' j = (if j = i then r else nth_of header sz cell j)" if j: "j < read_u32_at cell cap" for j
  proof (cases "j = i")
    case True
    have "subrange cell' (place i) (place i + sz) = Some r"
      using subrange_put_same [of "place i" r cell] room [OF assms(1,2)] assms(3) by (simp add: cell'_def)
    then show ?thesis using record_get(1) [OF ok', of i] assms(2) n True by simp
  next
    case False
    have "place j + sz \<le> place i \<or> place i + sz \<le> place j"
      using False place_mono [of i j] place_mono [of j i] by linarith
    then have "subrange cell' (place j) (place j + sz) = subrange cell (place j) (place j + sz)"
      using assms(3) by (simp add: cell'_def subrange_put_other)
    then show ?thesis using record_get(1) [OF ok', of j] record_get(1) [OF assms(1) j] n j False by simp
  qed
  show "elems cell' = (elems cell)[i := r]"
  proof (rule nth_equalityI)
    fix j
    assume "j < length (elems cell')"
    then have j: "j < read_u32_at cell cnt" "j < read_u32_at cell' cnt" "j < read_u32_at cell cap"
      using n assms(1) by (auto simp: array_ok_def)
    then show "elems cell' ! j = (elems cell)[i := r] ! j"
      using nth [of j] by (cases "j = i") (simp_all add: nth_array_elems)
  qed (simp add: n)
qed

text \<open>Writing the count changes how many of the records count, and no record.\<close>

lemma count_put:
  assumes "ok cell" "n \<le> read_u32_at cell cap"
  defines "cell' \<equiv> write_u32 cell cnt n"
  shows "length cell' = length cell" "read_u32_at cell' cnt = n" "read_u32_at cell' cap = read_u32_at cell cap" "ok cell'"
    "nth_of header sz cell' i = nth_of header sz cell i"
proof -
  show len: "length cell' = length cell" by (simp add: cell'_def)
  have big: "cnt + 4 \<le> length cell" using assms(1) fields(2) by (simp add: array_ok_def)
  moreover have "n \<le> u32_max" using assms(2) read_u32_at_le [of cell cap] by simp
  ultimately show n: "read_u32_at cell' cnt = n" by (simp add: cell'_def)
  show c: "read_u32_at cell' cap = read_u32_at cell cap"
    using field_put_other [of cap 4 cnt "le_bytes 4 n" cell] fields(4) by (auto simp: cell'_def write_u32_def read_u32_at_def)
  show "ok cell'" using assms(1,2) len n c by (simp add: array_ok_def)
  show "nth_of header sz cell' i = nth_of header sz cell i"
  proof (rule nth_equalityI)
    fix j
    assume "j < length (nth_of header sz cell' i)"
    then show "nth_of header sz cell' i ! j = nth_of header sz cell i ! j"
      using len big fields(2) by (auto simp: nth_of_def cell'_def write_u32_def put_at_nth)
  qed (simp add: nth_of_def len)
qed

text \<open>A record written behind the last one, with the count moved on, is an append.\<close>

lemma record_push:
  assumes "ok cell" "read_u32_at cell cnt < read_u32_at cell cap" "length r = sz"
  defines "cell' \<equiv> write_u32 (put_at cell (place (read_u32_at cell cnt)) r) cnt (read_u32_at cell cnt + 1)"
  shows "length cell' = length cell" "ok cell'" "elems cell' = elems cell @ [r]" "read_u32_at cell' cap = read_u32_at cell cap"
proof -
  let ?n = "read_u32_at cell cnt" and ?mid = "put_at cell (place (read_u32_at cell cnt)) r"
  note put = record_put [OF assms(1,2,3)]
  have le: "?n + 1 \<le> read_u32_at ?mid cap" using put(3) assms(2) by simp
  note set = count_put [OF put(4) le, folded cell'_def]
  show "length cell' = length cell" "ok cell'" "read_u32_at cell' cap = read_u32_at cell cap"
    using set(1,3,4) put(1,3) by simp_all
  have r: "nth_of header sz cell' j = (if j = ?n then r else nth_of header sz cell j)" if "j < ?n + 1" for j
    using that assms(2) set(5) [of j] put(6) [of j] by simp
  show "elems cell' = elems cell @ [r]"
  proof (rule nth_equalityI)
    fix j
    assume "j < length (elems cell')"
    then have "j < ?n + 1" "j < read_u32_at cell' cnt" using set(2) by simp_all
    then show "elems cell' ! j = (elems cell @ [r]) ! j"
      using r [of j] by (cases "j < ?n") (simp_all add: nth_array_elems nth_append)
  qed (simp add: set(2))
qed

lemma elems_ok: "ok cell \<Longrightarrow> r \<in> set (elems cell) \<Longrightarrow> length r = sz"
  using record_get(2) by (auto simp: array_elems_def array_ok_def)

lemma fresh_array:
  assumes "capacity \<le> u32_max" "length cell = place capacity" "read_u32_at cell cnt = 0" "read_u32_at cell cap = capacity"
  shows "ok cell" "elems cell = []"
  using assms by (simp_all add: array_ok_def array_elems_def)

end

end
