(* ===== verification/Object_Table.thy ===== *)
theory Object_Table
  imports Object_Cells "HOL-Library.AList"
begin

text \<open>
  A property table cell as a list of keys and descriptors. The writes of \<open>write_record\<close>, the copy of
  \<open>grow\<close> and the moves of \<open>delete\<close> are updates, copies and removals of that list, and the reads and
  the scan return its members.
\<close>

subsection \<open>Records\<close>

definition nth_record :: "byte list \<Rightarrow> nat \<Rightarrow> byte list" where
  "nth_record cell i = take 32 (drop (record_at i) cell)"

definition record_key :: "byte list \<Rightarrow> key" where
  "record_key r =
     (if r ! 0 = 0 then KeyIndex (ucast (read_u64 r 8 AND 0xFFFFFFFF))
      else if r ! 0 = 1 then KeyName (handle_unpack (read_u64 r 8))
      else KeySymbol (handle_unpack (read_u64 r 8)))"

definition record_descriptor :: "byte list \<Rightarrow> descriptor" where
  "record_descriptor r =
     (if r ! 1 = 0 then descriptor_data (decode_at r 16) (r ! 2)
      else descriptor_accessor (decode_at r 16) (decode_short_at r 25) (r ! 2))"

definition row :: "byte list \<Rightarrow> key \<times> descriptor" where
  "row r = (record_key r, record_descriptor r)"

text \<open>The descriptors a record can hold: the values the constructors make, and a setter whose generation
  fits the short form.\<close>

definition descriptor_wf :: "descriptor \<Rightarrow> bool" where
  "descriptor_wf d \<longleftrightarrow>
     (case d_kind d of
        DataProperty \<Rightarrow> value_wf (d_value d) \<and> d_getter d = v_undefined \<and> d_setter d = v_undefined
      | AccessorProperty \<Rightarrow> d_value d = v_undefined \<and> value_wf (d_getter d) \<and>
          (d_setter d = v_undefined \<or> (\<exists>k. d_setter d = v_object k \<and> unat (h_generation k) < 65536)))"

lemma decode_short_undefined:
  assumes "i + encoded_short \<le> length out"
  shows "decode_short_at (encode_short_at v_undefined out i) i = v_undefined"
proof -
  let ?f = "0 # le_bytes 4 (unat (h_index (as_handle v_undefined))) @
      le_bytes 2 (unat (ucast (h_generation (as_handle v_undefined)) :: 16 word)) :: byte list"
  have "encode_short_at v_undefined out i = put_at out i ?f"
    by (simp add: encode_short_at_def v_undefined_def Let_def)
  moreover have "get_at (put_at out i ?f) i = Some 0"
    using assms by (subst get_at_put_at_within) (auto simp: get_at_def encoded_short_def)
  ultimately have "get_at (encode_short_at v_undefined out i) i = Some 0" by simp
  then show ?thesis by (simp add: decode_short_at_def split: option.split)
qed

lemma decode_short_object:
  assumes "unat (h_generation k) < 65536" "i + encoded_short \<le> length out"
  shows "decode_short_at (encode_short_at (v_object k) out i) i = v_object k"
proof -
  have g: "ucast (ucast (h_generation k) :: 16 word) = h_generation k"
  proof -
    define low where "low = (ucast (h_generation k) :: 16 word)"
    have "unat low = unat (h_generation k)"
      using assms(1) unfolding low_def unsigned_ucast_eq by (simp add: take_bit_eq_mod)
    then have "unat (ucast low :: 32 word) = unat (h_generation k)"
      using assms(1) unfolding unsigned_ucast_eq by (simp add: take_bit_eq_mod)
    then show ?thesis unfolding low_def by (simp add: word_unat_eq_iff)
  qed
  have "v_tag (v_object k) = Object" by (simp add: v_object_def)
  from decode_encode_short_at [OF this assms(2)] show ?thesis
    by (simp only: as_handle_ref g) (cases k, simp add: handle_new_def)
qed

lemma decode_at_local:
  "get_at a i = get_at b i \<Longrightarrow> field 8 a (i + 1) = field 8 b (i + 1) \<Longrightarrow> decode_at a i = decode_at b i"
  by (simp add: decode_at_def)

lemma decode_at_short_other:
  "j + 9 \<le> i \<Longrightarrow> decode_at (encode_short_at v out i) j = decode_at out j"
  by (rule decode_at_local) (simp_all add: encode_short_at_def Let_def get_at_put_other field_put_other)

lemma get_at_encode_other:
  "j < i \<Longrightarrow> get_at (encode_at v out i) j = get_at out j" "j < i \<Longrightarrow> get_at (encode_short_at v out i) j = get_at out j"
  "j < i \<Longrightarrow> get_at (write_u64 out i w) j = get_at out j"
  by (simp_all add: encode_at_def encode_short_at_def write_u64_def Let_def get_at_put_other)

lemma read_u64_encode_other:
  "j + 8 \<le> i \<Longrightarrow> read_u64 (encode_at v out i) j = read_u64 out j"
  "j + 8 \<le> i \<Longrightarrow> read_u64 (encode_short_at v out i) j = read_u64 out j"
  by (simp_all add: read_u64_def encode_at_def encode_short_at_def Let_def field_put_other)

lemma key_read_back:
  assumes "read_u64 r 8 = key_payload key" "r ! 0 = key_kind key"
  shows "record_key r = key"
proof (cases key)
  case (KeyIndex n)
  have "ucast (ucast n AND 0xFFFFFFFF :: 64 word) = n"
    unfolding mask_32_eq by (rule bit_word_eqI) (auto simp: bit_simps)
  then show ?thesis using assms KeyIndex by (simp add: record_key_def)
qed (use assms in \<open>simp_all add: record_key_def\<close>)

lemma fill_record_row:
  assumes "length r = 32" "descriptor_wf d"
  shows "\<exists>r'. fill_record r key d = Inr r' \<and> length r' = 32 \<and> row r' = (key, d)"
proof -
  define r1 where "r1 = put_at (put_at (put_at (put_at r 0 [key_kind key]) 1
      [if d_kind d = AccessorProperty then 1 else 0]) 2 [d_attributes d]) 3 [0 :: byte]"
  define r2 where "r2 = write_u64 r1 8 (key_payload key)"
  define v where "v = (if d_kind d = DataProperty then d_value d else d_getter d)"
  define second where "second = (if d_kind d = DataProperty then v_undefined else d_setter d)"
  define r' where "r' = encode_short_at second (encode_at v r2 16) 25"
  have len: "length r1 = 32" "length r2 = 32" "length r' = 32" using assms(1) by (simp_all add: r1_def r2_def r'_def)
  have f: "fill_record r key d = Inr r'"
    using assms(1) unfolding fill_record_def r'_def r2_def r1_def v_def second_def
    by (cases "d_kind d") (simp_all add: set_byte_def Let_def)
  have head: "get_at r1 0 = Some (key_kind key)" "get_at r1 1 = Some (if d_kind d = AccessorProperty then 1 else 0)"
    "get_at r1 2 = Some (d_attributes d)"
    using assms(1) unfolding r1_def by (simp_all add: get_at_def put_at_nth)
  have keep: "get_at r' j = get_at r1 j" if "j < 8" for j
    using that by (simp add: r'_def r2_def get_at_encode_other)
  have head': "r' ! 0 = key_kind key" "r' ! 1 = (if d_kind d = AccessorProperty then 1 else 0)" "r' ! 2 = d_attributes d"
    using head keep [of 0] keep [of 1] keep [of 2] len by (simp_all add: get_at_def)
  have "read_u64 r' 8 = key_payload key"
    unfolding r'_def by (simp add: read_u64_encode_other) (simp add: r2_def len)
  then have "record_key r' = key" using head'(1) by (rule key_read_back)
  moreover have "record_descriptor r' = d"
  proof -
    have first_read: "decode_at r' 16 = v"
      using assms(2) len unfolding r'_def v_def
      by (cases "d_kind d") (simp_all add: decode_at_short_other decode_encode_at encoded_def descriptor_wf_def)
    have second_read: "decode_short_at r' 25 = second"
    proof (cases "second = v_undefined")
      case True
      then show ?thesis using len unfolding r'_def by (simp add: decode_short_undefined encoded_short_def)
    next
      case False
      then obtain k where "second = v_object k" "unat (h_generation k) < 65536"
        using assms(2) unfolding second_def descriptor_wf_def by (cases "d_kind d") auto
      then show ?thesis using len unfolding r'_def by (simp add: decode_short_object encoded_short_def)
    qed
    show ?thesis
      using assms(2) unfolding record_descriptor_def head' first_read second_read v_def second_def descriptor_wf_def
      by (cases d; cases "d_kind d") (simp_all add: descriptor_data_def descriptor_accessor_def)
  qed
  ultimately show ?thesis using f len by (auto simp: row_def)
qed


subsection \<open>Tables\<close>

abbreviation table_n :: "byte list \<Rightarrow> nat" where "table_n cell \<equiv> read_u32_at cell 0"
abbreviation table_cap :: "byte list \<Rightarrow> nat" where "table_cap cell \<equiv> read_u32_at cell 4"

definition table_shape :: "byte list \<Rightarrow> bool" where
  "table_shape cell \<longleftrightarrow> length cell = record_at (table_cap cell) \<and> table_n cell \<le> table_cap cell"

definition rows :: "byte list \<Rightarrow> (key \<times> descriptor) list" where
  "rows cell = map (\<lambda>i. row (nth_record cell i)) [0..<table_n cell]"

definition table_ok :: "byte list \<Rightarrow> bool" where
  "table_ok cell \<longleftrightarrow> table_shape cell \<and> distinct (map fst (rows cell))"

lemma record_at_mono: "i < j \<Longrightarrow> record_at i + 32 \<le> record_at j"
  by (simp add: record_at_def)

lemma table_record_Some:
  assumes "table_shape cell" "i < table_cap cell"
  shows "table_record cell i = Some (nth_record cell i)" "length (nth_record cell i) = 32"
  using record_at_mono [OF assms(2)] assms(1)
  by (simp_all add: table_record_def nth_record_def subrange_def table_shape_def)

lemma read_key_row: "table_shape cell \<Longrightarrow> i < table_cap cell \<Longrightarrow> read_key cell i = Inr (fst (row (nth_record cell i)))"
  using table_record_Some [of cell i]
  by (auto simp: read_key_def byte_at_def get_at_def row_def record_key_def Let_def)

lemma read_record_row: "table_shape cell \<Longrightarrow> i < table_cap cell \<Longrightarrow> read_record cell i = Inr (snd (row (nth_record cell i)))"
  using table_record_Some [of cell i]
  by (simp add: read_record_def byte_at_def get_at_def row_def record_descriptor_def Let_def
      descriptor_data_def descriptor_accessor_def)

lemma length_rows [simp]: "length (rows cell) = table_n cell"
  by (simp add: rows_def)

lemma nth_rows: "i < table_n cell \<Longrightarrow> rows cell ! i = row (nth_record cell i)"
  by (simp add: rows_def)

lemma put_record:
  assumes "table_shape cell" "i < table_cap cell" "length r = 32"
  defines "cell' \<equiv> put_at cell (record_at i) r"
  shows "length cell' = length cell" "table_n cell' = table_n cell" "table_cap cell' = table_cap cell"
    "table_shape cell'" "j < table_cap cell \<Longrightarrow> nth_record cell' j = (if j = i then r else nth_record cell j)"
proof -
  show len: "length cell' = length cell" by (simp add: cell'_def)
  have low: "8 \<le> record_at i" by (simp add: record_at_def)
  show n: "table_n cell' = table_n cell" "table_cap cell' = table_cap cell"
    using low by (simp_all add: cell'_def read_u32_at_def field_put_other)
  then show "table_shape cell'" using assms(1) len by (simp add: table_shape_def)
  then have t: "table_record cell' j = Some (nth_record cell' j)" if "j < table_cap cell" for j
    using table_record_Some [of cell' j] that n by simp
  have room: "record_at i + 32 \<le> length cell" using record_at_mono [OF assms(2)] assms(1) by (simp add: table_shape_def)
  assume j: "j < table_cap cell"
  show "nth_record cell' j = (if j = i then r else nth_record cell j)"
  proof (cases "j = i")
    case True
    have "table_record cell' i = Some r"
      using subrange_put_same [of "record_at i" r cell] room assms(3) by (simp add: table_record_def cell'_def)
    then show ?thesis using t [OF j] True by simp
  next
    case False
    have "record_at j + 32 \<le> record_at i \<or> record_at i + 32 \<le> record_at j"
      using False record_at_mono [of i j] record_at_mono [of j i] by linarith
    then have "table_record cell' j = table_record cell j"
      using assms(3) by (simp add: table_record_def cell'_def subrange_put_other)
    then show ?thesis using t [OF j] table_record_Some [OF assms(1) j] False by simp
  qed
qed

lemma write_record_row:
  assumes "table_shape cell" "i < table_cap cell" "descriptor_wf d"
  shows "\<exists>r. write_record cell i key d = Inr (put_at cell (record_at i) r) \<and> length r = 32 \<and> row r = (key, d)"
  using fill_record_row [OF table_record_Some(2) [OF assms(1,2)] assms(3), of key] table_record_Some(1) [OF assms(1,2)]
  by (auto simp: write_record_def)

text \<open>Writing the count changes how many of the records are rows, and no record.\<close>

lemma set_count:
  assumes "table_shape cell" "n \<le> table_cap cell"
  defines "cell' \<equiv> write_u32 cell 0 n"
  shows "length cell' = length cell" "table_n cell' = n" "table_cap cell' = table_cap cell" "table_shape cell'"
    "nth_record cell' i = nth_record cell i"
proof -
  show len: "length cell' = length cell" by (simp add: cell'_def)
  have "8 \<le> length cell" using assms(1) by (simp add: table_shape_def record_at_def)
  moreover have "n \<le> u32_max" using assms(2) read_u32_at_le [of cell 4] by simp
  ultimately show n: "table_n cell' = n" by (simp add: cell'_def)
  show cap: "table_cap cell' = table_cap cell" by (simp add: cell'_def write_u32_def read_u32_at_def field_put_other)
  show "table_shape cell'" using assms len n cap by (simp add: table_shape_def)
  show "nth_record cell' i = nth_record cell i"
  proof (rule nth_equalityI)
    fix j
    assume "j < length (nth_record cell' i)"
    then show "nth_record cell' i ! j = nth_record cell i ! j"
      using len \<open>8 \<le> length cell\<close> by (auto simp: nth_record_def cell'_def write_u32_def put_at_nth record_at_def)
  qed (simp add: nth_record_def len)
qed

lemma rows_eqI:
  assumes "table_n cell = length xs" "\<And>i. i < length xs \<Longrightarrow> row (nth_record cell i) = xs ! i"
  shows "rows cell = xs"
  by (rule nth_equalityI) (use assms in \<open>simp_all add: nth_rows\<close>)


subsection \<open>The operations on a table\<close>

lemma same_key_eq [simp]: "same_key a b \<longleftrightarrow> a = b"
  by (cases a; cases b) simp_all

text \<open>The scan returns the first row of the key, and with distinct keys the only one.\<close>

lemma scan_records_cases:
  assumes "table_shape cell" "i + left \<le> table_cap cell"
  shows "(\<exists>j. scan_records cell key i left = Inr (Some j) \<and> i \<le> j \<and> j < i + left \<and> fst (row (nth_record cell j)) = key) \<or>
    (scan_records cell key i left = Inr None \<and> (\<forall>j. i \<le> j \<and> j < i + left \<longrightarrow> fst (row (nth_record cell j)) \<noteq> key))"
  using assms(2)
proof (induction left arbitrary: i)
  case (Suc left)
  have k: "read_key cell i = Inr (fst (row (nth_record cell i)))"
    using Suc.prems by (intro read_key_row assms(1)) simp
  show ?case
  proof (cases "fst (row (nth_record cell i)) = key")
    case True
    then show ?thesis using k by auto
  next
    case False
    then have "scan_records cell key i (Suc left) = scan_records cell key (i + 1) left" using k by simp
    then show ?thesis using Suc.IH [of "i + 1"] Suc.prems False
      by (auto simp: Suc_le_eq) (metis le_neq_implies_less)+
  qed
qed auto

lemma guess_record_cases:
  assumes "table_shape cell"
  shows "guess_record cell (table_n cell) key = Inr None \<or>
    (\<exists>j < table_n cell. guess_record cell (table_n cell) key = Inr (Some j) \<and> fst (row (nth_record cell j)) = key)"
proof (cases key)
  case (KeyIndex e)
  let ?g = "sadd32 (unat e) 1"
  show ?thesis
  proof (cases "?g < table_n cell")
    case True
    then have "read_key cell ?g = Inr (fst (row (nth_record cell ?g)))"
      using assms by (intro read_key_row) (simp_all add: table_shape_def)
    then show ?thesis using True KeyIndex by (auto simp: guess_record_def Let_def)
  qed (simp add: guess_record_def KeyIndex)
qed (simp_all add: guess_record_def)

definition table_index :: "byte list \<Rightarrow> key \<Rightarrow> nat option" where
  "table_index cell key = (if \<exists>i < table_n cell. fst (rows cell ! i) = key
     then Some (THE i. i < table_n cell \<and> fst (rows cell ! i) = key) else None)"

lemma rows_key_unique:
  assumes "table_ok cell" "i < table_n cell" "j < table_n cell" "fst (rows cell ! i) = fst (rows cell ! j)"
  shows "i = j"
proof -
  have "distinct (map fst (rows cell))" using assms(1) by (simp add: table_ok_def)
  then show ?thesis using assms(2-4) nth_eq_iff_index_eq [of "map fst (rows cell)" i j] by simp
qed

lemma table_index_Some: 
  assumes "table_ok cell" "i < table_n cell" "fst (rows cell ! i) = key"
  shows "table_index cell key = Some i"
proof -
  have "(THE i. i < table_n cell \<and> fst (rows cell ! i) = key) = i"
    using assms rows_key_unique [OF assms(1)] by (intro the_equality) auto
  then show ?thesis using assms(2,3) by (auto simp: table_index_def)
qed

lemma table_index_None: "table_index cell key = None \<longleftrightarrow> (\<forall>i < table_n cell. fst (rows cell ! i) \<noteq> key)"
  by (auto simp: table_index_def)

lemma table_index_bound: 
  assumes "table_ok cell" "table_index cell key = Some i"
  shows "i < table_n cell" "fst (rows cell ! i) = key"
proof -
  obtain j where "j < table_n cell" "fst (rows cell ! j) = key"
    using assms(2) by (auto simp: table_index_def split: if_splits)
  then show "i < table_n cell" "fst (rows cell ! i) = key"
    using table_index_Some [OF assms(1)] assms(2) by auto
qed

lemma table_index_map_of:
  assumes "table_ok cell"
  shows "map_of (rows cell) key = map_option (\<lambda>i. snd (rows cell ! i)) (table_index cell key)"
proof (cases "table_index cell key")
  case None
  then have "key \<notin> fst ` set (rows cell)" by (fastforce simp: table_index_None in_set_conv_nth)
  then show ?thesis using None by (simp add: map_of_eq_None_iff)
next
  case (Some i)
  note i = table_index_bound [OF assms Some]
  have "(key, snd (rows cell ! i)) \<in> set (rows cell)"
    using i by (auto simp: in_set_conv_nth intro!: exI [of _ i] prod_eqI)
  then show ?thesis using assms Some by (simp add: table_ok_def map_of_eq_Some_iff)
qed

text \<open>The guess and the scan together find the index.\<close>

lemma lookup_record:
  assumes "table_ok cell"
  shows "and_then (guess_record cell (table_n cell) key) (\<lambda>guess. case guess of
      Some index \<Rightarrow> Inr (Some (table, index))
    | None \<Rightarrow> and_then (scan_records cell key 0 (table_n cell)) (\<lambda>r. Inr (map_option (Pair table) r))) =
    Inr (map_option (Pair table) (table_index cell key))"
proof -
  have shape: "table_shape cell" "table_n cell \<le> table_cap cell"
    using assms by (simp_all add: table_ok_def table_shape_def)
  have hit: "table_index cell key = Some j" if "j < table_n cell" "fst (row (nth_record cell j)) = key" for j
    using that table_index_Some [OF assms] by (simp add: nth_rows)
  have miss: "table_index cell key = None" if "\<forall>j < table_n cell. fst (row (nth_record cell j)) \<noteq> key"
    using that by (simp add: table_index_None nth_rows)
  have scan: "scan_records cell key 0 (table_n cell) = Inr (table_index cell key)"
    using scan_records_cases [of cell 0 "table_n cell" key] shape hit miss by auto
  show ?thesis using guess_record_cases [OF shape(1), of key] hit scan by auto
qed


lemma update_nth:
  "i < length xs \<Longrightarrow> fst (xs ! i) = key \<Longrightarrow> distinct (map fst xs) \<Longrightarrow> AList.update key d xs = xs[i := (key, d)]"
proof (induction xs arbitrary: i)
  case (Cons x xs)
  obtain k e where x: "x = (k, e)" by (cases x)
  show ?case
  proof (cases i)
    case 0
    then show ?thesis using Cons.prems x by simp
  next
    case (Suc j)
    then have j: "j < length xs" "fst (xs ! j) = key" "distinct (map fst xs)" using Cons.prems by auto
    then have "key \<in> fst ` set xs" by (auto simp: in_set_conv_nth intro!: image_eqI [of _ _ "xs ! j"])
    then have "k \<noteq> key" using Cons.prems(3) x by auto
    then show ?thesis using Cons.IH [OF j] Suc x by simp
  qed
qed simp

lemma update_append: "key \<notin> fst ` set xs \<Longrightarrow> AList.update key d xs = xs @ [(key, d)]"
  by (induction xs) auto

lemma delete_nth:
  "i < length xs \<Longrightarrow> fst (xs ! i) = key \<Longrightarrow> distinct (map fst xs) \<Longrightarrow> AList.delete key xs = take i xs @ drop (Suc i) xs"
proof (induction xs arbitrary: i)
  case (Cons x xs)
  obtain k e where x: "x = (k, e)" by (cases x)
  show ?case
  proof (cases i)
    case 0
    then have "key \<notin> fst ` set xs" using Cons.prems x by auto
    then show ?thesis using 0 Cons.prems x by (simp add: delete_id)
  next
    case (Suc j)
    then have j: "j < length xs" "fst (xs ! j) = key" "distinct (map fst xs)" using Cons.prems by auto
    then have "key \<in> fst ` set xs" by (auto simp: in_set_conv_nth intro!: image_eqI [of _ _ "xs ! j"])
    then have "k \<noteq> key" using Cons.prems(3) x by auto
    then show ?thesis using Cons.IH [OF j] Suc x by simp
  qed
qed simp

text \<open>Rewriting the row at an index.\<close>

lemma rewrite_row:
  assumes "table_ok cell" "i < table_n cell" "length r = 32" "row r = (key, d)" "fst (rows cell ! i) = key"
  defines "cell' \<equiv> put_at cell (record_at i) r"
  shows "table_ok cell'" "rows cell' = AList.update key d (rows cell)" "length cell' = length cell"
proof -
  have shape: "table_shape cell" "i < table_cap cell" using assms(1,2) by (auto simp: table_ok_def table_shape_def)
  note p = put_record [OF shape assms(3), folded cell'_def]
  show "length cell' = length cell" by (rule p)
  have "rows cell' = (rows cell)[i := (key, d)]"
    by (rule rows_eqI) (use p assms(2,4) shape in \<open>auto simp: nth_rows nth_list_update table_shape_def\<close>)
  also have "\<dots> = AList.update key d (rows cell)"
    using assms(1,2,5) by (intro update_nth [symmetric]) (simp_all add: table_ok_def)
  finally show r: "rows cell' = AList.update key d (rows cell)" .
  show "table_ok cell'" using p assms(1) unfolding table_ok_def r by (simp add: distinct_update)
qed

text \<open>Adding a row after the last.\<close>

lemma add_row:
  assumes "table_ok cell" "table_n cell < table_cap cell" "length r = 32" "row r = (key, d)" "key \<notin> fst ` set (rows cell)"
  defines "cell' \<equiv> write_u32 (put_at cell (record_at (table_n cell)) r) 0 (wadd32 (table_n cell) 1)"
  shows "table_ok cell'" "rows cell' = AList.update key d (rows cell)" "length cell' = length cell"
proof -
  have shape: "table_shape cell" using assms(1) by (simp add: table_ok_def)
  note p = put_record [OF shape assms(2,3)]
  have n: "wadd32 (table_n cell) 1 = Suc (table_n cell)" using assms(2) read_u32_at_le [of cell 4] by simp
  note c = set_count [OF p(4), of "Suc (table_n cell)"]
  have cell': "cell' = write_u32 (put_at cell (record_at (table_n cell)) r) 0 (Suc (table_n cell))"
    by (simp only: cell'_def n)
  show "length cell' = length cell" by (simp add: cell'_def)
  have "rows cell' = rows cell @ [(key, d)]"
    by (rule rows_eqI) (use p c assms(2,4) in \<open>auto simp: cell' nth_append nth_rows less_Suc_eq\<close>)
  also have "\<dots> = AList.update key d (rows cell)" using assms(5) by (simp add: update_append)
  finally show r: "rows cell' = AList.update key d (rows cell)" .
  show "table_ok cell'"
    using c(4) assms(1,2) p unfolding table_ok_def r by (simp add: distinct_update cell')
qed

lemma move_records_spec:
  assumes "table_shape cell" "i + left < table_cap cell"
  shows "table_shape (move_records cell i left) \<and> table_n (move_records cell i left) = table_n cell \<and>
    table_cap (move_records cell i left) = table_cap cell \<and> length (move_records cell i left) = length cell \<and>
    (\<forall>j < table_cap cell. nth_record (move_records cell i left) j =
       nth_record cell (if i \<le> j \<and> j < i + left then Suc j else j))"
  using assms
proof (induction left arbitrary: i cell)
  case (Suc left)
  let ?r = "nth_record cell (Suc i)"
  let ?cell = "put_at cell (record_at i) ?r"
  have t: "table_record cell (Suc i) = Some ?r" "length ?r = 32"
    using table_record_Some [OF Suc.prems(1), of "Suc i"] Suc.prems(2) by simp_all
  have "i < table_cap cell" using Suc.prems(2) by simp
  note p = put_record [OF Suc.prems(1) this t(2)]
  have "move_records cell i (Suc left) = move_records ?cell (Suc i) left" using t by simp
  moreover have "Suc i + left < table_cap ?cell" using Suc.prems(2) p(3) by simp
  note Suc.IH [OF p(4) this]
  ultimately show ?case using p Suc.prems(2) by (auto simp: Suc_le_eq)
qed auto

lemma remove_row:
  assumes "table_ok cell" "i < table_n cell" "fst (rows cell ! i) = key"
  defines "cell' \<equiv> write_u32 (move_records cell i (table_n cell - 1 - i)) 0 (table_n cell - 1)"
  shows "table_ok cell'" "rows cell' = AList.delete key (rows cell)" "length cell' = length cell"
proof -
  have shape: "table_shape cell" "table_n cell \<le> table_cap cell" using assms(1) by (auto simp: table_ok_def table_shape_def)
  have "i + (table_n cell - 1 - i) < table_cap cell" using assms(2) shape(2) by simp
  note m = move_records_spec [OF shape(1) this]
  note c = set_count [of "move_records cell i (table_n cell - 1 - i)" "table_n cell - 1", folded cell'_def]
  have cond: "table_shape (move_records cell i (table_n cell - 1 - i))"
    "table_n cell - 1 \<le> table_cap (move_records cell i (table_n cell - 1 - i))" using m shape(2) by auto
  note c = c [OF cond]
  show "length cell' = length cell" using c(1) m by simp
  have "rows cell' = take i (rows cell) @ drop (Suc i) (rows cell)"
    by (rule rows_eqI) (use c m assms(2) shape(2) in \<open>auto simp: nth_append nth_rows\<close>)
  also have "\<dots> = AList.delete key (rows cell)"
    using assms by (intro delete_nth [symmetric]) (simp_all add: table_ok_def)
  finally show r: "rows cell' = AList.delete key (rows cell)" .
  show "table_ok cell'" using c(4) assms(1) unfolding table_ok_def r by (simp add: distinct_delete)
qed

end
