(* ===== verification/Object_Store.thy ===== *)
theory Object_Store
  imports Object_Table
begin

text \<open>
  Objects over the heap. \<open>objects_ok\<close> is the invariant: every object cell has its size, its table is a
  well-formed table cell that no other object has, and its prototype is an object. \<open>props h\<close> is the
  abstract state, an association list of properties for every object in insertion order; adding,
  rewriting and removing a property change it at one object, whether or not the table had to grow.
\<close>

subsection \<open>The invariant and the abstract state\<close>

definition objects_ok :: "heap \<Rightarrow> bool" where
  "objects_ok h \<longleftrightarrow> heap_ok h \<and>
     (\<forall>k c. store h k = Some (ObjectCell, c) \<longrightarrow> object_SIZE \<le> length c \<and>
        (\<forall>t. handle_read_at c object_TABLE = Some t \<longrightarrow> (\<exists>tc. store h t = Some (PropertyTableCell, tc) \<and> table_ok tc)) \<and>
        (v_tag (decode_at c object_PROTOTYPE) = Object \<longrightarrow>
          (\<exists>pc. store h (as_handle (decode_at c object_PROTOTYPE)) = Some (ObjectCell, pc)))) \<and>
     (\<forall>k l c d t. store h k = Some (ObjectCell, c) \<and> store h l = Some (ObjectCell, d) \<and>
        handle_read_at c object_TABLE = Some t \<and> handle_read_at d object_TABLE = Some t \<longrightarrow> k = l)"

definition props :: "heap \<Rightarrow> handle \<Rightarrow> (key \<times> descriptor) list" where
  "props h k =
     (case store h k of
        Some (ObjectCell, c) \<Rightarrow>
          (case handle_read_at c object_TABLE of
             None \<Rightarrow> []
           | Some t \<Rightarrow> (case store h t of Some (_, tc) \<Rightarrow> rows tc | None \<Rightarrow> []))
      | _ \<Rightarrow> [])"

lemma objects_okD:
  assumes "objects_ok h" "store h k = Some (ObjectCell, c)"
  shows "heap_ok h" "object_SIZE \<le> length c"
    "handle_read_at c object_TABLE = Some t \<Longrightarrow> \<exists>tc. store h t = Some (PropertyTableCell, tc) \<and> table_ok tc"
    "v_tag (decode_at c object_PROTOTYPE) = Object \<Longrightarrow>
       \<exists>pc. store h (as_handle (decode_at c object_PROTOTYPE)) = Some (ObjectCell, pc)"
    "handle_read_at c object_TABLE = Some t \<Longrightarrow> store h l = Some (ObjectCell, d) \<Longrightarrow>
       handle_read_at d object_TABLE = Some t \<Longrightarrow> k = l"
  using assms unfolding objects_ok_def by blast+

lemma objects_okI:
  assumes "heap_ok h" "\<And>k c. store h k = Some (ObjectCell, c) \<Longrightarrow> object_SIZE \<le> length c"
    "\<And>k c t. store h k = Some (ObjectCell, c) \<Longrightarrow> handle_read_at c object_TABLE = Some t \<Longrightarrow>
       \<exists>tc. store h t = Some (PropertyTableCell, tc) \<and> table_ok tc"
    "\<And>k c. store h k = Some (ObjectCell, c) \<Longrightarrow> v_tag (decode_at c object_PROTOTYPE) = Object \<Longrightarrow>
       \<exists>pc. store h (as_handle (decode_at c object_PROTOTYPE)) = Some (ObjectCell, pc)"
    "\<And>k l c d t. store h k = Some (ObjectCell, c) \<Longrightarrow> store h l = Some (ObjectCell, d) \<Longrightarrow>
       handle_read_at c object_TABLE = Some t \<Longrightarrow> handle_read_at d object_TABLE = Some t \<Longrightarrow> k = l"
  shows "objects_ok h"
  unfolding objects_ok_def using assms by blast

lemma object_cell_store:
  assumes "objects_ok h" "store h k = Some (ObjectCell, c)"
  shows "object_cell h k = Inr c"
  using objects_okD(2) [OF assms] store_reads [OF assms(2)] by (simp add: object_cell_def)

lemma props_other: "(\<nexists>c. store h k = Some (ObjectCell, c)) \<Longrightarrow> props h k = []"
proof (cases "store h k")
  case (Some x)
  then show "(\<nexists>c. store h k = Some (ObjectCell, c)) \<Longrightarrow> props h k = []"
    by (cases x; cases "fst x") (auto simp: props_def)
qed (simp add: props_def)

lemma props_none: "store h k = Some (ObjectCell, c) \<Longrightarrow> handle_read_at c object_TABLE = None \<Longrightarrow> props h k = []"
  by (simp add: props_def)

lemma props_table:
  "store h k = Some (ObjectCell, c) \<Longrightarrow> handle_read_at c object_TABLE = Some t \<Longrightarrow>
   store h t = Some (PropertyTableCell, tc) \<Longrightarrow> props h k = rows tc"
  by (simp add: props_def)

lemma object_table_cases:
  assumes "objects_ok h" "store h k = Some (ObjectCell, c)"
  obtains (bare) "handle_read_at c object_TABLE = None" "props h k = []"
  | (table) t tc where "handle_read_at c object_TABLE = Some t" "store h t = Some (PropertyTableCell, tc)"
      "table_ok tc" "props h k = rows tc"
proof (cases "handle_read_at c object_TABLE")
  case None
  then show ?thesis using bare props_none [OF assms(2)] by simp
next
  case (Some t)
  then show ?thesis using table objects_okD(3) [OF assms Some] props_table [OF assms(2) Some] by blast
qed

lemma find_property_eq:
  assumes "objects_ok h" "store h k = Some (ObjectCell, c)"
  shows "handle_read_at c object_TABLE = None \<Longrightarrow> find_property h k key = Inr None"
    "handle_read_at c object_TABLE = Some t \<Longrightarrow> store h t = Some (PropertyTableCell, tc) \<Longrightarrow>
       find_property h k key = Inr (map_option (Pair t) (table_index tc key))"
proof -
  show "find_property h k key = Inr None" if "handle_read_at c object_TABLE = None"
    using that object_cell_store [OF assms] by (simp add: find_property_def table_of_def)
  assume t: "handle_read_at c object_TABLE = Some t" "store h t = Some (PropertyTableCell, tc)"
  then have ok: "table_ok tc" using objects_okD(3) [OF assms t(1)] by auto
  show "find_property h k key = Inr (map_option (Pair t) (table_index tc key))"
    using lookup_record [OF ok, of key t] object_cell_store [OF assms] t store_reads [OF t(2)]
    by (simp add: find_property_def table_of_def table_count_def)
qed

lemma get_own_property_eq:
  assumes "objects_ok h" "store h k = Some (ObjectCell, c)"
  shows "get_own_property h k key = Inr (map_of (props h k) key)"
proof (rule object_table_cases [OF assms])
  assume "handle_read_at c object_TABLE = None" "props h k = []"
  then show ?thesis using find_property_eq(1) [OF assms] by (simp add: get_own_property_def)
next
  fix t tc
  assume t: "handle_read_at c object_TABLE = Some t" "store h t = Some (PropertyTableCell, tc)"
    "table_ok tc" "props h k = rows tc"
  have shape: "table_shape tc" using t(3) by (simp add: table_ok_def)
  have "read_record tc i = Inr (snd (rows tc ! i))" if "table_index tc key = Some i" for i
    using table_index_bound [OF t(3) that] read_record_row [OF shape, of i] shape
    by (simp add: nth_rows table_shape_def)
  then show ?thesis
    using find_property_eq(2) [OF assms t(1,2), of key] store_reads [OF t(2)] table_index_map_of [OF t(3), of key] t(4)
    by (cases "table_index tc key") (simp_all add: get_own_property_def)
qed

subsection \<open>What a property operation leaves alone\<close>

definition object_rest :: "byte list \<Rightarrow> byte list \<times> byte list" where
  "object_rest c = (take 12 c, drop 20 c)"

definition kept :: "cell_kind \<Rightarrow> byte list \<Rightarrow> byte list \<Rightarrow> bool" where
  "kept kind c c' \<longleftrightarrow> length c' = length c \<and> (kind = ObjectCell \<longrightarrow> object_rest c' = object_rest c) \<and>
     (kind \<noteq> ObjectCell \<and> kind \<noteq> PropertyTableCell \<longrightarrow> c' = c)"

lemma kept_refl [simp]: "kept kind c c"
  by (simp add: kept_def)

lemma kept_trans: "kept kind a b \<Longrightarrow> kept kind b c \<Longrightarrow> kept kind a c"
  by (auto simp: kept_def)

definition same_shape :: "heap \<Rightarrow> heap \<Rightarrow> bool" where
  "same_shape h h' \<longleftrightarrow>
     (\<forall>k kind c. store h k = Some (kind, c) \<longrightarrow> (\<exists>c'. store h' k = Some (kind, c') \<and> kept kind c c')) \<and>
     (\<forall>k c'. store h' k = Some (ObjectCell, c') \<longrightarrow> (\<exists>c. store h k = Some (ObjectCell, c)))"

lemma same_shape_refl [simp]: "same_shape h h"
  by (auto simp: same_shape_def)

lemma same_shapeD:
  "same_shape h h' \<Longrightarrow> store h k = Some (kind, c) \<Longrightarrow> \<exists>c'. store h' k = Some (kind, c') \<and> kept kind c c'"
  "same_shape h h' \<Longrightarrow> store h' k = Some (ObjectCell, c') \<Longrightarrow> \<exists>c. store h k = Some (ObjectCell, c)"
  by (auto simp: same_shape_def)

lemma same_shape_trans:
  assumes "same_shape a b" "same_shape b c" shows "same_shape a c"
  unfolding same_shape_def
proof (intro conjI allI impI)
  fix k kind x
  assume "store a k = Some (kind, x)"
  then obtain y where "store b k = Some (kind, y)" "kept kind x y" using same_shapeD(1) [OF assms(1)] by blast
  moreover then obtain z where "store c k = Some (kind, z)" "kept kind y z" using same_shapeD(1) [OF assms(2)] by blast
  ultimately show "\<exists>z. store c k = Some (kind, z) \<and> kept kind x z" using kept_trans by blast
next
  fix k z
  assume "store c k = Some (ObjectCell, z)"
  then show "\<exists>x. store a k = Some (ObjectCell, x)" using same_shapeD(2) assms by blast
qed

lemma rest_get:
  assumes "object_rest c = object_rest d" "length c = length d" "20 \<le> length c" "i < 12 \<or> 20 \<le> i"
  shows "get_at c i = get_at d i"
proof -
  have "take 12 c = take 12 d" "drop 20 c = drop 20 d" using assms(1) by (simp_all add: object_rest_def)
  then have low: "take 12 c ! i = take 12 d ! i" and high: "drop 20 c ! (i - 20) = drop 20 d ! (i - 20)" by simp_all
  show ?thesis
  proof (cases "i < 12")
    case True
    then show ?thesis using low assms(2,3) by (simp add: get_at_def)
  next
    case False
    then have "20 \<le> i" using assms(4) by simp
    then show ?thesis using high assms(2,3) by (simp add: get_at_def)
  qed
qed

lemma rest_field:
  assumes "object_rest c = object_rest d" "length c = length d" "20 \<le> length c" "i + n \<le> 12 \<or> 20 \<le> i"
  shows "field n c i = field n d i"
proof (cases "i + n \<le> length c")
  case True
  have "take n (drop i c) = take n (drop i d)"
  proof (rule nth_equalityI)
    fix j
    assume "j < length (take n (drop i c))"
    then have "get_at c (i + j) = get_at d (i + j)" "i + j < length c"
      using rest_get [OF assms(1-3), of "i + j"] assms(4) True by auto
    then show "take n (drop i c) ! j = take n (drop i d) ! j"
      using assms(2) True \<open>j < length (take n (drop i c))\<close> by (simp add: get_at_def)
  qed (simp add: assms(2))
  then show ?thesis using True assms(2) by (simp add: field_def subrange_def)
qed (simp add: field_def subrange_def assms(2))

lemma rest_prototype:
  assumes "object_rest c = object_rest d" "length c = length d" "20 \<le> length c"
  shows "decode_at c object_PROTOTYPE = decode_at d object_PROTOTYPE"
  by (rule decode_at_local) (use rest_get [OF assms, of 0] rest_field [OF assms, of 1 8] in simp_all)


lemma write_table_rest: "object_rest (handle_write_at t c object_TABLE) = object_rest c"
proof (cases "20 \<le> length c")
  case True
  then show ?thesis by (simp add: object_rest_def handle_write_at_def put_at_def)
qed (simp add: object_rest_def handle_write_at_def put_at_def)

subsection \<open>Two ways a table changes\<close>

text \<open>The table of an object is rewritten in place.\<close>

lemma table_rewritten:
  assumes "objects_ok h" "store h k = Some (ObjectCell, c)" "handle_read_at c object_TABLE = Some t"
    "store h t = Some (PropertyTableCell, tc)" "heap_ok h'" "store h' = (store h)(t \<mapsto> (PropertyTableCell, tc'))"
    "table_ok tc'" "length tc' = length tc"
  shows "objects_ok h'" "same_shape h h'" "props h' = (props h)(k := rows tc')"
proof -
  have obj: "store h' l = Some (ObjectCell, d) \<longleftrightarrow> store h l = Some (ObjectCell, d)" for l d
    using assms(4,6) by (cases "l = t") auto
  have tab: "\<exists>tc. store h' u = Some (PropertyTableCell, tc) \<and> table_ok tc"
    if "\<exists>tc. store h u = Some (PropertyTableCell, tc) \<and> table_ok tc" for u
    using that assms(6,7) by (cases "u = t") auto
  show "objects_ok h'"
  proof (rule objects_okI)
    fix l d
    assume "store h' l = Some (ObjectCell, d)"
    then have d: "store h l = Some (ObjectCell, d)" by (simp add: obj)
    note ok = objects_okD [OF assms(1) d]
    show "object_SIZE \<le> length d" by (rule ok)
    show "\<exists>pc. store h' (as_handle (decode_at d object_PROTOTYPE)) = Some (ObjectCell, pc)"
      if "v_tag (decode_at d object_PROTOTYPE) = Object" using ok(4) [OF that] obj by blast
    show "\<exists>tc. store h' u = Some (PropertyTableCell, tc) \<and> table_ok tc" if "handle_read_at d object_TABLE = Some u" for u
      by (rule tab [OF ok(3) [OF that]])
    show "l = m" if "store h' m = Some (ObjectCell, e)" "handle_read_at d object_TABLE = Some u"
      "handle_read_at e object_TABLE = Some u" for m e u
      using ok(5) [OF that(2) _ that(3)] that(1) obj by blast
  qed (rule assms(5))
  show "same_shape h h'"
    unfolding same_shape_def obj using assms(4,6,8) by (auto simp: kept_def)
  show "props h' = (props h)(k := rows tc')"
  proof
    fix l
    show "props h' l = ((props h)(k := rows tc')) l"
    proof (cases "\<exists>d. store h l = Some (ObjectCell, d)")
      case True
      then obtain d where d: "store h l = Some (ObjectCell, d)" by blast
      show ?thesis
      proof (cases "l = k")
        case True
        then show ?thesis using props_table [of h' k c t tc'] obj assms(2,3,6) by simp
      next
        case False
        then have "handle_read_at d object_TABLE \<noteq> Some t"
          using objects_okD(5) [OF assms(1,2,3) d] by auto
        then show ?thesis using False d obj [of l d] assms(6)
          by (auto simp: props_def split: option.split)
      qed
    next
      case False
      then have "\<nexists>d. store h' l = Some (ObjectCell, d)" using obj by blast
      then show ?thesis using False assms(2) by (auto simp: props_other)
    qed
  qed
qed

text \<open>An object is given a table of its own.\<close>

lemma table_replaced:
  assumes "objects_ok h" "store h k = Some (ObjectCell, c)" "store h t = None" "heap_ok h'"
    "store h' = (store h)(t \<mapsto> (PropertyTableCell, tc'), k \<mapsto> (ObjectCell, handle_write_at t c object_TABLE))"
    "table_ok tc'" "h_index t \<noteq> none_index"
  shows "objects_ok h'" "same_shape h h'" "props h' = (props h)(k := rows tc')"
    "\<exists>c'. store h' k = Some (ObjectCell, c') \<and> handle_read_at c' object_TABLE = Some t"
proof -
  define c' where "c' = handle_write_at t c object_TABLE"
  have ck: "kept ObjectCell c c'" by (simp add: c'_def kept_def write_table_rest)
  have size: "object_SIZE \<le> length c" by (rule objects_okD(2) [OF assms(1,2)])
  have read: "handle_read_at c' object_TABLE = Some t" using size assms(7) by (simp add: c'_def handle_read_write_at)
  have at_k: "store h' k = Some (ObjectCell, c')" using assms(5) by (simp add: c'_def)
  then show "\<exists>c'. store h' k = Some (ObjectCell, c') \<and> handle_read_at c' object_TABLE = Some t" using read by blast
  have tk: "t \<noteq> k" using assms(2,3) by auto
  have at_t: "store h' t = Some (PropertyTableCell, tc')" using assms(5) tk by simp
  have other: "store h' l = store h l" if "l \<noteq> k" "l \<noteq> t" for l using that assms(5) by simp
  have obj: "\<exists>d. store h l = Some (ObjectCell, d) \<and> (if l = k then d' = c' else d' = d)"
    if "store h' l = Some (ObjectCell, d')" for l d'
    using that other [of l] at_k at_t assms(2) by (cases "l = k"; cases "l = t") auto
  have old: "handle_read_at d object_TABLE \<noteq> Some t" if "store h l = Some (ObjectCell, d)" for l d
    using objects_okD(3) [OF assms(1) that, of t] assms(3) by auto
  have objects: "\<exists>d'. store h' l = Some (ObjectCell, d')" if "store h l = Some (ObjectCell, d)" for l d
    using that other [of l] at_k assms(3) by (cases "l = k"; cases "l = t") auto
  have tables: "store h' u = store h u" if "store h u = Some (PropertyTableCell, tc)" for u tc
    using that other [of u] assms(2,3) by (cases "u = k"; cases "u = t") auto
  have proto: "decode_at c' object_PROTOTYPE = decode_at c object_PROTOTYPE"
    using ck size by (intro rest_prototype) (simp_all add: kept_def)
  show "objects_ok h'"
  proof (rule objects_okI)
    fix l d'
    assume l: "store h' l = Some (ObjectCell, d')"
    from obj [OF l] obtain d where d: "store h l = Some (ObjectCell, d)" "if l = k then d' = c' else d' = d" by blast
    have dc: "l = k \<Longrightarrow> d = c" using d(1) assms(2) by simp
    show "object_SIZE \<le> length d'" using d dc size objects_okD(2) [OF assms(1) d(1)] by (auto simp: c'_def split: if_splits)
    have same: "decode_at d' object_PROTOTYPE = decode_at d object_PROTOTYPE" using d dc proto by (auto split: if_splits)
    show "\<exists>pc. store h' (as_handle (decode_at d' object_PROTOTYPE)) = Some (ObjectCell, pc)"
      if "v_tag (decode_at d' object_PROTOTYPE) = Object"
      using that objects_okD(4) [OF assms(1) d(1)] objects unfolding same by blast
    show "\<exists>tc. store h' u = Some (PropertyTableCell, tc) \<and> table_ok tc" if "handle_read_at d' object_TABLE = Some u" for u
      using that d read at_t assms(6) objects_okD(3) [OF assms(1) d(1)] tables by (auto split: if_splits)
    fix m e' u
    assume m: "store h' m = Some (ObjectCell, e')" and u: "handle_read_at d' object_TABLE = Some u"
      "handle_read_at e' object_TABLE = Some u"
    from obj [OF m] obtain e where e: "store h m = Some (ObjectCell, e)" "if m = k then e' = c' else e' = e" by blast
    show "l = m"
      using d e u read old [OF d(1)] old [OF e(1)] objects_okD(5) [OF assms(1) d(1) _ e(1)] by (auto split: if_splits)
  qed (rule assms(4))
  show "same_shape h h'"
    unfolding same_shape_def
  proof (intro conjI allI impI)
    fix l kind d
    assume "store h l = Some (kind, d)"
    then show "\<exists>d'. store h' l = Some (kind, d') \<and> kept kind d d'"
      using at_k ck assms(2,3) other [of l] by (cases "l = k"; cases "l = t") auto
  next
    fix l d'
    assume "store h' l = Some (ObjectCell, d')"
    then show "\<exists>d. store h l = Some (ObjectCell, d)" using obj by blast
  qed
  show "props h' = (props h)(k := rows tc')"
  proof
    fix l
    show "props h' l = ((props h)(k := rows tc')) l"
    proof (cases "l = k")
      case True
      then show ?thesis using props_table [OF at_k read at_t] by simp
    next
      case False
      show ?thesis
      proof (cases "\<exists>d. store h l = Some (ObjectCell, d)")
        case True
        then obtain d where d: "store h l = Some (ObjectCell, d)" by blast
        then have d': "store h' l = Some (ObjectCell, d)" using False other [of l] assms(3) by (cases "l = t") auto
        show ?thesis
        proof (rule object_table_cases [OF assms(1) d])
          fix u uc
          assume u: "handle_read_at d object_TABLE = Some u" "store h u = Some (PropertyTableCell, uc)" "props h l = rows uc"
          then show ?thesis using props_table [OF d' u(1)] tables [OF u(2)] False by simp
        qed (use props_none [OF d'] False in simp)
      next
        case no: False
        then have "\<nexists>d. store h' l = Some (ObjectCell, d)" using obj by blast
        then show ?thesis using no False by (simp add: props_other)
      qed
    qed
  qed
qed


subsection \<open>Allocating and growing a table\<close>

lemma store_bounds:
  assumes "heap_ok h" "store h k = Some (kind, c)"
  shows "length c + 31 \<le> u32_max" "h_index k \<noteq> none_index"
proof -
  obtain cs where cs: "heap_inv h cs" using assms(1) by (rule heap_okE)
  have "heap_cell h k = Inr c" by (rule store_reads(2) [OF assms(2)])
  then obtain s where s: "heap_slot h k = Inr s" "subrange (hp_arena h) (s_offset s) (s_offset s + s_length s) = Some c"
    by (auto simp: heap_cell_def and_then_Inr)
  then have "length c \<le> length (hp_arena h)" by (auto simp: subrange_Some)
  then show "length c + 31 \<le> u32_max" using cs by (simp add: heap_inv_def)
  have "unat (h_index k) < length (hp_slots h)" using s(1) by (simp add: heap_slot_Inr slot_names_def)
  moreover have "length (hp_slots h) \<le> u32_max" using cs by (simp add: heap_inv_def)
  ultimately show "h_index k \<noteq> none_index" by (auto simp: none_index_def)
qed

lemma fresh_table:
  assumes "record_at capacity \<le> u32_max"
  defines "tc \<equiv> write_u32 (write_u32 (replicate (record_at capacity) 0) 0 0) 4 capacity"
  shows "length tc = record_at capacity" "table_n tc = 0" "table_cap tc = capacity" "table_ok tc" "rows tc = []"
proof -
  show len: "length tc = record_at capacity" by (simp add: tc_def)
  have big: "8 \<le> record_at capacity" "capacity \<le> u32_max" using assms(1) by (simp_all add: record_at_def)
  show n: "table_n tc = 0"
  proof -
    have "table_n tc = table_n (write_u32 (replicate (record_at capacity) 0) 0 0)"
      by (simp add: tc_def write_u32_def read_u32_at_def field_put_other)
    then show ?thesis using big by simp
  qed
  show cap: "table_cap tc = capacity" using big by (simp add: tc_def)
  show r: "rows tc = []" by (simp add: rows_def n)
  show "table_ok tc" using len n cap r by (simp add: table_ok_def table_shape_def)
qed

lemma allocate_table_store:
  assumes "heap_ok h" "allocate_table h capacity = Inr (t, h')"
  shows "\<exists>tc. heap_ok h' \<and> store h t = None \<and> store h' = (store h)(t \<mapsto> (PropertyTableCell, tc)) \<and>
    table_ok tc \<and> rows tc = [] \<and> table_n tc = 0 \<and> table_cap tc = capacity \<and> h_index t \<noteq> none_index"
proof -
  let ?n = "record_at capacity"
  let ?tc = "write_u32 (write_u32 (replicate ?n 0) 0 0) 4 capacity"
  have n: "?n \<le> u32_max" using assms(2) by (simp add: allocate_table_def record_at_def Let_def split: if_splits)
  obtain h1 where a: "heap_allocate h PropertyTableCell ?n = Inr (t, h1)"
    and p: "change_object h1 t (\<lambda>cell. Inr (write_u32 (write_u32 cell 0 0) 4 capacity)) = Inr h'"
    using assms(2) n by (auto simp: allocate_table_def record_at_def Let_def and_then_Inr)
  note law = cells.alloc_law [OF assms(1) _ a]
  have s1: "store h1 t = Some (PropertyTableCell, replicate ?n 0)" using law by simp
  obtain h2 where "change_object h1 t (\<lambda>cell. Inr (write_u32 (write_u32 cell 0 0) 4 capacity)) = Inr h2"
    "heap_ok h2" "store h2 = (store h1)(t \<mapsto> (PropertyTableCell, ?tc))"
    using with_cell_store [OF _ s1, of "\<lambda>cell. Inr (write_u32 (write_u32 cell 0 0) 4 capacity)" ?tc ObjectHeap] law
    by (auto simp: change_object_def)
  then have "heap_ok h'" "store h' = (store h)(t \<mapsto> (PropertyTableCell, ?tc))" using p law by auto
  moreover then have "h_index t \<noteq> none_index" using store_bounds(2) [of h' t] by simp
  ultimately show ?thesis using fresh_table [OF n] law by blast
qed

lemma copy_records_store:
  assumes "heap_ok h" "store h t = Some (PropertyTableCell, tc)" "store h u = Some (PropertyTableCell, uc)" "t \<noteq> u"
    "table_shape tc" "table_shape uc" "i + left \<le> table_cap tc" "i + left \<le> table_cap uc"
  shows "\<exists>h' uc'. copy_records h t u i left = Inr h' \<and> heap_ok h' \<and> store h' = (store h)(u \<mapsto> (PropertyTableCell, uc')) \<and>
    table_shape uc' \<and> table_n uc' = table_n uc \<and> table_cap uc' = table_cap uc \<and> length uc' = length uc \<and>
    (\<forall>j < table_cap uc. nth_record uc' j = (if i \<le> j \<and> j < i + left then nth_record tc j else nth_record uc j))"
  using assms
proof (induction left arbitrary: h uc i)
  case 0
  then show ?case by (intro exI [of _ h] exI [of _ uc]) (auto simp: fun_upd_triv)
next
  case (Suc left)
  let ?r = "nth_record tc i" and ?uc = "put_at uc (record_at i) (nth_record tc i)"
  have i: "i < table_cap tc" "i < table_cap uc" using Suc.prems by simp_all
  note r = table_record_Some [OF Suc.prems(5) i(1)]
  note p = put_record [OF Suc.prems(6) i(2) r(2)]
  obtain h1 where h1: "change_object h u (\<lambda>cell. Inr (put_at cell (record_at i) ?r)) = Inr h1" "heap_ok h1"
    "store h1 = (store h)(u \<mapsto> (PropertyTableCell, ?uc))"
    using with_cell_store [OF Suc.prems(1,3), of "\<lambda>cell. Inr (put_at cell (record_at i) ?r)" ?uc ObjectHeap]
    by (auto simp: change_object_def)
  have step: "copy_records h t u i (Suc left) = copy_records h1 t u (i + 1) left"
    using store_reads(2) [OF Suc.prems(2)] r(1) h1(1) by (simp add: Let_def)
  have cells: "store h1 t = Some (PropertyTableCell, tc)" "store h1 u = Some (PropertyTableCell, ?uc)"
    using h1(3) Suc.prems(2,4) by auto
  have lim: "i + 1 + left \<le> table_cap tc" "i + 1 + left \<le> table_cap ?uc" using Suc.prems(7,8) p(3) by simp_all
  from Suc.IH [OF h1(2) cells Suc.prems(4,5) p(4) lim] obtain h' uc' where h': "copy_records h1 t u (i + 1) left = Inr h'" "heap_ok h'"
    "store h' = (store h1)(u \<mapsto> (PropertyTableCell, uc'))" "table_shape uc'" "table_n uc' = table_n ?uc"
    "table_cap uc' = table_cap ?uc" "length uc' = length ?uc"
    "\<forall>j < table_cap ?uc. nth_record uc' j = (if i + 1 \<le> j \<and> j < i + 1 + left then nth_record tc j else nth_record ?uc j)"
    by (elim exE conjE)
  have "nth_record uc' j = (if i \<le> j \<and> j < i + Suc left then nth_record tc j else nth_record uc j)"
    if "j < table_cap uc" for j
    using h'(8) p(3,5) that by auto
  then show ?case using h' h1(3) p step by (intro exI [of _ h'] exI [of _ uc']) auto
qed


definition heap_full :: "object_error \<Rightarrow> bool" where
  "heap_full e \<longleftrightarrow> e = ObjectHeap ArenaFull \<or> e = ObjectHeap SlotsFull"

lemma allocate_error:
  assumes "heap_ok h" "heap_allocate h kind n = Inl e"
  shows "e = ArenaFull \<or> e = SlotsFull"
proof -
  obtain cs where cs: "heap_inv h cs" "hp_phase h = Idle" using assms(1) by (rule heap_okE)
  from heap_allocate_fails [OF cs, of kind n e] show ?thesis using assms(2) by (auto split: if_splits)
qed

lemma allocate_table_error:
  assumes "heap_ok h" "allocate_table h capacity = Inl e"
  shows "heap_full e"
proof (cases "u32_max < record_at capacity")
  case True
  then show ?thesis using assms(2) by (auto simp: allocate_table_def record_at_def Let_def heap_full_def)
next
  case False
  let ?change = "\<lambda>cell. Inr (write_u32 (write_u32 cell 0 0) 4 capacity) :: object_error + byte list"
  show ?thesis
  proof (cases "heap_allocate h PropertyTableCell (record_at capacity)")
    case (Inl e')
    then have "e = ObjectHeap e'" using assms(2) False by (simp add: allocate_table_def record_at_def Let_def)
    then show ?thesis using allocate_error [OF assms(1) Inl] by (auto simp: heap_full_def)
  next
    case (Inr r)
    then obtain t h1 where a: "heap_allocate h PropertyTableCell (record_at capacity) = Inr (t, h1)" by (cases r) simp
    note law = cells.alloc_law [OF assms(1) _ a]
    obtain h2 where "change_object h1 t ?change = Inr h2"
      using with_cell_store [of h1 t PropertyTableCell "replicate (record_at capacity) 0" ?change _ ObjectHeap] law
      by (auto simp: change_object_def)
    then have False using assms(2) False a by (simp add: allocate_table_def record_at_def Let_def)
    then show ?thesis ..
  qed
qed

lemma set_table_store:
  assumes "heap_ok h" "store h k = Some (ObjectCell, c)"
  shows "\<exists>h'. set_table h k t = Inr h' \<and> heap_ok h' \<and> store h' = (store h)(k \<mapsto> (ObjectCell, handle_write_at t c object_TABLE))"
  using with_cell_store [OF assms, of "\<lambda>cell. Inr (handle_write_at t cell object_TABLE)" "handle_write_at t c object_TABLE" ObjectHeap]
  by (simp add: set_table_def change_object_def)

text \<open>An object whose table has the handle \<open>t\<close>, the cell \<open>tc\<close> and room for one more row.\<close>

definition has_room :: "heap \<Rightarrow> handle \<Rightarrow> handle \<Rightarrow> bool" where
  "has_room h k t \<longleftrightarrow> (\<exists>c tc. store h k = Some (ObjectCell, c) \<and> handle_read_at c object_TABLE = Some t \<and>
     store h t = Some (PropertyTableCell, tc) \<and> table_n tc < table_cap tc)"

lemma grow_table_spec:
  assumes "objects_ok h" "store h k = Some (ObjectCell, c)" "handle_read_at c object_TABLE = Some t"
    "store h t = Some (PropertyTableCell, tc)" "table_n tc \<le> capacity" "capacity < u32_max"
  shows "(\<exists>e. grow_table h k t capacity = Inl e \<and> heap_full e) \<or>
    (\<exists>u h'. grow_table h k t capacity = Inr (u, h') \<and> objects_ok h' \<and> same_shape h h' \<and> props h' = props h \<and> has_room h' k u)"
proof (cases "allocate_table h (max (min (capacity * 2) u32_max) 4)")
  case (Inl e)
  then show ?thesis using allocate_table_error [OF objects_okD(1) [OF assms(1,2)] Inl] store_reads(2) [OF assms(4)]
    by (simp add: grow_table_def table_count_def)
next
  case (Inr r)
  let ?cap = "max (min (capacity * 2) u32_max) 4" and ?n = "table_n tc"
  obtain u h1 where a: "allocate_table h ?cap = Inr (u, h1)" using Inr by (cases r) simp
  from allocate_table_store [OF objects_okD(1) [OF assms(1,2)] a]
  obtain uc where h1: "heap_ok h1" "store h u = None" "store h1 = (store h)(u \<mapsto> (PropertyTableCell, uc))"
    and uc: "table_ok uc" "table_n uc = 0" "table_cap uc = ?cap" "h_index u \<noteq> none_index" by blast
  have ne: "t \<noteq> u" "k \<noteq> u" using assms(2,4) h1(2) by auto
  have tc: "table_ok tc" using objects_okD(3) [OF assms(1-3)] assms(4) by auto
  have n: "?n \<le> table_cap tc" "?n < ?cap" using tc assms(5,6) by (auto simp: table_ok_def table_shape_def)
  have cells: "store h1 t = Some (PropertyTableCell, tc)" "store h1 u = Some (PropertyTableCell, uc)"
    using h1(3) ne assms(4) by auto
  have shapes: "table_shape tc" "table_shape uc" "0 + ?n \<le> table_cap tc" "0 + ?n \<le> table_cap uc"
    using tc uc n by (auto simp: table_ok_def)
  from copy_records_store [OF h1(1) cells ne(1) shapes] obtain h2 vc where
    h2: "copy_records h1 t u 0 ?n = Inr h2" "heap_ok h2" "store h2 = (store h1)(u \<mapsto> (PropertyTableCell, vc))"
    and vc: "table_shape vc" "table_n vc = table_n uc" "table_cap vc = table_cap uc" "length vc = length uc"
      "\<forall>j < table_cap uc. nth_record vc j = (if 0 \<le> j \<and> j < 0 + ?n then nth_record tc j else nth_record uc j)"
    by (elim exE conjE)
  define wc where "wc = write_u32 vc 0 ?n"
  have "?n \<le> table_cap vc" using vc(3) shapes(4) by simp
  note w = set_count [OF vc(1) this, folded wc_def]
  have rows: "rows wc = rows tc"
    by (rule rows_eqI) (use w vc shapes in \<open>auto simp: nth_rows\<close>)
  then have ok: "table_ok wc" using w(4) tc by (simp add: table_ok_def)
  have at_u: "store h2 u = Some (PropertyTableCell, vc)" using h2(3) by simp
  obtain h3 where h3: "change_object h2 u (\<lambda>cell. Inr (write_u32 cell 0 ?n)) = Inr h3" "heap_ok h3"
    "store h3 = (store h2)(u \<mapsto> (PropertyTableCell, wc))"
    using with_cell_store [OF h2(2) at_u, of "\<lambda>cell. Inr (write_u32 cell 0 ?n)" wc ObjectHeap] w(1)
    by (auto simp: change_object_def wc_def)
  have at_k: "store h3 k = Some (ObjectCell, c)" using h3(3) h2(3) h1(3) ne assms(2) by simp
  obtain h4 where h4: "set_table h3 k u = Inr h4" "heap_ok h4"
    "store h4 = (store h3)(k \<mapsto> (ObjectCell, handle_write_at u c object_TABLE))"
    using set_table_store [OF h3(2) at_k] by blast
  have final: "store h4 = (store h)(u \<mapsto> (PropertyTableCell, wc), k \<mapsto> (ObjectCell, handle_write_at u c object_TABLE))"
    using h4(3) h3(3) h2(3) h1(3) by simp
  note rep = table_replaced [OF assms(1,2) h1(2) h4(2) final ok uc(4)]
  have "grow_table h k t capacity = Inr (u, h4)"
    using store_reads(2) [OF assms(4)] a h2(1) h3(1) h4(1) by (simp add: grow_table_def table_count_def)
  moreover have "props h4 = props h" using rep(3) rows props_table [OF assms(2-4)] by (simp add: fun_upd_idem)
  moreover have "has_room h4 k u"
    using rep(4) final ne(2) w(2,3) vc(3) uc(3) n(2) by (auto simp: has_room_def)
  ultimately show ?thesis using rep(1,2) by blast
qed


subsection \<open>Adding, rewriting and removing a property\<close>

definition props_become :: "heap \<Rightarrow> handle \<Rightarrow> (key \<times> descriptor) list \<Rightarrow> heap \<Rightarrow> bool" where
  "props_become h k xs h' \<longleftrightarrow> objects_ok h' \<and> same_shape h h' \<and> props h' = (props h)(k := xs)"

definition unless_full :: "object_error + 'a \<Rightarrow> ('a \<Rightarrow> bool) \<Rightarrow> bool" where
  "unless_full r P = (case r of Inl e \<Rightarrow> heap_full e | Inr x \<Rightarrow> P x)"

lemma unless_full_simps [simp]: "unless_full (Inl e) P = heap_full e" "unless_full (Inr x) P = P x"
  by (simp_all add: unless_full_def)

lemma unless_full_then: "unless_full r P \<Longrightarrow> (\<And>x. P x \<Longrightarrow> unless_full (f x) Q) \<Longrightarrow> unless_full (and_then r f) Q"
  by (cases r) simp_all

lemma table_capacity_bound:
  assumes "heap_ok h" "store h t = Some (PropertyTableCell, tc)" "table_ok tc"
  shows "table_cap tc < u32_max"
  using store_bounds(1) [OF assms(1,2)] assms(3) by (simp add: table_ok_def table_shape_def record_at_def)

lemma table_with_room_spec:
  assumes "objects_ok h" "store h k = Some (ObjectCell, c)"
  shows "unless_full (table_with_room h k) (\<lambda>(t, h'). props_become h k (props h k) h' \<and> has_room h' k t)"
proof (rule object_table_cases [OF assms])
  assume bare: "handle_read_at c object_TABLE = None" "props h k = []"
  have code: "table_with_room h k =
      and_then (allocate_table h 4) (\<lambda>(t, h). and_then (set_table h k t) (\<lambda>h. Inr (t, h)))"
    using object_cell_store [OF assms] bare(1) by (simp add: table_with_room_def table_of_def)
  show ?thesis
  proof (cases "allocate_table h 4")
    case (Inl e)
    then show ?thesis using allocate_table_error [OF objects_okD(1) [OF assms]] code by simp
  next
    case (Inr r)
    then obtain t h1 where a: "allocate_table h 4 = Inr (t, h1)" by (cases r) simp
    from allocate_table_store [OF objects_okD(1) [OF assms] a] obtain tc where
      h1: "heap_ok h1" "store h t = None" "store h1 = (store h)(t \<mapsto> (PropertyTableCell, tc))"
      and tc: "table_ok tc" "rows tc = []" "table_n tc = 0" "table_cap tc = 4" "h_index t \<noteq> none_index" by blast
    have ne: "t \<noteq> k" using assms(2) h1(2) by auto
    have at_k: "store h1 k = Some (ObjectCell, c)" using h1(3) ne assms(2) by simp
    obtain h2 where h2: "set_table h1 k t = Inr h2" "heap_ok h2"
      "store h2 = (store h1)(k \<mapsto> (ObjectCell, handle_write_at t c object_TABLE))"
      using set_table_store [OF h1(1) at_k] by blast
    have final: "store h2 = (store h)(t \<mapsto> (PropertyTableCell, tc), k \<mapsto> (ObjectCell, handle_write_at t c object_TABLE))"
      using h2(3) h1(3) by simp
    note rep = table_replaced [OF assms h1(2) h2(2) final tc(1,5)]
    have "has_room h2 k t" using rep(4) final ne tc(3,4) by (auto simp: has_room_def)
    then show ?thesis using rep(1-3) code a h2(1) bare(2) tc(2) by (simp add: props_become_def)
  qed
next
  fix t tc
  assume t: "handle_read_at c object_TABLE = Some t" "store h t = Some (PropertyTableCell, tc)" "table_ok tc" "props h k = rows tc"
  have code: "table_with_room h k = (if table_n tc = table_cap tc then grow_table h k t (table_cap tc) else Inr (t, h))"
    using object_cell_store [OF assms] t(1) store_reads(2) [OF t(2)]
    by (simp add: table_with_room_def table_of_def table_count_def table_capacity_def)
  show ?thesis
  proof (cases "table_n tc = table_cap tc")
    case True
    from grow_table_spec [OF assms t(1,2), of "table_cap tc"] table_capacity_bound [OF objects_okD(1) [OF assms] t(2,3)] True
    show ?thesis using code by (auto simp: props_become_def fun_upd_idem)
  next
    case False
    then have "table_n tc < table_cap tc" using t(3) by (simp add: table_ok_def table_shape_def)
    then have "has_room h k t" using assms(2) t by (auto simp: has_room_def)
    then show ?thesis using False code assms(1) by (simp add: props_become_def)
  qed
qed

lemma props_become_trans:
  "props_become h k xs h' \<Longrightarrow> props_become h' k ys h'' \<Longrightarrow> props_become h k ys h''"
  by (auto simp: props_become_def intro: same_shape_trans)

lemma append_to_room:
  assumes "props_become h k (props h k) h1" "has_room h1 k t" "key \<notin> fst ` set (props h k)" "descriptor_wf d"
  shows "\<exists>h2. and_then (table_count h1 t) (\<lambda>n. change_object h1 t (\<lambda>cell.
      and_then (write_record cell n key d) (\<lambda>cell. Inr (write_u32 cell 0 (wadd32 n 1))))) = Inr h2 \<and>
    props_become h k (AList.update key d (props h k)) h2"
proof -
  obtain c1 tc where c1: "store h1 k = Some (ObjectCell, c1)" "handle_read_at c1 object_TABLE = Some t"
    "store h1 t = Some (PropertyTableCell, tc)" "table_n tc < table_cap tc" using assms(2) by (auto simp: has_room_def)
  have ok1: "objects_ok h1" "props h1 k = props h k" using assms(1) by (simp_all add: props_become_def)
  have tc: "table_ok tc" "rows tc = props h k"
    using objects_okD(3) [OF ok1(1) c1(1,2)] c1(3) props_table [OF c1(1-3)] ok1(2) by auto
  obtain r where r: "write_record tc (table_n tc) key d = Inr (put_at tc (record_at (table_n tc)) r)" "length r = 32" "row r = (key, d)"
    using write_record_row [of tc "table_n tc" d key] tc(1) c1(4) assms(4) by (auto simp: table_ok_def)
  have fresh: "key \<notin> fst ` set (rows tc)" using assms(3) tc(2) by simp
  note add = add_row [OF tc(1) c1(4) r(2,3) fresh]
  let ?change = "\<lambda>cell. and_then (write_record cell (table_n tc) key d) (\<lambda>cell. Inr (write_u32 cell 0 (wadd32 (table_n tc) 1)))"
  let ?tc = "write_u32 (put_at tc (record_at (table_n tc)) r) 0 (wadd32 (table_n tc) 1)"
  obtain h2 where h2: "change_object h1 t ?change = Inr h2" "heap_ok h2" "store h2 = (store h1)(t \<mapsto> (PropertyTableCell, ?tc))"
    using with_cell_store [OF objects_okD(1) [OF ok1(1) c1(1)] c1(3), of ?change ?tc ObjectHeap] r(1) add(3)
    by (auto simp: change_object_def)
  note rew = table_rewritten [OF ok1(1) c1(1-3) h2(2,3) add(1) add(3)]
  have "props_become h1 k (AList.update key d (props h k)) h2" using rew add(2) tc(2) by (simp add: props_become_def)
  then show ?thesis
    using h2(1) store_reads(2) [OF c1(3)] props_become_trans [OF assms(1)] by (simp add: table_count_def)
qed

lemma append_property_spec:
  assumes "objects_ok h" "store h k = Some (ObjectCell, c)" "key \<notin> fst ` set (props h k)" "descriptor_wf d"
  shows "unless_full (append_property h k key d) (props_become h k (AList.update key d (props h k)))"
  unfolding append_property_def
proof (rule unless_full_then [OF table_with_room_spec [OF assms(1,2)]], clarify)
  fix t h1
  assume "props_become h k (props h k) h1" "has_room h1 k t"
  from append_to_room [OF this assms(3,4)]
  show "unless_full (and_then (table_count h1 t) (\<lambda>n. change_object h1 t (\<lambda>cell.
      and_then (write_record cell n key d) (\<lambda>cell. Inr (write_u32 cell 0 (wadd32 n 1))))))
      (props_become h k (AList.update key d (props h k)))" by auto
qed

text \<open>The first property of an object is added when the heap has room for a table.\<close>

lemma append_first_property:
  assumes "objects_ok h" "store h k = Some (ObjectCell, c)" "handle_read_at c object_TABLE = None" "descriptor_wf d"
    "heap_allocate h PropertyTableCell 136 = Inr r"
  shows "\<exists>h'. append_property h k key d = Inr h'"
proof -
  have hk: "heap_ok h" by (rule objects_okD(1) [OF assms(1,2)])
  obtain t h1 where a: "heap_allocate h PropertyTableCell 136 = Inr (t, h1)" using assms(5) by (cases r) simp
  note law = cells.alloc_law [OF hk _ a]
  obtain h2 where h2: "allocate_table h 4 = Inr (t, h2)"
    using with_cell_store [of h1 t PropertyTableCell "replicate 136 0" "\<lambda>cell. Inr (write_u32 (write_u32 cell 0 0) 4 4)" _ ObjectHeap] law a
    by (auto simp: allocate_table_def change_object_def)
  from allocate_table_store [OF hk this] obtain tc where s2: "heap_ok h2" "store h t = None"
    "store h2 = (store h)(t \<mapsto> (PropertyTableCell, tc))" by blast
  then have "store h2 k = Some (ObjectCell, c)" using assms(2) by (cases "k = t") auto
  then obtain h3 where h3: "set_table h2 k t = Inr h3" using set_table_store [OF s2(1)] by blast
  have w: "table_with_room h k = Inr (t, h3)"
    using object_cell_store [OF assms(1,2)] assms(3) h2 h3 by (simp add: table_with_room_def table_of_def)
  then have "props_become h k (props h k) h3" "has_room h3 k t" using table_with_room_spec [OF assms(1,2)] by simp_all
  from append_to_room [OF this _ assms(4), of key] show ?thesis
    using w props_none [OF assms(2,3)] by (auto simp: append_property_def)
qed

text \<open>The record found for a key is rewritten where it is.\<close>

lemma rewrite_property_spec:
  assumes "objects_ok h" "store h k = Some (ObjectCell, c)" "map_of (props h k) key = Some e" "descriptor_wf d"
  obtains t i tc where "find_property h k key = Inr (Some (t, i))" "heap_cell h t = Inr tc" "read_record tc i = Inr e"
    "\<exists>h'. change_object h t (\<lambda>cell. write_record cell i key d) = Inr h' \<and>
       props_become h k (AList.update key d (props h k)) h'"
proof (rule object_table_cases [OF assms(1,2)])
  fix t tc
  assume t: "handle_read_at c object_TABLE = Some t" "store h t = Some (PropertyTableCell, tc)" "table_ok tc" "props h k = rows tc"
  obtain i where i: "table_index tc key = Some i" "snd (rows tc ! i) = e"
    using assms(3) table_index_map_of [OF t(3), of key] t(4) by auto
  note b = table_index_bound [OF t(3) i(1)]
  have shape: "table_shape tc" "i < table_cap tc" using t(3) b(1) by (auto simp: table_ok_def table_shape_def)
  obtain r where r: "write_record tc i key d = Inr (put_at tc (record_at i) r)" "length r = 32" "row r = (key, d)"
    using write_record_row [OF shape assms(4)] by blast
  note rw = rewrite_row [OF t(3) b(1) r(2,3) b(2)]
  obtain h' where h': "change_object h t (\<lambda>cell. write_record cell i key d) = Inr h'" "heap_ok h'"
    "store h' = (store h)(t \<mapsto> (PropertyTableCell, put_at tc (record_at i) r))"
    using with_cell_store [OF objects_okD(1) [OF assms(1,2)] t(2), of "\<lambda>cell. write_record cell i key d" _ ObjectHeap] r(1) rw(3)
    by (auto simp: change_object_def)
  have "props_become h k (AList.update key d (props h k)) h'"
    using table_rewritten [OF assms(1,2) t(1,2) h'(2,3) rw(1,3)] rw(2) t(4) by (simp add: props_become_def)
  moreover have "read_record tc i = Inr e" using read_record_row [OF shape] i(2) b(1) by (simp add: nth_rows)
  ultimately show ?thesis
    using that [of t i tc] find_property_eq(2) [OF assms(1,2) t(1,2), of key] i(1) store_reads(2) [OF t(2)] h'(1) by auto
qed (use assms(3) in simp)

lemma find_property_None:
  assumes "objects_ok h" "store h k = Some (ObjectCell, c)" "map_of (props h k) key = None"
  shows "find_property h k key = Inr None"
proof (rule object_table_cases [OF assms(1,2)])
  fix t tc
  assume t: "handle_read_at c object_TABLE = Some t" "store h t = Some (PropertyTableCell, tc)" "table_ok tc" "props h k = rows tc"
  have "table_index tc key = None" using assms(3) table_index_map_of [OF t(3), of key] t(4) by simp
  then show ?thesis using find_property_eq(2) [OF assms(1,2) t(1,2), of key] by simp
qed (use find_property_eq(1) [OF assms(1,2)] in simp)

end
