(* ===== verification/Promises.thy ===== *)
theory Promises
  imports Promise_Cells Record_Array Object_Store "HOL-Library.Code_Target_Nat"
begin

text \<open>
  A promise and its jobs. The reactions of a promise are a list, kept through the growth of its cell; a reaction
  attached while the promise is pending waits there and becomes a job when the promise settles, in the
  order of attachment; a promise settles once. Where the queue is full in the middle of that, reactions are lost.
\<close>

interpretation rx: record_array reactions_HEADER reactions_RECORD reactions_COUNT reactions_CAPACITY
  by unfold_locales simp_all

subsection \<open>The abstract state\<close>

type_synonym reaction = "jsvalue \<times> jsvalue \<times> jsvalue"

definition reaction_of :: "byte list \<Rightarrow> reaction" where
  "reaction_of r = (decode_at r 1, decode_at r 10, decode_at r 19)"

definition reaction_wf :: "reaction \<Rightarrow> bool" where
  "reaction_wf x = (case x of (f, r, d) \<Rightarrow> value_wf f \<and> value_wf r \<and> value_wf d)"

definition list_ok :: "heap \<Rightarrow> handle \<Rightarrow> bool" where
  "list_ok h t \<longleftrightarrow> (\<exists>tc. store h t = Some (ElementsCell, tc) \<and> rx.ok tc)"

definition list_of :: "heap \<Rightarrow> handle \<Rightarrow> reaction list" where
  "list_of h t = (case store h t of Some (_, tc) \<Rightarrow> map reaction_of (rx.elems tc) | None \<Rightarrow> [])"

definition promise_ok :: "heap \<Rightarrow> handle \<Rightarrow> bool" where
  "promise_ok h p \<longleftrightarrow> heap_ok h \<and> (\<exists>c. store h p = Some (ObjectCell, c) \<and> object_SIZE \<le> length c \<and>
     c ! object_INTERNAL = INTERNAL_PROMISE \<and> (\<forall>t. handle_read_at c object_REACTIONS = Some t \<longrightarrow> list_ok h t))"

definition reactions :: "heap \<Rightarrow> handle \<Rightarrow> reaction list" where
  "reactions h p = (case store h p of
     Some (_, c) \<Rightarrow> (case handle_read_at c object_REACTIONS of None \<Rightarrow> [] | Some t \<Rightarrow> list_of h t) | None \<Rightarrow> [])"

definition state_of :: "heap \<Rightarrow> handle \<Rightarrow> byte" where
  "state_of h p = (case store h p of Some (_, c) \<Rightarrow> c ! object_FLAGS | None \<Rightarrow> 0)"

definition outcome_of :: "heap \<Rightarrow> handle \<Rightarrow> jsvalue" where
  "outcome_of h p = (case store h p of Some (_, c) \<Rightarrow> decode_at c object_SLOT | None \<Rightarrow> v_undefined)"

definition promise_full :: "promise_error \<Rightarrow> bool" where
  "promise_full e \<longleftrightarrow> e = PromiseObject (ObjectHeap ArenaFull) \<or> e = PromiseObject (ObjectHeap SlotsFull)"

lemma promise_okD:
  assumes "promise_ok h p"
  obtains c where "heap_ok h" "store h p = Some (ObjectCell, c)" "56 \<le> length c" "c ! 20 = 3"
    "\<And>t. handle_read_at c 40 = Some t \<Longrightarrow> list_ok h t"
  using assms by (auto simp: promise_ok_def)

lemma promise_reads:
  assumes "store h p = Some (ObjectCell, c)" "56 \<le> length c"
  shows "object_cell h p = Inr c" "is_promise h p = Inr (c ! 20 = 3)" "promise_state h p = Inr (state_of h p)"
    "promise_value h p = Inr (outcome_of h p)" "promise_reactions h p = Inr (handle_read_at c 40)"
proof -
  show cell: "object_cell h p = Inr c" using assms store_reads [OF assms(1)] by (simp add: object_cell_def)
  show "is_promise h p = Inr (c ! 20 = 3)" "promise_state h p = Inr (state_of h p)"
    "promise_value h p = Inr (outcome_of h p)" "promise_reactions h p = Inr (handle_read_at c 40)"
    using cell assms by (simp_all add: is_promise_def object_byte_def byte_at_def get_at_def promise_state_def state_of_def
        promise_value_def outcome_of_def promise_reactions_def)
qed

subsection \<open>The list cell\<close>

lemma reaction_at_eq: "reaction_at i = 8 + i * 32"
  by (simp add: reaction_at_def)

lemma list_reads:
  assumes "store h t = Some (ElementsCell, tc)"
  shows "reaction_count h t = Inr (read_u32_at tc 0)" "reaction_capacity h t = Inr (read_u32_at tc 4)"
    "rx.ok tc \<Longrightarrow> i < read_u32_at tc 4 \<Longrightarrow> read_reaction h t i = Inr (reaction_of (nth_of 8 32 tc i))"
  using store_reads(2) [OF assms] rx.record_get(1) [of tc i]
  by (simp_all add: reaction_count_def reaction_capacity_def promise_cell_def read_reaction_def reaction_at_eq reaction_of_def)

lemma change_list:
  assumes "heap_ok h" "store h t = Some (ElementsCell, tc)" "change tc = Inr tc'" "length tc' = length tc"
  shows "\<exists>h'. change_reactions h t change = Inr h' \<and> heap_ok h' \<and> store h' = (store h)(t \<mapsto> (ElementsCell, tc'))"
  using with_cell_store [OF assms(1,2), of change tc'] assms(3,4) unfolding change_reactions_def by blast

lemma encoded_reaction:
  assumes "length r = 32" "reaction_wf (f, g, d)"
  shows "reaction_of (encode_at d (encode_at g (encode_at f r 1) 10) 19) = (f, g, d)"
proof -
  have wf: "value_wf f" "value_wf g" "value_wf d" using assms(2) by (simp_all add: reaction_wf_def)
  have third: "decode_at (encode_at d (encode_at g (encode_at f r 1) 10) 19) 19 = d"
    using assms(1) wf by (intro decode_encode_at) (simp_all add: encoded_def)
  have "decode_at (encode_at d (encode_at g (encode_at f r 1) 10) 19) 10 = decode_at (encode_at g (encode_at f r 1) 10) 10"
    by (rule decode_at_local) (simp_all add: encode_at_def [of d] get_at_put_other field_put_other)
  also have "\<dots> = g" using assms(1) wf by (intro decode_encode_at) (simp_all add: encoded_def)
  finally have second: "decode_at (encode_at d (encode_at g (encode_at f r 1) 10) 19) 10 = g" .
  have "decode_at (encode_at d (encode_at g (encode_at f r 1) 10) 19) 1 = decode_at (encode_at f r 1) 1"
    by (rule decode_at_local) (simp_all add: encode_at_def [of d] encode_at_def [of g] get_at_put_other field_put_other)
  also have "\<dots> = f" using assms(1) wf by (intro decode_encode_at) (simp_all add: encoded_def)
  finally show ?thesis using second third by (simp add: reaction_of_def)
qed

lemma write_reaction_spec:
  assumes "heap_ok h" "store h t = Some (ElementsCell, tc)" "rx.ok tc" "i < read_u32_at tc 4" "reaction_wf (f, g, d)"
  obtains h' r where "write_reaction h t i f g d = Inr h'" "heap_ok h'"
    "store h' = (store h)(t \<mapsto> (ElementsCell, put_at tc (8 + i * 32) r))" "length r = 32" "reaction_of r = (f, g, d)"
proof -
  note get = rx.record_get [OF assms(3,4)]
  define r where "r = encode_at d (encode_at g (encode_at f (put_at (nth_of 8 32 tc i) 0 [0]) 1) 10) 19"
  let ?change = "\<lambda>cell. case subrange cell (reaction_at i) (reaction_at i + 32) of
      None \<Rightarrow> Inr cell
    | Some record \<Rightarrow>
        and_then (set_byte (PromiseObject IndexPanic) record 0 0) (\<lambda>record.
          let record = encode_at f record 1; record = encode_at g record 10; record = encode_at d record 19
          in Inr (put_at cell (reaction_at i) record))"
  have pos: "0 < length (nth_of 8 32 tc i)" unfolding get(2) by simp
  have ch: "?change tc = Inr (put_at tc (8 + i * 32) r)"
    using get(1) pos by (simp add: reaction_at_eq set_byte_def r_def)
  have len: "length r = 32" using get(2) by (simp add: r_def)
  have ro: "reaction_of r = (f, g, d)" unfolding r_def by (rule encoded_reaction) (use get(2) assms(5) in simp_all)
  obtain h' where "write_reaction h t i f g d = Inr h'" "heap_ok h'" "store h' = (store h)(t \<mapsto> (ElementsCell, put_at tc (8 + i * 32) r))"
    using change_list [OF assms(1,2), of ?change, OF ch] unfolding write_reaction_def by auto
  then show ?thesis using that len ro by blast
qed

lemma promise_allocate_store:
  assumes "heap_ok h" "promise_allocate h capacity = Inr (t, h')"
  shows "\<exists>tc. heap_ok h' \<and> store h t = None \<and> store h' = (store h)(t \<mapsto> (ElementsCell, tc)) \<and> rx.ok tc \<and>
    read_u32_at tc 0 = 0 \<and> read_u32_at tc 4 = capacity \<and> h_index t \<noteq> none_index"
proof -
  let ?n = "8 + capacity * 32"
  let ?tc = "write_u32 (write_u32 (replicate ?n 0) 0 0) 4 capacity"
  let ?change = "\<lambda>cell. if length cell < 8 then Inl (PromiseObject IndexPanic) else Inr (write_u32 (write_u32 cell 0 0) 4 capacity)"
  have n: "?n \<le> u32_max" using assms(2) by (auto simp: promise_allocate_def Let_def split: if_splits)
  obtain h1 where a: "heap_allocate h ElementsCell ?n = Inr (t, h1)" and p: "change_reactions h1 t ?change = Inr h'"
    using assms(2) n by (auto simp: promise_allocate_def Let_def and_then_Inr)
  note law = cells.alloc_law [OF assms(1) _ a]
  have s1: "heap_ok h1" "store h1 t = Some (ElementsCell, replicate ?n 0)" using law by simp_all
  have "?change (replicate ?n 0) = Inr ?tc" by simp
  from change_list [OF s1, of ?change, OF this] have h': "heap_ok h'" "store h' = (store h)(t \<mapsto> (ElementsCell, ?tc))" using p law by auto
  have "table_n ?tc = 0"
  proof -
    have "table_n ?tc = table_n (write_u32 (replicate ?n 0) 0 0)" by (simp add: write_u32_def read_u32_at_def field_put_other)
    then show ?thesis by simp
  qed
  moreover have "read_u32_at ?tc 4 = capacity" using n by simp
  moreover have "h_index t \<noteq> none_index" using store_bounds(2) [OF h'(1), of t] h'(2) by simp
  moreover have "store h t = None" using law by simp
  ultimately show ?thesis using h' by (intro exI [of _ ?tc]) (simp add: array_ok_def)
qed

lemma promise_allocate_error:
  assumes "heap_ok h" "promise_allocate h capacity = Inl e"
  shows "promise_full e"
proof (cases "heap_allocate h ElementsCell (8 + capacity * 32)")
  case (Inl e')
  then show ?thesis using assms(2) allocate_error [OF assms(1) Inl]
    by (auto simp: promise_allocate_def Let_def promise_full_def split: if_splits)
next
  case (Inr r)
  then obtain t h1 where a: "heap_allocate h ElementsCell (8 + capacity * 32) = Inr (t, h1)" by (cases r) simp
  note law = cells.alloc_law [OF assms(1) _ a]
  obtain h2 where "change_reactions h1 t (\<lambda>cell. if length cell < 8 then Inl (PromiseObject IndexPanic)
      else Inr (write_u32 (write_u32 cell 0 0) 4 capacity)) = Inr h2"
    using change_list [of h1 t "replicate (8 + capacity * 32) 0" "\<lambda>cell. if length cell < 8 then Inl (PromiseObject IndexPanic)
      else Inr (write_u32 (write_u32 cell 0 0) 4 capacity)"] law by auto
  then show ?thesis using assms(2) a by (auto simp: promise_allocate_def Let_def promise_full_def split: if_splits)
qed


lemma set_count_spec:
  assumes "heap_ok h" "store h t = Some (ElementsCell, tc)" "rx.ok tc" "n \<le> read_u32_at tc 4"
  obtains h' where "set_reaction_count h t n = Inr h'" "heap_ok h'" "store h' = (store h)(t \<mapsto> (ElementsCell, write_u32 tc 0 n))"
  using change_list [OF assms(1,2), of "\<lambda>cell. Inr (write_u32 cell 0 n)" "write_u32 tc 0 n"]
  by (auto simp: set_reaction_count_def)

lemma reaction_of_wf: "reaction_wf (reaction_of r)"
  by (simp add: reaction_wf_def reaction_of_def decode_at_wf)

lemma copy_reactions_store:
  assumes "heap_ok h" "store h t = Some (ElementsCell, tc)" "store h u = Some (ElementsCell, uc)" "t \<noteq> u" "rx.ok tc" "rx.ok uc"
    "i + left \<le> read_u32_at tc 4" "i + left \<le> read_u32_at uc 4"
  shows "\<exists>h' uc'. copy_reactions h t u i left = Inr h' \<and> heap_ok h' \<and> store h' = (store h)(u \<mapsto> (ElementsCell, uc')) \<and>
    rx.ok uc' \<and> length uc' = length uc \<and> read_u32_at uc' 0 = read_u32_at uc 0 \<and> read_u32_at uc' 4 = read_u32_at uc 4 \<and>
    (\<forall>j < read_u32_at uc 4. reaction_of (nth_of 8 32 uc' j) =
       (if i \<le> j \<and> j < i + left then reaction_of (nth_of 8 32 tc j) else reaction_of (nth_of 8 32 uc j)))"
  using assms
proof (induction left arbitrary: i h uc)
  case 0
  then show ?case by (intro exI [of _ h] exI [of _ uc]) (auto simp: fun_upd_idem)
next
  case (Suc left)
  have lim: "i < read_u32_at tc 4" "i < read_u32_at uc 4" using Suc.prems(7,8) by simp_all
  obtain f g d where x: "reaction_of (nth_of 8 32 tc i) = (f, g, d)" by (cases "reaction_of (nth_of 8 32 tc i)")
  have wf: "reaction_wf (f, g, d)" using reaction_of_wf [of "nth_of 8 32 tc i"] x by simp
  obtain h1 r where h1: "write_reaction h u i f g d = Inr h1" "heap_ok h1"
    "store h1 = (store h)(u \<mapsto> (ElementsCell, put_at uc (8 + i * 32) r))" "length r = 32" "reaction_of r = (f, g, d)"
    by (rule write_reaction_spec [OF Suc.prems(1,3,6) lim(2) wf])
  let ?uc = "put_at uc (8 + i * 32) r"
  note put = rx.record_put [OF Suc.prems(6) lim(2) h1(4)]
  have s1: "store h1 t = Some (ElementsCell, tc)" "store h1 u = Some (ElementsCell, ?uc)" using h1(3) Suc.prems(2,4) by simp_all
  have lim': "i + 1 + left \<le> read_u32_at tc 4" "i + 1 + left \<le> read_u32_at ?uc 4" using Suc.prems(7,8) put(3) by simp_all
  from Suc.IH [OF h1(2) s1 Suc.prems(4,5) put(4) lim'] obtain h' uc' where h': "copy_reactions h1 t u (i + 1) left = Inr h'" "heap_ok h'"
    "store h' = (store h1)(u \<mapsto> (ElementsCell, uc'))" "rx.ok uc'" "length uc' = length ?uc" "read_u32_at uc' 0 = read_u32_at ?uc 0"
    "read_u32_at uc' 4 = read_u32_at ?uc 4"
    and rec: "\<And>j. j < read_u32_at ?uc 4 \<Longrightarrow> reaction_of (nth_of 8 32 uc' j) =
       (if i + 1 \<le> j \<and> j < i + 1 + left then reaction_of (nth_of 8 32 tc j) else reaction_of (nth_of 8 32 ?uc j))"
    by blast
  have "copy_reactions h t u i (Suc left) = Inr h'"
    using list_reads(3) [OF Suc.prems(2,5) lim(1)] x h1(1) h'(1) by simp
  moreover have "store h' = (store h)(u \<mapsto> (ElementsCell, uc'))" using h'(3) h1(3) by simp
  moreover have "reaction_of (nth_of 8 32 uc' j) =
      (if i \<le> j \<and> j < i + Suc left then reaction_of (nth_of 8 32 tc j) else reaction_of (nth_of 8 32 uc j))"
    if j: "j < read_u32_at uc 4" for j
    using rec [of j] put(6) [OF j] put(3) j x h1(5) by (cases "j = i") auto
  ultimately show ?case using h'(2,4-7) put(1-3) by (intro exI [of _ h'] exI [of _ uc']) simp
qed


subsection \<open>Attaching a reaction\<close>

definition promise_becomes :: "heap \<Rightarrow> handle \<Rightarrow> reaction list \<Rightarrow> heap \<Rightarrow> bool" where
  "promise_becomes h p rs h' \<longleftrightarrow> promise_ok h' p \<and> reactions h' p = rs \<and> state_of h' p = state_of h p \<and> outcome_of h' p = outcome_of h p"

definition space_in :: "heap \<Rightarrow> handle \<Rightarrow> handle \<Rightarrow> bool" where
  "space_in h p t \<longleftrightarrow> (\<exists>c tc. store h p = Some (ObjectCell, c) \<and> handle_read_at c 40 = Some t \<and>
     store h t = Some (ElementsCell, tc) \<and> read_u32_at tc 0 < read_u32_at tc 4)"

text \<open>The promise is given a list.\<close>

lemma give_list:
  assumes "heap_ok h" "store h p = Some (ObjectCell, c)" "56 \<le> length c" "c ! 20 = 3" "store h t = Some (ElementsCell, tc)" "rx.ok tc"
  shows "\<exists>h'. set_promise_reactions h p t = Inr h' \<and> promise_becomes h p (list_of h t) h' \<and>
    (read_u32_at tc 0 < read_u32_at tc 4 \<longrightarrow> space_in h' p t)"
proof -
  let ?c = "handle_write_at t c 40"
  obtain h' where h': "set_promise_reactions h p t = Inr h'" "heap_ok h'" "store h' = (store h)(p \<mapsto> (ObjectCell, ?c))"
    using with_cell_store [OF assms(1,2), of "\<lambda>cell. Inr (handle_write_at t cell 40)" ?c ObjectHeap]
    by (auto simp: set_promise_reactions_def change_object_def)
  have tp: "t \<noteq> p" using assms(2,5) by auto
  have t': "store h' t = Some (ElementsCell, tc)" using h'(3) tp assms(5) by simp
  have idx: "h_index t \<noteq> none_index" using store_bounds(2) [OF assms(1,5)] .
  have read: "handle_read_at ?c 40 = Some t" using handle_read_write_at [of 40 c t] assms(3) idx by simp
  have bytes: "?c ! 20 = c ! 20" "?c ! 21 = c ! 21" using assms(3) by (simp_all add: handle_write_at_def put_at_nth)
  have slot: "decode_at ?c 28 = decode_at c 28"
    by (rule decode_at_local) (simp_all add: handle_write_at_def get_at_put_other field_put_other)
  have "promise_ok h' p"
    using h'(2,3) assms(3,4,6) read bytes t' by (auto simp: promise_ok_def list_ok_def)
  moreover have "reactions h' p = list_of h t" using h'(3) read t' assms(5) tp by (simp add: reactions_def list_of_def)
  moreover have "state_of h' p = state_of h p" "outcome_of h' p = outcome_of h p"
    using h'(3) assms(2) bytes slot by (simp_all add: state_of_def outcome_of_def)
  moreover have "space_in h' p t" if "read_u32_at tc 0 < read_u32_at tc 4"
    using that h'(3) read t' by (auto simp: space_in_def)
  ultimately show ?thesis using h'(1) by (auto simp: promise_becomes_def)
qed

lemma promise_list:
  assumes "promise_ok h p" "store h p = Some (ObjectCell, c)" "handle_read_at c 40 = Some t"
  obtains tc where "store h t = Some (ElementsCell, tc)" "rx.ok tc" "reactions h p = map reaction_of (rx.elems tc)"
  using assms by (auto simp: promise_ok_def list_ok_def reactions_def list_of_def)

lemma list_capacity_bound:
  assumes "heap_ok h" "store h t = Some (ElementsCell, tc)" "rx.ok tc"
  shows "read_u32_at tc 4 * 2 \<le> u32_max"
  using store_bounds(1) [OF assms(1,2)] assms(3) by (simp add: array_ok_def)

lemma promise_grow_spec:
  assumes "promise_ok h p" "store h p = Some (ObjectCell, c)" "handle_read_at c 40 = Some t" "store h t = Some (ElementsCell, tc)"
    "read_u32_at tc 0 = read_u32_at tc 4"
  shows "case promise_grow h p t (read_u32_at tc 4) of Inl e \<Rightarrow> promise_full e
    | Inr (u, h') \<Rightarrow> promise_becomes h p (reactions h p) h' \<and> space_in h' p u"
proof -
  let ?n = "read_u32_at tc 4"
  let ?big = "max (?n * 2) 4"
  obtain hk: "heap_ok h" and c: "56 \<le> length c" "c ! 20 = 3" using promise_okD [OF assms(1)] assms(2) by auto
  have tc: "rx.ok tc" "reactions h p = map reaction_of (rx.elems tc)"
    using promise_list [OF assms(1-3)] assms(4) by auto
  have big: "max (min (?n * 2) u32_max) 4 = ?big" using list_capacity_bound [OF hk assms(4) tc(1)] by simp
  show ?thesis
  proof (cases "promise_allocate h ?big")
    case (Inl e)
    then show ?thesis using list_reads(1) [OF assms(4)] assms(5) big promise_allocate_error [OF hk Inl]
      by (simp add: promise_grow_def)
  next
    case (Inr r)
    then obtain u h1 where a: "promise_allocate h ?big = Inr (u, h1)" by (cases r) simp
    from promise_allocate_store [OF hk a] obtain uc where h1: "heap_ok h1" "store h u = None"
      "store h1 = (store h)(u \<mapsto> (ElementsCell, uc))" "rx.ok uc" "read_u32_at uc 0 = 0" "read_u32_at uc 4 = ?big" by blast
    have ne: "t \<noteq> u" "p \<noteq> u" using assms(2,4) h1(2) by auto
    have s1: "store h1 t = Some (ElementsCell, tc)" "store h1 u = Some (ElementsCell, uc)" using h1(3) assms(4) ne by simp_all
    have lim: "0 + ?n \<le> read_u32_at tc 4" "0 + ?n \<le> read_u32_at uc 4" using h1(6) by simp_all
    from copy_reactions_store [OF h1(1) s1 ne(1) tc(1) h1(4) lim] obtain h2 uc2 where
      h2: "copy_reactions h1 t u 0 ?n = Inr h2" "heap_ok h2" "store h2 = (store h1)(u \<mapsto> (ElementsCell, uc2))" "rx.ok uc2"
        "read_u32_at uc2 4 = ?big"
      and rec: "\<And>j. j < ?n \<Longrightarrow> reaction_of (nth_of 8 32 uc2 j) = reaction_of (nth_of 8 32 tc j)"
      using h1(6) by auto
    have s2: "store h2 u = Some (ElementsCell, uc2)" using h2(3) by simp
    have le: "?n \<le> read_u32_at uc2 4" using h2(5) by simp
    obtain h3 where h3: "set_reaction_count h2 u ?n = Inr h3" "heap_ok h3" "store h3 = (store h2)(u \<mapsto> (ElementsCell, write_u32 uc2 0 ?n))"
      by (rule set_count_spec [OF h2(2) s2 h2(4) le])
    note cnt = rx.count_put [OF h2(4) le]
    have s3: "store h3 p = Some (ObjectCell, c)" "store h3 u = Some (ElementsCell, write_u32 uc2 0 ?n)"
      using h3(3) h2(3) h1(3) ne assms(2) by simp_all
    have rows: "list_of h3 u = reactions h p"
      unfolding tc(2) list_of_def s3(2) using cnt(2,5) rec assms(5) by (simp add: array_elems_def)
    obtain h4 where h4: "set_promise_reactions h3 p u = Inr h4" "promise_becomes h3 p (reactions h p) h4" "space_in h4 p u"
      using give_list [OF h3(2) s3(1) c s3(2) cnt(4)] cnt(2,3) h2(5) rows by auto
    have "promise_becomes h p (reactions h p) h4"
      using h4(2) s3(1) assms(2) by (simp add: promise_becomes_def state_of_def outcome_of_def)
    then show ?thesis using list_reads(1) [OF assms(4)] assms(5) big a h2(1) h3(1) h4(1,3) by (simp add: promise_grow_def)
  qed
qed

lemma list_with_room_spec:
  assumes "promise_ok h p"
  shows "case list_with_room h p of Inl e \<Rightarrow> promise_full e
    | Inr (t, h') \<Rightarrow> promise_becomes h p (reactions h p) h' \<and> space_in h' p t"
proof -
  obtain c where c: "heap_ok h" "store h p = Some (ObjectCell, c)" "56 \<le> length c" "c ! 20 = 3" by (rule promise_okD [OF assms])
  note reads = promise_reads [OF c(2,3)]
  show ?thesis
  proof (cases "handle_read_at c 40")
    case None
    then have code: "list_with_room h p = and_then (promise_allocate h 4) (\<lambda>(t, h).
        and_then (map_err PromiseObject (set_promise_reactions h p t)) (\<lambda>h. Inr (t, h)))"
      using reads(5) by (simp add: list_with_room_def)
    have nil: "reactions h p = []" using c(2) None by (simp add: reactions_def)
    show ?thesis
    proof (cases "promise_allocate h 4")
      case (Inl e)
      then show ?thesis using code promise_allocate_error [OF c(1) Inl] by simp
    next
      case (Inr r)
      then obtain t h1 where a: "promise_allocate h 4 = Inr (t, h1)" by (cases r) simp
      from promise_allocate_store [OF c(1) a] obtain tc where h1: "heap_ok h1" "store h t = None"
        "store h1 = (store h)(t \<mapsto> (ElementsCell, tc))" "rx.ok tc" "read_u32_at tc 0 = 0" "read_u32_at tc 4 = 4" by blast
      have "p \<noteq> t" using c(2) h1(2) by auto
      then have s1: "store h1 p = Some (ObjectCell, c)" "store h1 t = Some (ElementsCell, tc)" using h1(3) c(2) by simp_all
      have "list_of h1 t = []" using s1(2) h1(5) by (simp add: list_of_def array_elems_def)
      then obtain h2 where h2: "set_promise_reactions h1 p t = Inr h2" "promise_becomes h1 p [] h2" "space_in h2 p t"
        using give_list [OF h1(1) s1(1) c(3,4) s1(2) h1(4)] h1(5,6) by auto
      have "promise_becomes h p [] h2"
        using h2(2) s1(1) c(2) by (simp add: promise_becomes_def state_of_def outcome_of_def)
      then show ?thesis using code a h2(1,3) nil by simp
    qed
  next
    case (Some t)
    obtain tc where tc: "store h t = Some (ElementsCell, tc)" "rx.ok tc" by (rule promise_list [OF assms c(2) Some])
    have code: "list_with_room h p = (if read_u32_at tc 0 = read_u32_at tc 4 then promise_grow h p t (read_u32_at tc 4) else Inr (t, h))"
      using reads(5) Some list_reads(1,2) [OF tc(1)] by (simp add: list_with_room_def)
    show ?thesis
    proof (cases "read_u32_at tc 0 = read_u32_at tc 4")
      case True
      then show ?thesis using promise_grow_spec [OF assms c(2) Some tc(1) True] code by simp
    next
      case False
      then have "space_in h p t" using c(2) Some tc by (auto simp: space_in_def array_ok_def)
      then show ?thesis using False code assms by (simp add: promise_becomes_def)
    qed
  qed
qed

lemma append_with_room:
  assumes "promise_ok h p" "reaction_wf (f, g, d)" "list_with_room h p = Inr (t, h1)"
  shows "\<exists>h'. promise_append h p f g d = Inr h' \<and> promise_becomes h p (reactions h p @ [(f, g, d)]) h'"
proof -
  note w = assms(3)
  have h1: "promise_becomes h p (reactions h p) h1" "space_in h1 p t" using list_with_room_spec [OF assms(1)] w by simp_all
  then have ok1: "promise_ok h1 p" "reactions h1 p = reactions h p" by (simp_all add: promise_becomes_def)
  obtain c where c: "heap_ok h1" "store h1 p = Some (ObjectCell, c)" "56 \<le> length c" "c ! 20 = 3" by (rule promise_okD [OF ok1(1)])
  obtain tc where tc: "handle_read_at c 40 = Some t" "store h1 t = Some (ElementsCell, tc)" "read_u32_at tc 0 < read_u32_at tc 4"
    using h1(2) c(2) by (auto simp: space_in_def)
  have ok: "rx.ok tc" and rows: "reactions h p = map reaction_of (rx.elems tc)"
    using promise_list [OF ok1(1) c(2) tc(1)] tc(2) ok1(2) by auto
  obtain h2 r where h2: "write_reaction h1 t (read_u32_at tc 0) f g d = Inr h2" "heap_ok h2"
    "store h2 = (store h1)(t \<mapsto> (ElementsCell, put_at tc (8 + read_u32_at tc 0 * 32) r))" "length r = 32" "reaction_of r = (f, g, d)"
    by (rule write_reaction_spec [OF c(1) tc(2) ok tc(3) assms(2)])
  let ?mid = "put_at tc (8 + read_u32_at tc 0 * 32) r" and ?n = "read_u32_at tc 0 + 1"
  note put = rx.record_put [OF ok tc(3) h2(4)] and push = rx.record_push [OF ok tc(3) h2(4)]
  have wrap: "wadd32 (read_u32_at tc 0) 1 = ?n" using tc(3) read_u32_at_le [of tc 4] by (simp add: wadd32_def)
  have s2: "store h2 t = Some (ElementsCell, ?mid)" using h2(3) by simp
  have le: "?n \<le> read_u32_at ?mid 4" using put(3) tc(3) by simp
  obtain h3 where h3: "set_reaction_count h2 t ?n = Inr h3" "heap_ok h3" "store h3 = (store h2)(t \<mapsto> (ElementsCell, write_u32 ?mid 0 ?n))"
    by (rule set_count_spec [OF h2(2) s2 put(4) le])
  have ne: "t \<noteq> p" using c(2) tc(2) by auto
  have s3: "store h3 p = Some (ObjectCell, c)" "store h3 t = Some (ElementsCell, write_u32 ?mid 0 ?n)"
    using h3(3) h2(3) ne c(2) by simp_all
  have "promise_ok h3 p" using h3(2) s3 c(3,4) tc(1) push(2) by (auto simp: promise_ok_def list_ok_def)
  moreover have "reactions h3 p = reactions h p @ [(f, g, d)]"
    using s3 tc(1) push(3) h2(5) rows by (simp add: reactions_def list_of_def)
  moreover have "state_of h3 p = state_of h p" "outcome_of h3 p = outcome_of h p"
    using h1(1) s3(1) c(2) by (simp_all add: promise_becomes_def state_of_def outcome_of_def)
  ultimately have "promise_becomes h p (reactions h p @ [(f, g, d)]) h3" by (simp add: promise_becomes_def)
  then show ?thesis using w list_reads(1) [OF tc(2)] h2(1) h3(1) wrap by (simp add: promise_append_def)
qed


lemma promise_append_spec:
  assumes "promise_ok h p" "reaction_wf (f, g, d)"
  shows "case promise_append h p f g d of Inl e \<Rightarrow> promise_full e
    | Inr h' \<Rightarrow> promise_becomes h p (reactions h p @ [(f, g, d)]) h'"
proof (cases "list_with_room h p")
  case (Inl e)
  then show ?thesis using list_with_room_spec [OF assms(1)] by (simp add: promise_append_def)
next
  case (Inr x)
  then show ?thesis using append_with_room [OF assms] by (cases x) auto
qed

text \<open>The first reaction is attached when the heap has room for a list.\<close>

lemma append_first_reaction:
  assumes "promise_ok h p" "reaction_wf (f, g, d)" "promise_reactions h p = Inr None" "heap_allocate h ElementsCell 136 = Inr r"
  shows "\<exists>h'. promise_append h p f g d = Inr h'"
proof -
  obtain c where c: "heap_ok h" "store h p = Some (ObjectCell, c)" "56 \<le> length c" "c ! 20 = 3"
    using promise_okD [OF assms(1)] by blast
  obtain t h1 where a: "heap_allocate h ElementsCell 136 = Inr (t, h1)" using assms(4) by (cases r) simp
  note law = cells.alloc_law [OF c(1) _ a]
  obtain h2 where h2: "promise_allocate h 4 = Inr (t, h2)"
    using change_list [of h1 t "replicate 136 0" "\<lambda>cell. if length cell < 8 then Inl (PromiseObject IndexPanic)
      else Inr (write_u32 (write_u32 cell 0 0) 4 4)"] law a by (auto simp: promise_allocate_def)
  from promise_allocate_store [OF c(1) this] obtain tc where s2: "heap_ok h2" "store h t = None"
    "store h2 = (store h)(t \<mapsto> (ElementsCell, tc))" "rx.ok tc" by blast
  have "p \<noteq> t" using c(2) s2(2) by auto
  then have "store h2 p = Some (ObjectCell, c)" "store h2 t = Some (ElementsCell, tc)" using s2(3) c(2) by simp_all
  from give_list [OF s2(1) this(1) c(3,4) this(2) s2(4)] obtain h3 where "set_promise_reactions h2 p t = Inr h3" by blast
  then have "list_with_room h p = Inr (t, h3)" using assms(3) h2 by (simp add: list_with_room_def)
  from append_with_room [OF assms(1,2) this] show ?thesis by blast
qed

subsection \<open>Settling\<close>

text \<open>The jobs one reaction becomes: its handler's, or with no handler the derived promise's, if it has one.\<close>

definition jobs_of :: "byte \<Rightarrow> jsvalue \<Rightarrow> reaction \<Rightarrow> job list" where
  "jobs_of state v x = (case x of (f, g, d) \<Rightarrow>
     let handler = (if state = FULFILLED then f else g) in
     if v_tag handler = Undefined then
       (if v_tag d = Object then [\<lparr>j_kind = Settle, j_target = d, j_argument = v, j_derived = v_number (f64_from_u8 state)\<rparr>] else [])
     else [\<lparr>j_kind = Reaction, j_target = handler, j_argument = v, j_derived = d\<rparr>])"

definition room_in :: "queue \<Rightarrow> nat" where
  "room_in q = queue_capacity q - length (queue_contents q)"

lemma queue_within: "queue_wf q \<Longrightarrow> length (queue_contents q) \<le> queue_capacity q"
  by (simp add: queue_wf_def queue_contents_def queue_capacity_def)

lemma push_spec:
  assumes "queue_wf q"
  shows "if 0 < room_in q then \<exists>q'. queue_push q j = Inr q' \<and> queue_contents q' = queue_contents q @ [j] \<and> queue_wf q' \<and>
      queue_capacity q' = queue_capacity q else queue_push q j = Inl Full"
proof (cases "0 < room_in q")
  case True
  then obtain q' where q': "queue_push q j = Inr q'" using ring.push_accepts [OF assms, of j] by (auto simp: room_in_def)
  then show ?thesis using True ring.push_contents [OF assms q'] ring.push_invar [OF assms q'] by simp
next
  case False
  have "\<nexists>q'. queue_push q j = Inr q'" using ring.push_accepts [OF assms, of j] False by (simp add: room_in_def)
  then show ?thesis using False by (cases "queue_push q j") (auto intro: queue_error.exhaust)
qed

lemma enqueue_spec:
  fixes f g d v :: jsvalue and state :: byte
  assumes "queue_wf q"
  defines "jobs \<equiv> jobs_of state v (f, g, d)"
  shows "if length jobs \<le> room_in q
    then \<exists>q'. promise_enqueue q state (if state = FULFILLED then f else g) v d = Inr q' \<and>
      queue_contents q' = queue_contents q @ jobs \<and> queue_wf q' \<and> queue_capacity q' = queue_capacity q
    else promise_enqueue q state (if state = FULFILLED then f else g) v d = Inl (PromiseQueue Full) \<and> room_in q = 0"
proof -
  define handler where "handler = (if state = FULFILLED then f else g)"
  have jobs: "jobs = (if v_tag handler = Undefined then
      (if v_tag d = Object then [\<lparr>j_kind = Settle, j_target = d, j_argument = v, j_derived = v_number (f64_from_u8 state)\<rparr>] else [])
     else [\<lparr>j_kind = Reaction, j_target = handler, j_argument = v, j_derived = d\<rparr>])"
    by (simp add: jobs_def jobs_of_def handler_def Let_def)
  consider (silent) "jobs = []" "promise_enqueue q state handler v d = Inr q"
    | (one) j where "jobs = [j]" "promise_enqueue q state handler v d = map_err PromiseQueue (queue_push q j)"
    unfolding jobs promise_enqueue_def by (cases "v_tag handler = Undefined"; cases "v_tag d = Object") auto
  then show ?thesis
    unfolding handler_def [symmetric]
  proof cases
    case silent
    then show "if length jobs \<le> room_in q then \<exists>q'. promise_enqueue q state handler v d = Inr q' \<and>
        queue_contents q' = queue_contents q @ jobs \<and> queue_wf q' \<and> queue_capacity q' = queue_capacity q
      else promise_enqueue q state handler v d = Inl (PromiseQueue Full) \<and> room_in q = 0"
      using assms(1) by simp
  next
    case (one j)
    then show "if length jobs \<le> room_in q then \<exists>q'. promise_enqueue q state handler v d = Inr q' \<and>
        queue_contents q' = queue_contents q @ jobs \<and> queue_wf q' \<and> queue_capacity q' = queue_capacity q
      else promise_enqueue q state handler v d = Inl (PromiseQueue Full) \<and> room_in q = 0"
      using push_spec [OF assms(1), of j] by (cases "0 < room_in q") auto
  qed
qed

lemma enqueue_reactions_spec:
  fixes v :: jsvalue and state :: byte
  assumes "store h t = Some (ElementsCell, tc)" "rx.ok tc" "i + left \<le> read_u32_at tc 4" "queue_wf q"
  defines "jobs \<equiv> concat (map (\<lambda>j. jobs_of state v (reaction_of (nth_of 8 32 tc j))) [i..<i + left])"
  shows "\<exists>q'. enqueue_reactions h t state v i left q = (q', if length jobs \<le> room_in q then None else Some (PromiseQueue Full)) \<and>
    queue_contents q' = queue_contents q @ take (room_in q) jobs \<and> queue_wf q' \<and> queue_capacity q' = queue_capacity q"
  using assms(3,4) unfolding jobs_def
proof (induction left arbitrary: i q)
  case (Suc left)
  obtain f g d where x: "reaction_of (nth_of 8 32 tc i) = (f, g, d)" by (cases "reaction_of (nth_of 8 32 tc i)")
  define first where "first = jobs_of state v (f, g, d)"
  define rest where "rest = concat (map (\<lambda>j. jobs_of state v (reaction_of (nth_of 8 32 tc j))) [i + 1..<i + 1 + left])"
  have all: "concat (map (\<lambda>j. jobs_of state v (reaction_of (nth_of 8 32 tc j))) [i..<i + Suc left]) = first @ rest"
  proof -
    have "[i..<i + Suc left] = i # [i + 1..<i + 1 + left]" by (simp add: upt_conv_Cons)
    then show ?thesis by (simp only: list.map concat.simps x first_def rest_def)
  qed
  have lim: "i < read_u32_at tc 4" "i + 1 + left \<le> read_u32_at tc 4" using Suc.prems(1) by simp_all
  note read = list_reads(3) [OF assms(1,2) lim(1), unfolded x]
  show ?case
  proof (cases "length first \<le> room_in q")
    case True
    then obtain q1 where q1: "promise_enqueue q state (if state = FULFILLED then f else g) v d = Inr q1"
      "queue_contents q1 = queue_contents q @ first" "queue_wf q1" "queue_capacity q1 = queue_capacity q"
      using enqueue_spec [OF Suc.prems(2), of state v f g d] by (auto simp: first_def)
    have room: "room_in q1 = room_in q - length first" using q1(2,4) by (simp add: room_in_def)
    from Suc.IH [OF lim(2) q1(3), folded rest_def] obtain q' where
      q': "enqueue_reactions h t state v (i + 1) left q1 = (q', if length rest \<le> room_in q1 then None else Some (PromiseQueue Full))"
        "queue_contents q' = queue_contents q1 @ take (room_in q1) rest" "queue_wf q'" "queue_capacity q' = queue_capacity q1" by blast
    have "enqueue_reactions h t state v i (Suc left) q =
        (q', if length (first @ rest) \<le> room_in q then None else Some (PromiseQueue Full))"
      using read q1(1) q'(1) room True by auto
    then show ?thesis unfolding all using q'(2-4) q1(2,4) room True by simp
  next
    case False
    then have "promise_enqueue q state (if state = FULFILLED then f else g) v d = Inl (PromiseQueue Full)" "room_in q = 0"
      using enqueue_spec [OF Suc.prems(2), of state v f g d] by (auto simp: first_def)
    then show ?thesis unfolding all using read False Suc.prems(2) by simp
  qed
qed simp


lemma settle_promise_spec:
  fixes v :: jsvalue and state :: byte
  assumes "store h p = Some (ObjectCell, c)" "heap_ok h" "56 \<le> length c" "state_of h p = 0"
  defines "c' \<equiv> encode_at v (put_at c 21 [state]) 28"
  shows "\<exists>h'. settle_promise h p state v = Inr (True, h') \<and> heap_ok h' \<and> store h' = (store h)(p \<mapsto> (ObjectCell, c'))"
proof -
  have st: "promise_state h p = Inr 0" using promise_reads(3) [OF assms(1,3)] assms(4) by simp
  let ?change = "\<lambda>cell. and_then (set_byte IndexPanic cell 21 state) (\<lambda>cell. Inr (encode_at v cell 28)) :: object_error + byte list"
  have "?change c = Inr c'" using assms(3) by (simp add: set_byte_def c'_def)
  then show ?thesis
    using with_cell_store [OF assms(2,1), of ?change c' ObjectHeap] st by (auto simp: settle_promise_def change_object_def c'_def)
qed

lemma settled_cell:
  fixes state :: byte
  assumes "56 \<le> length c" "value_wf v"
  defines "c' \<equiv> encode_at v (put_at c 21 [state]) 28"
  shows "length c' = length c" "c' ! 20 = c ! 20" "c' ! 21 = state" "decode_at c' 28 = v" "handle_read_at c' 40 = handle_read_at c 40"
proof -
  show "length c' = length c" by (simp add: c'_def)
  show "c' ! 20 = c ! 20" "c' ! 21 = state" using assms(1) by (simp_all add: c'_def encode_at_def put_at_nth)
  show "decode_at c' 28 = v" unfolding c'_def by (rule decode_encode_at [OF assms(2)]) (use assms(1) in \<open>simp add: encoded_def\<close>)
  show "handle_read_at c' 40 = handle_read_at c 40"
    by (simp add: c'_def handle_read_at_def encode_at_def field_put_other)
qed

text \<open>Settling a pending promise, whatever the room in the queue.\<close>

lemma settle_spec:
  fixes state :: byte and v :: jsvalue
  assumes "promise_ok h p" "state_of h p = PENDING" "value_wf v" "queue_wf q"
  defines "jobs \<equiv> concat (map (jobs_of state v) (reactions h p))"
  shows "\<exists>h' q'. settle h q p state v = (if length jobs \<le> room_in q then Inr True else Inl (PromiseQueue Full), h', q') \<and>
    promise_ok h' p \<and> state_of h' p = state \<and> outcome_of h' p = v \<and> queue_wf q' \<and>
    reactions h' p = (if length jobs \<le> room_in q then [] else reactions h p) \<and>
    queue_contents q' = queue_contents q @ take (room_in q) jobs"
proof -
  obtain c where c: "heap_ok h" "store h p = Some (ObjectCell, c)" "56 \<le> length c" "c ! 20 = 3"
    using promise_okD [OF assms(1)] by blast
  let ?c = "encode_at v (put_at c 21 [state]) 28"
  obtain h1 where h1: "settle_promise h p state v = Inr (True, h1)" "heap_ok h1" "store h1 = (store h)(p \<mapsto> (ObjectCell, ?c))"
    using settle_promise_spec [OF c(2,1,3) assms(2)] by blast
  note sc = settled_cell [OF c(3) assms(3), of state]
  have p1: "store h1 p = Some (ObjectCell, ?c)" using h1(3) by simp
  have len1: "56 \<le> length ?c" using sc(1) c(3) by simp
  have re: "promise_reactions h1 p = Inr (handle_read_at c 40)" using promise_reads(5) [OF p1 len1] sc(5) by simp
  have start: "is_promise h p = Inr True" using promise_reads(2) [OF c(2,3)] c(4) by simp
  have fields: "state_of h1 p = state" "outcome_of h1 p = v" using p1 sc(3,4) by (simp_all add: state_of_def outcome_of_def)
  show ?thesis
  proof (cases "handle_read_at c 40")
    case None
    then have nil: "reactions h p = []" "reactions h1 p = []" using c(2) p1 sc(5) by (simp_all add: reactions_def)
    have "promise_ok h1 p" using h1(2) p1 len1 sc(2,5) c(4) None by (simp add: promise_ok_def)
    moreover have "settle h q p state v = (Inr True, h1, q)" using start h1(1) re None by (simp add: settle_def)
    ultimately show ?thesis using nil fields assms(4) by (simp add: jobs_def)
  next
    case (Some t)
    obtain tc where tc: "store h t = Some (ElementsCell, tc)" "rx.ok tc" "reactions h p = map reaction_of (rx.elems tc)"
      by (rule promise_list [OF assms(1) c(2) Some])
    have ne: "t \<noteq> p" using tc(1) c(2) by auto
    have t1: "store h1 t = Some (ElementsCell, tc)" using h1(3) tc(1) ne by simp
    let ?n = "read_u32_at tc 0"
    have le: "0 + ?n \<le> read_u32_at tc 4" using tc(2) by (simp add: array_ok_def)
    have jobs: "jobs = concat (map (\<lambda>j. jobs_of state v (reaction_of (nth_of 8 32 tc j))) [0..<0 + ?n])"
      by (simp add: jobs_def tc(3) array_elems_def o_def)
    obtain q' where q': "enqueue_reactions h1 t state v 0 ?n q = (q', if length jobs \<le> room_in q then None else Some (PromiseQueue Full))"
      "queue_contents q' = queue_contents q @ take (room_in q) jobs" "queue_wf q'"
      using enqueue_reactions_spec [OF t1 tc(2) le assms(4), of state v] unfolding jobs by blast
    have code: "settle h q p state v = settle_reactions h1 q t state v" using start h1(1) re Some by (simp add: settle_def)
    show ?thesis
    proof (cases "length jobs \<le> room_in q")
      case True
      obtain h2 where h2: "set_reaction_count h1 t 0 = Inr h2" "heap_ok h2" "store h2 = (store h1)(t \<mapsto> (ElementsCell, write_u32 tc 0 0))"
        by (rule set_count_spec [OF h1(2) t1 tc(2), of 0]) simp
      note cnt = rx.count_put [OF tc(2), of 0, simplified]
      have s2: "store h2 p = Some (ObjectCell, ?c)" "store h2 t = Some (ElementsCell, write_u32 tc 0 0)" using h2(3) p1 ne by simp_all
      have "promise_ok h2 p" using h2(2) s2 len1 sc(2,5) c(4) Some cnt(4) by (auto simp: promise_ok_def list_ok_def)
      moreover have "reactions h2 p = []" using s2 sc(5) Some cnt(2) by (simp add: reactions_def list_of_def array_elems_def)
      moreover have "state_of h2 p = state" "outcome_of h2 p = v" using s2(1) sc(3,4) by (simp_all add: state_of_def outcome_of_def)
      moreover have "settle h q p state v = (Inr True, h2, q')"
        using code list_reads(1) [OF t1] q'(1) h2(1) True by (simp add: settle_reactions_def)
      ultimately show ?thesis using q'(2,3) True by simp
    next
      case False
      have "promise_ok h1 p" using h1(2) p1 len1 sc(2,5) c(4) Some t1 tc(2) by (auto simp: promise_ok_def list_ok_def)
      moreover have "reactions h1 p = reactions h p" using p1 sc(5) Some t1 tc by (simp add: reactions_def list_of_def)
      moreover have "settle h q p state v = (Inl (PromiseQueue Full), h1, q')"
        using code list_reads(1) [OF t1] q'(1) False by (simp add: settle_reactions_def)
      ultimately show ?thesis using q'(2,3) fields False by simp
    qed
  qed
qed

lemma settle_again:
  assumes "promise_ok h p" "state_of h p \<noteq> PENDING"
  shows "settle h q p state v = (Inr False, h, q)"
proof -
  obtain c where c: "heap_ok h" "store h p = Some (ObjectCell, c)" "56 \<le> length c" "c ! 20 = 3" by (rule promise_okD [OF assms(1)])
  then show ?thesis using promise_reads [OF c(2,3)] assms(2) by (simp add: settle_def settle_promise_def)
qed

lemma react_pending:
  assumes "promise_ok h p" "state_of h p = PENDING"
  shows "react h q p f g d = and_then (promise_append h p f g d) (\<lambda>h. Inr (h, q))"
proof -
  obtain c where c: "heap_ok h" "store h p = Some (ObjectCell, c)" "56 \<le> length c" "c ! 20 = 3" by (rule promise_okD [OF assms(1)])
  then show ?thesis using promise_reads [OF c(2,3)] assms(2) by (simp add: react_def)
qed

lemma react_settled:
  assumes "promise_ok h p" "state_of h p \<noteq> PENDING" "queue_wf q"
  shows "if length (jobs_of (state_of h p) (outcome_of h p) (f, g, d)) \<le> room_in q
    then \<exists>q'. react h q p f g d = Inr (h, q') \<and>
      queue_contents q' = queue_contents q @ jobs_of (state_of h p) (outcome_of h p) (f, g, d)
    else react h q p f g d = Inl (PromiseQueue Full)"
proof -
  obtain c where c: "heap_ok h" "store h p = Some (ObjectCell, c)" "56 \<le> length c" "c ! 20 = 3" by (rule promise_okD [OF assms(1)])
  then have "react h q p f g d = and_then (promise_enqueue q (state_of h p) (if state_of h p = FULFILLED then f else g) (outcome_of h p) d)
      (\<lambda>q. Inr (h, q))"
    using promise_reads [OF c(2,3)] assms(2) by (simp add: react_def)
  then show ?thesis using enqueue_spec [OF assms(3), of "state_of h p" "outcome_of h p" f g d] by (auto split: if_splits)
qed


subsection \<open>From attachment to job\<close>

text \<open>Reactions attached one after the other.\<close>

fun attach_all :: "heap \<Rightarrow> queue \<Rightarrow> handle \<Rightarrow> reaction list \<Rightarrow> promise_error + heap \<times> queue" where
  "attach_all h q p [] = Inr (h, q)"
| "attach_all h q p ((f, g, d) # rs) = and_then (react h q p f g d) (\<lambda>(h, q). attach_all h q p rs)"

lemma attach_all_waits:
  assumes "promise_ok h p" "state_of h p = PENDING" "\<forall>x \<in> set rs. reaction_wf x" "attach_all h q p rs = Inr (h', q')"
  shows "q' = q \<and> promise_ok h' p \<and> state_of h' p = PENDING \<and> reactions h' p = reactions h p @ rs"
  using assms
proof (induction rs arbitrary: h)
  case (Cons x rs)
  obtain f g d where x: "x = (f, g, d)" by (cases x)
  have wf: "reaction_wf (f, g, d)" using Cons.prems(3) x by simp
  obtain h1 where a: "promise_append h p f g d = Inr h1" and rest: "attach_all h1 q p rs = Inr (h', q')"
    using Cons.prems(4) react_pending [OF Cons.prems(1,2)] unfolding x by (auto simp: and_then_Inr)
  have b: "promise_becomes h p (reactions h p @ [(f, g, d)]) h1" using promise_append_spec [OF Cons.prems(1) wf] a by simp
  then have h1: "promise_ok h1 p" "state_of h1 p = PENDING" "reactions h1 p = reactions h p @ [x]"
    using Cons.prems(2) x by (simp_all add: promise_becomes_def)
  show ?case using Cons.IH [OF h1(1,2) _ rest] Cons.prems(3) h1(3) by simp
qed simp

text \<open>C23: every reaction runs, once and in order, when the queue has room for the jobs. Whatever reactions were attached
  to a pending promise, through any growth of its list and with the queue untouched meanwhile, settling it while the
  queue has room for all their jobs makes exactly those jobs, in the order of attachment, behind what the queue held.
  A reaction makes one job, or none when it has neither a handler for the outcome nor a derived promise. The promise
  keeps its outcome, every later attempt to settle it answers false and changes nothing, and a reaction attached
  afterwards is queued at once if its job fits.\<close>

theorem promise_reactions_run:
  assumes "promise_ok h p" "state_of h p = PENDING" "reactions h p = []" "\<forall>x \<in> set rs. reaction_wf x"
    "attach_all h q p rs = Inr (h1, q1)" "queue_wf q" "value_wf v" "state \<noteq> PENDING"
    "length (concat (map (jobs_of state v) rs)) \<le> room_in q"
  shows "\<exists>h2 q2. settle h1 q1 p state v = (Inr True, h2, q2) \<and>
    queue_contents q2 = queue_contents q @ concat (map (jobs_of state v) rs) \<and> reactions h2 p = [] \<and>
    state_of h2 p = state \<and> outcome_of h2 p = v \<and>
    (\<forall>q s w. settle h2 q p s w = (Inr False, h2, q)) \<and>
    (\<forall>q f g d. queue_wf q \<and> length (jobs_of state v (f, g, d)) \<le> room_in q \<longrightarrow>
      (\<exists>q'. react h2 q p f g d = Inr (h2, q') \<and> queue_contents q' = queue_contents q @ jobs_of state v (f, g, d)))"
proof -
  have w: "q1 = q" "promise_ok h1 p" "state_of h1 p = PENDING" "reactions h1 p = rs"
    using attach_all_waits [OF assms(1,2,4,5)] assms(3) by simp_all
  obtain h2 q2 where s: "settle h1 q p state v = (Inr True, h2, q2)" "promise_ok h2 p" "state_of h2 p = state" "outcome_of h2 p = v"
    "reactions h2 p = []" "queue_contents q2 = queue_contents q @ concat (map (jobs_of state v) rs)"
    using settle_spec [OF w(2,3) assms(7,6), of state] w(4) assms(9) by auto
  have live: "state_of h2 p \<noteq> PENDING" using s(3) assms(8) by simp
  have "\<exists>q'. react h2 q p f g d = Inr (h2, q') \<and> queue_contents q' = queue_contents q @ jobs_of state v (f, g, d)"
    if "queue_wf q" "length (jobs_of state v (f, g, d)) \<le> room_in q" for q f g d
    using react_settled [OF s(2) live that(1), of f g d] that(2) s(3,4) by simp
  then show ?thesis using s w(1) settle_again [OF s(2) live] by blast
qed

text \<open>C37: settling into a queue without room for all the jobs loses reactions. The call reports the full queue, but the
  promise is settled already and the first jobs are queued; settling it again answers false and queues nothing,
  so the jobs past the room in the queue are never made.\<close>

theorem settle_full_queue_drops:
  assumes "promise_ok h p" "state_of h p = PENDING" "value_wf v" "queue_wf q" "state \<noteq> PENDING"
    "room_in q < length (concat (map (jobs_of state v) (reactions h p)))"
  shows "\<exists>h' q'. settle h q p state v = (Inl (PromiseQueue Full), h', q') \<and> state_of h' p = state \<and>
    queue_contents q' = queue_contents q @ take (room_in q) (concat (map (jobs_of state v) (reactions h p))) \<and>
    (\<forall>q s w. settle h' q p s w = (Inr False, h', q))"
proof -
  have "\<not> length (concat (map (jobs_of state v) (reactions h p))) \<le> room_in q" using assms(6) by simp
  then obtain h' q' where s: "settle h q p state v = (Inl (PromiseQueue Full), h', q')" "promise_ok h' p" "state_of h' p = state"
    "queue_contents q' = queue_contents q @ take (room_in q) (concat (map (jobs_of state v) (reactions h p)))"
    using settle_spec [OF assms(1-4), of state] by (simp only: if_False) blast
  then have "state_of h' p \<noteq> PENDING" using assms(5) by simp
  then show ?thesis using s settle_again [OF s(2)] by blast
qed

end
