(* ===== verification/Object_Refines.thy ===== *)
theory Object_Refines
  imports Object_Store
begin

text \<open>
  What the object operations do to the abstract state of \<open>Object_Store\<close>, for every outcome: defining,
  assigning and deleting a property, reading through the prototype chain, and listing own keys.
\<close>

unbundle bit_operations_syntax

subsection \<open>Equal values\<close>

definition both_zero :: "jsvalue \<Rightarrow> jsvalue \<Rightarrow> bool" where
  "both_zero a b \<longleftrightarrow> a \<in> {v_number 0, v_number SIGN} \<and> b \<in> {v_number 0, v_number SIGN}"

lemma sign_word_bit: "bit (SIGN :: f64) n \<longleftrightarrow> n = 63"
proof -
  have "SIGN = (push_bit 63 1 :: f64)" by simp
  then have "bit (SIGN :: f64) n \<longleftrightarrow> bit (push_bit 63 1 :: f64) n" by (simp only:)
  also have "\<dots> \<longleftrightarrow> n = 63" unfolding bit_push_bit_iff bit_1_iff by auto
  finally show ?thesis .
qed

lemma word_parts_eq:
  fixes x y :: f64
  assumes "take_bit 63 x = take_bit 63 y" "bit x 63 = bit y 63"
  shows "x = y"
proof (rule bit_word_eqI)
  fix n
  assume "n < LENGTH(64)"
  moreover have "bit (take_bit 63 x) n = bit (take_bit 63 y) n" by (simp only: assms(1))
  ultimately show "bit x n = bit y n" using assms(2) by (cases "n = 63") (auto simp: bit_take_bit_iff)
qed

lemma zero_words: "take_bit 63 (w :: f64) = 0 \<Longrightarrow> w = 0 \<or> w = SIGN"
proof -
  assume z: "take_bit 63 w = 0"
  have s: "take_bit 63 (SIGN :: f64) = 0"
    by (rule bit_word_eqI) (simp only: bit_take_bit_iff sign_word_bit, simp)
  show ?thesis
  proof (cases "bit w 63")
    case True
    have "w = SIGN" by (rule word_parts_eq) (simp only: z s, simp only: True sign_word_bit simp_thms)
    then show ?thesis ..
  next
    case False
    have "w = 0" by (rule word_parts_eq) (simp_all add: z False)
    then show ?thesis ..
  qed
qed

lemma compare_zero_bits:
  assumes "f64_compare x y = 0"
  shows "x = y \<or> (x = 0 \<or> x = SIGN) \<and> (y = 0 \<or> y = SIGN)"
proof (cases "x AND NOT SIGN = 0 \<and> y AND NOT SIGN = 0")
  case True
  then show ?thesis using zero_words [of x] zero_words [of y] unfolding clear_sign by blast
next
  case False
  have "\<not> f64_is_nan x" "\<not> f64_is_nan y" using assms by (auto simp: f64_compare_def split: if_splits)
  then have "\<not> ordered_bits x < ordered_bits y" "\<not> ordered_bits y < ordered_bits x"
    using assms False by (simp_all add: f64_compare_def Let_def split: if_splits)
  then have o: "(if bit x 63 then -1 else 1) * int (unat (take_bit 63 x)) = (if bit y 63 then -1 else 1) * int (unat (take_bit 63 y))"
    unfolding ordered_bits_eq by linarith
  define a where "a = unat (take_bit 63 x)"
  define b where "b = unat (take_bit 63 y)"
  have ab: "(if bit x 63 then -1 else 1) * int a = (if bit y 63 then -1 else 1) * int b" using o by (simp only: a_def b_def)
  show ?thesis
  proof (cases "bit x 63 = bit y 63")
    case True
    then have "a = b" using ab by (auto split: if_splits)
    then have "take_bit 63 x = take_bit 63 y" unfolding a_def b_def by (simp only: word_unat_eq_iff)
    then show ?thesis using word_parts_eq True by blast
  next
    case neq: False
    have "a = 0 \<and> b = 0" using neq ab by (cases "bit x 63"; cases "bit y 63") auto
    then have "take_bit 63 x = 0" "take_bit 63 y = 0" unfolding a_def b_def by (simp_all only: unsigned_eq_0_iff)
    then show ?thesis using zero_words by blast
  qed
qed

lemma strict_equals_same:
  assumes "strict_equals a b = Some True" "value_wf a" "value_wf b"
  shows "a = b \<or> both_zero a b"
proof -
  have t: "v_tag a = v_tag b" using assms(1) by (auto simp: strict_equals_def split: if_splits)
  have ref: "v_payload a = v_payload b" if "as_handle a = as_handle b"
    using that by (metis as_handle_def handle_pack_unpack)
  show ?thesis
  proof (cases "v_tag a = Number")
    case True
    then have "f64_compare (v_payload a) (v_payload b) = 0"
      using assms(1) t by (simp add: strict_equals_def number_equals_def as_number_def)
    from compare_zero_bits [OF this] show ?thesis
    proof
      assume "v_payload a = v_payload b"
      then show ?thesis using t by (cases a; cases b) simp
    next
      assume z: "(v_payload a = 0 \<or> v_payload a = SIGN) \<and> (v_payload b = 0 \<or> v_payload b = SIGN)"
      have "canonical_bits 0 = 0" "canonical_bits SIGN = SIGN" by (simp_all add: canonical_bits_def f64_is_nan_def)
      then have "both_zero a b" using z True t by (cases a; cases b) (auto simp: both_zero_def v_number_def)
      then show ?thesis ..
    qed
  next
    case False
    then have "v_payload a = v_payload b"
      using assms t ref by (cases "v_tag a") (auto simp: strict_equals_def value_wf_def as_boolean_def split: if_splits)
    then show ?thesis using t by (cases a; cases b) simp
  qed
qed

text \<open>Strict equality on the values the constructors make, without the code: the same value that is not a NaN, or
  two zeros.\<close>

definition equal_values :: "jsvalue \<Rightarrow> jsvalue \<Rightarrow> bool" where
  "equal_values a b \<longleftrightarrow> a = b \<and> \<not> (v_tag a = Number \<and> f64_is_nan (v_payload a)) \<or> both_zero a b"

lemma compare_self: "f64_compare x x = 0 \<longleftrightarrow> \<not> f64_is_nan x"
  by (simp add: f64_compare_def Let_def)

lemma compare_zeros: "x = 0 \<or> x = SIGN \<Longrightarrow> y = 0 \<or> y = SIGN \<Longrightarrow> f64_compare x y = 0"
  by (elim disjE) (simp_all add: f64_compare_def f64_is_nan_def Let_def)

lemma strict_equals_iff:
  assumes "value_wf a" "value_wf b"
  shows "strict_equals a b = Some True \<longleftrightarrow> equal_values a b"
proof
  assume eq: "strict_equals a b = Some True"
  from strict_equals_same [OF this assms] show "equal_values a b"
  proof
    assume "a = b"
    then show ?thesis using eq
      by (auto simp: equal_values_def strict_equals_def number_equals_def as_number_def compare_self)
  qed (simp add: equal_values_def)
next
  have zero: "canonical_bits 0 = 0" "canonical_bits SIGN = SIGN" by (simp_all add: canonical_bits_def f64_is_nan_def)
  assume "equal_values a b"
  then show "strict_equals a b = Some True"
    unfolding equal_values_def
  proof (elim disjE conjE)
    assume "a = b" "\<not> (v_tag a = Number \<and> f64_is_nan (v_payload a))"
    then show ?thesis
      by (cases "v_tag a") (simp_all add: strict_equals_def number_equals_def as_number_def compare_self)
  next
    assume "both_zero a b"
    then show ?thesis using zero compare_zeros
      by (auto simp: both_zero_def strict_equals_def number_equals_def as_number_def v_number_def)
  qed
qed

lemma same_reference_eq: "value_wf a \<Longrightarrow> value_wf b \<Longrightarrow> same_reference a b \<longleftrightarrow> a = b"
proof -
  assume wf: "value_wf a" "value_wf b"
  have "v_payload a = v_payload b" if "as_handle a = as_handle b"
    using that by (metis as_handle_def handle_pack_unpack)
  then show ?thesis using wf by (cases a; cases b) (auto simp: same_reference_def value_wf_def)
qed

text \<open>
  When a property may be redefined, as a rule: always when it is configurable; otherwise only by a descriptor that
  is not configurable either, of the same enumerability and kind, with an equal value and no new permission to
  write if it is a data property that is not writable, and with the same getter and setter if it is an accessor.
\<close>

definition may_redefine :: "descriptor \<Rightarrow> descriptor \<Rightarrow> bool" where
  "may_redefine e d \<longleftrightarrow> d_has e attr_CONFIGURABLE \<or>
     \<not> d_has d attr_CONFIGURABLE \<and> d_has d attr_ENUMERABLE = d_has e attr_ENUMERABLE \<and> d_kind d = d_kind e \<and>
     (d_kind e = DataProperty \<and> \<not> d_has e attr_WRITABLE \<longrightarrow>
        \<not> d_has d attr_WRITABLE \<and> equal_values (d_value e) (d_value d)) \<and>
     (d_kind e = AccessorProperty \<longrightarrow> d_getter d = d_getter e \<and> d_setter d = d_setter e)"

lemma descriptor_wf_values:
  "descriptor_wf d \<Longrightarrow> value_wf (d_value d)" "descriptor_wf d \<Longrightarrow> value_wf (d_getter d)" "descriptor_wf d \<Longrightarrow> value_wf (d_setter d)"
  by (cases "d_kind d"; auto simp: descriptor_wf_def value_wf_def v_undefined_def v_object_def)+

lemma is_compatible_iff:
  assumes "descriptor_wf e" "descriptor_wf d"
  shows "is_compatible e d \<longleftrightarrow> may_redefine e d"
proof -
  note wf = descriptor_wf_values [OF assms(1)] descriptor_wf_values [OF assms(2)]
  have "d_kind e = DataProperty \<or> d_kind e = AccessorProperty" by (cases "d_kind e") simp_all
  then show ?thesis
    unfolding is_compatible_def may_redefine_def
      strict_equals_iff [OF wf(1,4)] same_reference_eq [OF wf(2,5)] same_reference_eq [OF wf(3,6)]
    by (elim disjE) auto
qed

subsection \<open>The other fields of an object\<close>

definition is_object_cell :: "heap \<Rightarrow> handle \<Rightarrow> bool" where
  "is_object_cell h k \<longleftrightarrow> (\<exists>c. store h k = Some (ObjectCell, c))"

definition object_proto :: "heap \<Rightarrow> handle \<Rightarrow> jsvalue" where
  "object_proto h k = (case store h k of Some (_, c) \<Rightarrow> decode_at c object_PROTOTYPE | None \<Rightarrow> v_null)"

definition object_open :: "heap \<Rightarrow> handle \<Rightarrow> bool" where
  "object_open h k = (case store h k of Some (_, c) \<Rightarrow> c ! object_EXTENSIBLE \<noteq> 0 | None \<Rightarrow> False)"

lemma prototype_eq: "objects_ok h \<Longrightarrow> store h k = Some (ObjectCell, c) \<Longrightarrow> prototype h k = Inr (object_proto h k)"
  by (simp add: prototype_def object_cell_store object_proto_def)

lemma is_extensible_eq:
  assumes "objects_ok h" "store h k = Some (ObjectCell, c)"
  shows "is_extensible h k = Inr (object_open h k)"
  using object_cell_store [OF assms] objects_okD(2) [OF assms] assms(2)
  by (simp add: is_extensible_def object_byte_def byte_at_def get_at_def object_open_def)

lemma same_shape_fields:
  assumes "same_shape h h'" "objects_ok h" "store h k = Some (ObjectCell, c)"
  shows "object_proto h' k = object_proto h k" "object_open h' k = object_open h k" "is_object_cell h' k"
proof -
  obtain c' where c': "store h' k = Some (ObjectCell, c')" "kept ObjectCell c c'"
    using same_shapeD(1) [OF assms(1,3)] by blast
  then have r: "object_rest c' = object_rest c" "length c' = length c" "20 \<le> length c'"
    using objects_okD(2) [OF assms(2,3)] by (simp_all add: kept_def)
  show "object_proto h' k = object_proto h k" using rest_prototype [OF r] c'(1) assms(3) by (simp add: object_proto_def)
  have "get_at c' 9 = get_at c 9" by (rule rest_get [OF r]) simp
  then have "c' ! 9 = c ! 9" using r by (simp add: get_at_def)
  then show "object_open h' k = object_open h k" using c'(1) assms(3) by (simp add: object_open_def)
  show "is_object_cell h' k" using c'(1) by (auto simp: is_object_cell_def)
qed

subsection \<open>Define and delete\<close>

text \<open>What a record reads as is always a descriptor the record can hold.\<close>

lemma record_descriptor_wf: "descriptor_wf (record_descriptor r)"
proof -
  have "decode_short_at r 25 = v_undefined \<or> (\<exists>k. decode_short_at r 25 = v_object k \<and> unat (h_generation k) < 65536)"
  proof (cases "get_at r 25 = None \<or> field 4 r 26 = None \<or> field 2 r 30 = None")
    case False
    then obtain b i g where f: "get_at r 25 = Some b" "field 4 r 26 = Some i" "field 2 r 30 = Some g" by auto
    then have "length g = 2" by (auto simp: field_def dest: length_subrange)
    then have "of_le g < 65536" using of_le_bound [of g] by simp
    then show ?thesis using f by (auto simp: decode_short_at_def handle_new_def unat_of_nat)
  qed (auto simp: decode_short_at_def split: option.splits)
  then show ?thesis
    by (auto simp: record_descriptor_def descriptor_wf_def descriptor_data_def descriptor_accessor_def decode_at_wf)
qed

lemma props_wf: "(q, d) \<in> set (props h k) \<Longrightarrow> descriptor_wf d"
proof -
  assume qd: "(q, d) \<in> set (props h k)"
  have "\<forall>(q, d) \<in> set (rows tc). descriptor_wf d" for tc
    by (auto simp: rows_def row_def record_descriptor_wf)
  then show ?thesis using qd by (auto simp: props_def split: option.splits cell_kind.splits)
qed

lemma define_own_property_rows:
  assumes "objects_ok h" "store h k = Some (ObjectCell, c)" "descriptor_wf d"
  shows "case define_own_property h k key d of
      Inr (admitted, h') \<Rightarrow>
        admitted = (case map_of (props h k) key of Some e \<Rightarrow> may_redefine e d | None \<Rightarrow> object_open h k) \<and>
        props_become h k (if admitted then AList.update key d (props h k) else props h k) h'
    | Inl e \<Rightarrow> heap_full e \<and> map_of (props h k) key = None"
proof -
  note c = assms(2)
  have same: "props_become h k (props h k) h" using assms(1) by (simp add: props_become_def)
  show ?thesis
  proof (cases "map_of (props h k) key")
    case (Some e)
    obtain t i tc where f: "find_property h k key = Inr (Some (t, i))" "heap_cell h t = Inr tc" "read_record tc i = Inr e"
      and w: "\<exists>h'. change_object h t (\<lambda>cell. write_record cell i key d) = Inr h' \<and>
         props_become h k (AList.update key d (props h k)) h'"
      by (rule rewrite_property_spec [OF assms(1) c Some assms(3)])
    moreover have "is_compatible e d = may_redefine e d"
      using is_compatible_iff [OF props_wf [OF map_of_SomeD [OF Some]] assms(3)] .
    ultimately show ?thesis using Some same by (auto simp: define_own_property_def merge_descriptor_def)
  next
    case None
    then have "key \<notin> fst ` set (props h k)" by (simp add: map_of_eq_None_iff)
    from append_property_spec [OF assms(1) c this assms(3)]
    show ?thesis
      using None same find_property_None [OF assms(1) c None] is_extensible_eq [OF assms(1) c]
      by (cases "append_property h k key d") (auto simp: define_own_property_def)
  qed
qed

text \<open>C16: defining a property is an update of the object's association list. A key that is there is rewritten
  in place exactly when the rule \<open>may_redefine\<close> lets it, which compares the value of a property that is neither
  configurable nor writable with strict equality (a NaN is refused, a zero may change its sign); a new key goes to
  the end exactly when the object is extensible; otherwise nothing changes and the answer is false. It fails only
  for lack of heap, and no other object, no other key and no other field of the object is touched, even when
  the table grows. The descriptor is one that a record can hold (\<open>descriptor_wf\<close>): its values are as the
  constructors make them and its setter is undefined or an object whose generation is below 65536, since the
  record stores a setter in the short form.\<close>

theorem define_own_property_refines:
  assumes "objects_ok h" "is_object_cell h k" "descriptor_wf d"
  shows "case define_own_property h k key d of
      Inr (admitted, h') \<Rightarrow>
        admitted = (case map_of (props h k) key of Some e \<Rightarrow> may_redefine e d | None \<Rightarrow> object_open h k) \<and>
        props_become h k (if admitted then AList.update key d (props h k) else props h k) h'
    | Inl e \<Rightarrow> heap_full e \<and> map_of (props h k) key = None"
  using assms(2) define_own_property_rows [OF assms(1) _ assms(3)] unfolding is_object_cell_def by blast

text \<open>Deleting removes the row and keeps the order of the others.\<close>

lemma object_delete_spec:
  assumes "objects_ok h" "store h k = Some (ObjectCell, c)"
  shows "\<exists>h'. object_delete h k key = Inr (case map_of (props h k) key of None \<Rightarrow> True | Some e \<Rightarrow> d_has e attr_CONFIGURABLE, h') \<and>
    props_become h k (if (case map_of (props h k) key of None \<Rightarrow> True | Some e \<Rightarrow> d_has e attr_CONFIGURABLE)
      then AList.delete key (props h k) else props h k) h'"
proof (rule object_table_cases [OF assms])
  assume "handle_read_at c object_TABLE = None" "props h k = []"
  then show ?thesis using find_property_eq(1) [OF assms] assms(1)
    by (simp add: object_delete_def props_become_def fun_upd_idem)
next
  fix t tc
  assume t: "handle_read_at c object_TABLE = Some t" "store h t = Some (PropertyTableCell, tc)" "table_ok tc" "props h k = rows tc"
  note f = find_property_eq(2) [OF assms t(1,2), of key]
  show ?thesis
  proof (cases "table_index tc key")
    case None
    then have n: "map_of (props h k) key = None" using table_index_map_of [OF t(3), of key] t(4) by simp
    then have "AList.delete key (props h k) = props h k" by (intro delete_id) (simp add: map_of_eq_None_iff)
    then show ?thesis using f None n assms(1) by (simp add: object_delete_def props_become_def fun_upd_idem)
  next
    case (Some i)
    note b = table_index_bound [OF t(3) Some]
    have shape: "table_shape tc" "i < table_cap tc" using t(3) b(1) by (auto simp: table_ok_def table_shape_def)
    let ?e = "snd (rows tc ! i)"
    have m: "map_of (props h k) key = Some ?e" using table_index_map_of [OF t(3), of key] t(4) Some by simp
    have r: "read_record tc i = Inr ?e" using read_record_row [OF shape] b(1) by (simp add: nth_rows)
    let ?change = "\<lambda>cell. Inr (write_u32 (move_records cell i (table_n tc - 1 - i)) 0 (table_n tc - 1)) :: object_error + byte list"
    note rm = remove_row [OF t(3) b]
    obtain h' where h': "change_object h t ?change = Inr h'" "heap_ok h'"
      "store h' = (store h)(t \<mapsto> (PropertyTableCell, write_u32 (move_records tc i (table_n tc - 1 - i)) 0 (table_n tc - 1)))"
      using with_cell_store [OF objects_okD(1) [OF assms] t(2), of ?change _ ObjectHeap] rm(3) by (auto simp: change_object_def)
    have p: "props_become h k (AList.delete key (props h k)) h'"
      using table_rewritten [OF assms t(1,2) h'(2,3) rm(1,3)] rm(2) t(4) by (simp add: props_become_def)
    have same: "props_become h k (props h k) h" using assms(1) by (simp add: props_become_def)
    show ?thesis
      using f Some m r h'(1) p same store_reads(2) [OF t(2)]
      by (cases "d_has ?e attr_CONFIGURABLE") (simp_all add: object_delete_def table_count_def)
  qed
qed

text \<open>C20: deleting a property removes its row and nothing else. It always returns; the answer is false exactly when the
  object has the property and it is not configurable, and then nothing changes; otherwise the key is gone, the other
  properties keep their order, and no other object is touched.\<close>

theorem object_delete_refines:
  assumes "objects_ok h" "is_object_cell h k"
  shows "\<exists>b h'. object_delete h k key = Inr (b, h') \<and>
    (b \<longleftrightarrow> \<not> (\<exists>e. map_of (props h k) key = Some e \<and> \<not> d_has e attr_CONFIGURABLE)) \<and>
    objects_ok h' \<and> props h' k = (if b then filter (\<lambda>p. fst p \<noteq> key) (props h k) else props h k) \<and>
    (\<forall>l. l \<noteq> k \<longrightarrow> props h' l = props h l)"
proof -
  obtain c where c: "store h k = Some (ObjectCell, c)" using assms(2) by (auto simp: is_object_cell_def)
  let ?b = "case map_of (props h k) key of None \<Rightarrow> True | Some e \<Rightarrow> d_has e attr_CONFIGURABLE"
  obtain h' where h': "object_delete h k key = Inr (?b, h')"
      "props_become h k (if ?b then AList.delete key (props h k) else props h k) h'"
    using object_delete_spec [OF assms(1) c] by blast
  moreover have "AList.delete key (props h k) = filter (\<lambda>p. fst p \<noteq> key) (props h k)"
    by (simp add: AList.delete_eq case_prod_unfold eq_commute)
  moreover have "?b \<longleftrightarrow> \<not> (\<exists>e. map_of (props h k) key = Some e \<and> \<not> d_has e attr_CONFIGURABLE)"
    by (simp split: option.split)
  ultimately show ?thesis by (auto simp: props_become_def)
qed

subsection \<open>Reading through the prototype chain\<close>

text \<open>Which object of the chain owns a key, and how many prototypes away it is: \<open>None\<close> where the chain ends
  without it.\<close>

inductive owner :: "heap \<Rightarrow> key \<Rightarrow> handle \<Rightarrow> nat \<Rightarrow> handle option \<Rightarrow> bool" for h key where
  here: "map_of (props h k) key \<noteq> None \<Longrightarrow> owner h key k 0 (Some k)"
| nowhere: "map_of (props h k) key = None \<Longrightarrow> v_tag (object_proto h k) \<noteq> Object \<Longrightarrow> owner h key k 0 None"
| above: "map_of (props h k) key = None \<Longrightarrow> v_tag (object_proto h k) = Object \<Longrightarrow>
    owner h key (as_handle (object_proto h k)) n r \<Longrightarrow> owner h key k (Suc n) r"

inductive_simps owner_zero: "owner h key k 0 r"
inductive_simps owner_Suc: "owner h key k (Suc n) r"

lemma parent_object:
  assumes "objects_ok h" "store h k = Some (ObjectCell, c)" "v_tag (object_proto h k) = Object"
  shows "\<exists>pc. store h (as_handle (object_proto h k)) = Some (ObjectCell, pc)"
  using objects_okD(4) [OF assms(1,2)] assms(2,3) by (simp add: object_proto_def)

definition found_at :: "heap \<Rightarrow> key \<Rightarrow> handle option \<Rightarrow> property_lookup" where
  "found_at h key r = (case r of None \<Rightarrow> Absent | Some k \<Rightarrow> lookup_of (the (map_of (props h k) key)))"

lemma get_chain_owner:
  assumes "objects_ok h" "store h k = Some (ObjectCell, c)"
  shows "(\<exists>n r. n \<le> left \<and> owner h key k n r \<and> get_chain h key left k = Inr (found_at h key r)) \<or>
    (get_chain h key left k = Inl PrototypeChainTooDeep \<and> (\<nexists>n r. n \<le> left \<and> owner h key k n r))"
  using assms(2)
proof (induction left arbitrary: k c)
  case 0
  note code = get_chain.simps [of h key 0 k, unfolded get_own_property_eq [OF assms(1) 0] prototype_eq [OF assms(1) 0]]
  show ?case
  proof (cases "map_of (props h k) key")
    case None
    then show ?thesis using code owner.nowhere [OF None]
      by (cases "v_tag (object_proto h k) = Object") (auto simp: found_at_def owner_zero)
  next
    case (Some d)
    then show ?thesis using code owner.here [of h k key] by (auto simp: found_at_def)
  qed
next
  case (Suc left)
  note code = get_chain.simps [of h key "Suc left" k, unfolded get_own_property_eq [OF assms(1) Suc.prems]
      prototype_eq [OF assms(1) Suc.prems]]
  show ?case
  proof (cases "map_of (props h k) key")
    case none: None
    show ?thesis
    proof (cases "v_tag (object_proto h k) = Object")
      case True
      obtain pc where "store h (as_handle (object_proto h k)) = Some (ObjectCell, pc)"
        using parent_object [OF assms(1) Suc.prems True] by blast
      from Suc.IH [OF this] show ?thesis
      proof
        assume "\<exists>n r. n \<le> left \<and> owner h key (as_handle (object_proto h k)) n r \<and>
            get_chain h key left (as_handle (object_proto h k)) = Inr (found_at h key r)"
        then obtain n r where "n \<le> left" "owner h key (as_handle (object_proto h k)) n r"
          "get_chain h key left (as_handle (object_proto h k)) = Inr (found_at h key r)" by blast
        then show ?thesis using owner.above [OF none True] code none True by (intro disjI1 exI [of _ "Suc n"] exI [of _ r]) simp
      next
        assume "get_chain h key left (as_handle (object_proto h k)) = Inl PrototypeChainTooDeep \<and>
            (\<nexists>n r. n \<le> left \<and> owner h key (as_handle (object_proto h k)) n r)"
        moreover have "\<nexists>n r. n \<le> Suc left \<and> owner h key k n r"
        proof (intro notI, elim exE conjE)
          fix n r
          assume "n \<le> Suc left" "owner h key k n r"
          then show False using calculation none True by (cases n) (auto simp: owner_zero owner_Suc)
        qed
        ultimately show ?thesis using code none True by simp
      qed
    next
      case False
      then show ?thesis using code none owner.nowhere [OF none False] by (intro disjI1 exI [of _ 0] exI [of _ None]) (simp add: found_at_def)
    qed
  next
    case (Some d)
    then show ?thesis using code owner.here [of h k key] by (intro disjI1 exI [of _ 0] exI [of _ "Some k"]) (simp add: found_at_def)
  qed
qed

lemma owner_unique: "owner h key k n r \<Longrightarrow> owner h key k m s \<Longrightarrow> n = m \<and> r = s"
proof (induction arbitrary: m s rule: owner.induct)
  case (here k)
  then show ?case by (cases m) (auto simp: owner_zero owner_Suc)
next
  case (nowhere k)
  then show ?case by (cases m) (auto simp: owner_zero owner_Suc)
next
  case (above k n r)
  show ?case
  proof (cases m)
    case 0
    then show ?thesis using above.hyps above.prems by (simp add: owner_zero)
  next
    case (Suc m')
    then have "owner h key (as_handle (object_proto h k)) m' s" using above.prems by (simp add: owner_Suc)
    from above.IH [OF this] show ?thesis using Suc by simp
  qed
qed

text \<open>C18: reading a property follows the prototype chain to the first object that owns the key, and answers
  its value or its getter, or that the property is absent where the chain ends; the chain is followed for 256
  prototypes and a longer one is reported as such.\<close>

theorem object_get_first_owner:
  assumes "objects_ok h" "is_object_cell h k"
  shows "(\<forall>n r. owner h key k n r \<longrightarrow>
      object_get h k key = (if n \<le> 256 then Inr (found_at h key r) else Inl PrototypeChainTooDeep)) \<and>
    ((\<nexists>n r. owner h key k n r) \<longrightarrow> object_get h k key = Inl PrototypeChainTooDeep)"
proof -
  obtain c where c: "store h k = Some (ObjectCell, c)" using assms(2) by (auto simp: is_object_cell_def)
  have g: "(\<exists>n r. n \<le> 256 \<and> owner h key k n r \<and> object_get h k key = Inr (found_at h key r)) \<or>
      (object_get h k key = Inl PrototypeChainTooDeep \<and> (\<nexists>n r. n \<le> 256 \<and> owner h key k n r))"
    unfolding object_get_def by (rule get_chain_owner [OF assms(1) c])
  have found: "object_get h k key = (if n \<le> 256 then Inr (found_at h key r) else Inl PrototypeChainTooDeep)"
    if o: "owner h key k n r" for n r
  proof -
    from g show ?thesis
    proof
      assume "\<exists>m s. m \<le> 256 \<and> owner h key k m s \<and> object_get h k key = Inr (found_at h key s)"
      then obtain m s where "m \<le> 256" "owner h key k m s" "object_get h k key = Inr (found_at h key s)" by blast
      then show ?thesis using owner_unique [OF o] by auto
    next
      assume "object_get h k key = Inl PrototypeChainTooDeep \<and> (\<nexists>n r. n \<le> 256 \<and> owner h key k n r)"
      then show ?thesis using o by auto
    qed
  qed
  show ?thesis
  proof (intro conjI allI impI)
    assume "\<nexists>n r. owner h key k n r"
    then show "object_get h k key = Inl PrototypeChainTooDeep" using g by auto
  qed (rule found)
qed

subsection \<open>Assignment\<close>

lemma inherited_not_done: "inherited_decides d \<noteq> Some AssignDone"
  by (cases "d_kind d") (simp_all add: inherited_decides_def through_setter_def)

lemma set_chain_decides: "set_chain h key left v \<noteq> Inr (Some AssignDone)"
proof (induction left arbitrary: v)
  case 0
  show ?case
    by (subst set_chain.simps) (auto simp: and_then_Inr inherited_not_done split: option.splits)
next
  case (Suc left)
  then show ?case
    by (subst set_chain.simps) (auto simp: and_then_Inr inherited_not_done split: option.splits)
qed

definition is_data :: "descriptor \<Rightarrow> jsvalue \<Rightarrow> bool" where
  "is_data d v \<longleftrightarrow> d_kind d = DataProperty \<and> d_value d = v"

lemma object_set_spec:
  assumes "objects_ok h" "store h k = Some (ObjectCell, c)" "value_wf v" "object_set h k key v = Inr (a, h')"
  shows "if a = AssignDone then (\<exists>d. is_data d v \<and>
      (\<forall>e. map_of (props h k) key = Some e \<longrightarrow> d_kind e = DataProperty \<and> d_has e attr_WRITABLE \<and> d = e\<lparr>d_value := v\<rparr>) \<and>
      props_become h k (AList.update key d (props h k)) h') else h' = h"
proof (cases "map_of (props h k) key")
  case (Some d)
  have wf: "descriptor_wf d" using props_wf map_of_SomeD [OF Some] by blast
  show ?thesis
  proof (cases "d_kind d = DataProperty \<and> d_has d attr_WRITABLE")
    case True
    then have wf': "descriptor_wf (d\<lparr>d_value := v\<rparr>)" using wf assms(3) by (simp add: descriptor_wf_def)
    obtain t i tc where f: "find_property h k key = Inr (Some (t, i))"
      and w: "\<exists>h'. change_object h t (\<lambda>cell. write_record cell i key (d\<lparr>d_value := v\<rparr>)) = Inr h' \<and>
         props_become h k (AList.update key (d\<lparr>d_value := v\<rparr>) (props h k)) h'"
      by (rule rewrite_property_spec [OF assms(1,2) Some wf'])
    then have "a = AssignDone" "props_become h k (AList.update key (d\<lparr>d_value := v\<rparr>) (props h k)) h'"
      using assms(4) True Some by (auto simp: object_set_def get_own_property_eq [OF assms(1,2)])
    moreover have "is_data (d\<lparr>d_value := v\<rparr>) v" using True by (simp add: is_data_def)
    ultimately show ?thesis using True Some by auto
  next
    case False
    then show ?thesis using assms(4) Some
      by (cases "d_kind d") (auto simp: object_set_def get_own_property_eq [OF assms(1,2)] through_setter_def split: if_splits)
  qed
next
  case None
  then have fresh: "key \<notin> fst ` set (props h k)" by (simp add: map_of_eq_None_iff)
  have "descriptor_wf (descriptor_data v attr_DEFAULT)" using assms(3) by (simp add: descriptor_wf_def descriptor_data_def)
  note ap = append_property_spec [OF assms(1,2) fresh this]
  obtain decided where ch: "set_chain h key 256 (object_proto h k) = Inr decided"
    using assms(4) None
    by (cases "set_chain h key 256 (object_proto h k)")
      (auto simp: object_set_def get_own_property_eq [OF assms(1,2)] prototype_eq [OF assms(1,2)])
  have code: "object_set h k key v = (case decided of Some a \<Rightarrow> Inr (a, h) | None \<Rightarrow>
      if \<not> object_open h k then Inr (AssignRefused, h)
      else and_then (append_property h k key (descriptor_data v attr_DEFAULT)) (\<lambda>h. Inr (AssignDone, h)))"
    using None ch is_extensible_eq [OF assms(1,2)]
    by (simp add: object_set_def get_own_property_eq [OF assms(1,2)] prototype_eq [OF assms(1,2)] cong: option.case_cong)
  show ?thesis
  proof (cases decided)
    case (Some b)
    then show ?thesis using set_chain_decides [of h key 256 "object_proto h k"] ch code assms(4) by auto
  next
    case none: None
    have "is_data (descriptor_data v attr_DEFAULT) v" by (simp add: is_data_def descriptor_data_def)
    then show ?thesis using none code assms(4) ap None
      by (cases "append_property h k key (descriptor_data v attr_DEFAULT)") (auto split: if_splits)
  qed
qed

text \<open>C19: an assignment that is done is read back. Whether it rewrote an own data property or added one to the
  end, the object then has the value as its own, reading the property answers it, and the other keys and
  objects are as before; an assignment that is refused or left to a setter changes nothing.\<close>

theorem object_set_then_get:
  assumes "objects_ok h" "is_object_cell h k" "value_wf v" "object_set h k key v = Inr (a, h')"
  shows "if a = AssignDone
    then object_get h' k key = Inr (LookupValue v) \<and>
      (\<forall>q. q \<noteq> key \<longrightarrow> map_of (props h' k) q = map_of (props h k) q) \<and> (\<forall>l. l \<noteq> k \<longrightarrow> props h' l = props h l)
    else h' = h"
proof (cases "a = AssignDone")
  case True
  obtain c where c: "store h k = Some (ObjectCell, c)" using assms(2) by (auto simp: is_object_cell_def)
  obtain d where d: "is_data d v" "props_become h k (AList.update key d (props h k)) h'"
    using object_set_spec [OF assms(1) c assms(3,4)] True by auto
  have h': "objects_ok h'" "props h' = (props h)(k := AList.update key d (props h k))" "same_shape h h'"
    using d(2) by (simp_all add: props_become_def)
  obtain c' where c': "store h' k = Some (ObjectCell, c')" using same_shapeD(1) [OF h'(3) c] by blast
  have "map_of (props h' k) key = Some d" using h'(2) by (simp add: update_conv')
  then have "object_get h' k key = Inr (LookupValue v)"
    using get_own_property_eq [OF h'(1) c', of key] d(1)
    by (simp add: object_get_def get_chain.simps [of _ _ 256] lookup_of_def is_data_def)
  then show ?thesis using True h'(2) by (simp add: update_conv')
next
  case False
  obtain c where c: "store h k = Some (ObjectCell, c)" using assms(2) by (auto simp: is_object_cell_def)
  show ?thesis using object_set_spec [OF assms(1) c assms(3,4)] False by simp
qed

end
