(* ===== verification/Object_Keys.thy ===== *)
theory Object_Keys
  imports Object_Refines
begin

text \<open>
  The order of own keys. The source finds the integer keys by repeated selection of the next larger one
  and then takes names and symbols in table order; against the abstract state that is the sorted list of
  the integer keys, then the names, then the symbols.
\<close>

definition index_set :: "key list \<Rightarrow> 32 word set" where
  "index_set keys = {v. KeyIndex v \<in> set keys}"

definition is_name_key :: "key \<Rightarrow> bool" where
  "is_name_key k \<longleftrightarrow> \<not> is_index_key k \<and> \<not> is_symbol_key k"

definition ordered_own_keys :: "key list \<Rightarrow> key list" where
  "ordered_own_keys keys =
     map KeyIndex (sorted_list_of_set (index_set keys)) @ filter is_name_key keys @ filter is_symbol_key keys"

text \<open>The keys of a stretch of records.\<close>

definition keys_from :: "byte list \<Rightarrow> nat \<Rightarrow> nat \<Rightarrow> key list" where
  "keys_from cell i left = map (\<lambda>j. fst (row (nth_record cell j))) [i..<i + left]"

lemma keys_from_Suc: "keys_from cell i (Suc left) = fst (row (nth_record cell i)) # keys_from cell (i + 1) left"
  unfolding keys_from_def by (subst upt_conv_Cons) simp_all

lemma keys_from_0 [simp]: "keys_from cell i 0 = []"
  by (simp add: keys_from_def)

lemma keys_from_rows: "keys_from cell 0 (table_n cell) = map fst (rows cell)"
  by (simp add: keys_from_def rows_def)

lemma finite_index_set [simp]: "finite (index_set keys)"
  by (rule finite_subset [of _ UNIV]) simp_all

lemma index_set_Cons:
  "index_set (k # keys) = (case k of KeyIndex v \<Rightarrow> insert v (index_set keys) | _ \<Rightarrow> index_set keys)"
  by (cases k) (auto simp: index_set_def)

definition least_of :: "32 word set \<Rightarrow> 32 word option" where
  "least_of S = (if S = {} then None else Some (Min S))"

definition later :: "32 word option \<Rightarrow> 32 word \<Rightarrow> bool" where
  "later previous v = (case previous of None \<Rightarrow> True | Some p \<Rightarrow> p < v)"

lemma least_of_insert:
  "finite S \<Longrightarrow> (case least_of S of Some b \<Rightarrow> v < b | None \<Rightarrow> True) \<Longrightarrow> least_of (insert v S) = Some v"
  "finite S \<Longrightarrow> \<not> (case least_of S of Some b \<Rightarrow> v < b | None \<Rightarrow> True) \<Longrightarrow> least_of (insert v S) = least_of S"
proof -
  assume fin: "finite S"
  show "least_of (insert v S) = Some v" if "case least_of S of Some b \<Rightarrow> v < b | None \<Rightarrow> True"
  proof (cases "S = {}")
    case False
    then have "v < Min S" using that by (simp add: least_of_def del: Min_gr_iff)
    then have "min v (Min S) = v" by (intro min_absorb1 less_imp_le)
    then show ?thesis using Min_insert [OF fin False, of v] by (simp add: least_of_def)
  qed (simp add: least_of_def)
  show "least_of (insert v S) = least_of S" if "\<not> (case least_of S of Some b \<Rightarrow> v < b | None \<Rightarrow> True)"
  proof (cases "S = {}")
    case False
    then have "\<not> v < Min S" using that by (simp add: least_of_def del: Min_gr_iff)
    then have "min v (Min S) = Min S" by (simp add: min_def del: Min_gr_iff Min_ge_iff)
    then show ?thesis using Min_insert [OF fin False, of v] False by (simp add: least_of_def)
  qed (use that in \<open>simp add: least_of_def\<close>)
qed

lemma next_index_least:
  assumes "table_shape cell" "i + left \<le> table_cap cell" "finite S"
  shows "next_index cell previous i left (least_of S) =
    Inr (least_of ({v \<in> index_set (keys_from cell i left). later previous v} \<union> S))"
  using assms(2,3)
proof (induction left arbitrary: i S)
  case 0
  then show ?case by (simp add: index_set_def)
next
  case (Suc left)
  let ?k = "fst (row (nth_record cell i))" and ?K = "index_set (keys_from cell (i + 1) left)"
  have r: "read_key cell i = Inr ?k" using Suc.prems(1) by (intro read_key_row assms(1)) simp
  have lim: "i + 1 + left \<le> table_cap cell" using Suc.prems(1) by simp
  show ?case
  proof (cases ?k)
    case (KeyIndex v)
    define S' where "S' = (if later previous v then insert v S else S)"
    have "(let after = (case previous of Some p \<Rightarrow> p < v | None \<Rightarrow> True);
        better = (case least_of S of Some b \<Rightarrow> v < b | None \<Rightarrow> True)
      in if after \<and> better then Some v else least_of S) = least_of S'"
      using least_of_insert [OF Suc.prems(2), of v]
      by (auto simp: S'_def later_def Let_def split: option.splits)
    then have "next_index cell previous i (Suc left) (least_of S) = next_index cell previous (i + 1) left (least_of S')"
      using r KeyIndex by simp
    also have "\<dots> = Inr (least_of ({v \<in> ?K. later previous v} \<union> S'))"
      by (rule Suc.IH [OF lim]) (simp add: S'_def Suc.prems(2))
    also have "{v \<in> ?K. later previous v} \<union> S' = {v \<in> index_set (keys_from cell i (Suc left)). later previous v} \<union> S"
      using KeyIndex by (auto simp: S'_def keys_from_Suc index_set_Cons)
    finally show ?thesis .
  qed (use r Suc.IH [OF lim Suc.prems(2)] in \<open>simp_all add: keys_from_Suc index_set_Cons\<close>)
qed

lemma index_keys_sorted:
  assumes "table_shape cell" "n \<le> table_cap cell"
  defines "K \<equiv> index_set (keys_from cell 0 n)"
  shows "index_keys cell n room previous =
    (if card {v \<in> K. later previous v} \<le> room then Inr (map KeyIndex (sorted_list_of_set {v \<in> K. later previous v}))
     else Inl TooManyKeys)"
proof (induction room arbitrary: previous)
  have nx: "next_index cell previous 0 n None = Inr (least_of {v \<in> K. later previous v})" for previous
    using next_index_least [of cell 0 n "{}" previous] assms(1,2) by (simp add: K_def least_of_def)
  have fin: "finite {v \<in> K. later previous v}" for previous by (simp add: K_def)
  {
    case 0
    show ?case using nx fin [of previous] by (subst index_keys.simps) (simp add: least_of_def)
  next
    case (Suc room)
    define S where "S = {v \<in> K. later previous v}"
    have nxS: "next_index cell previous 0 n None = Inr (least_of S)" unfolding S_def by (rule nx)
    have finS: "finite S" unfolding S_def by (rule fin)
    have "index_keys cell n (Suc room) previous =
        (if card S \<le> Suc room then Inr (map KeyIndex (sorted_list_of_set S)) else Inl TooManyKeys)"
    proof (cases "S = {}")
      case True
      then have "index_keys cell n (Suc room) previous = Inr []"
        using nxS by (subst index_keys.simps) (simp add: least_of_def)
      then show ?thesis using True by simp
    next
      case False
      define m where "m = Min S"
      have mS: "m \<in> S" unfolding m_def by (rule Min_in [OF finS False])
      have up: "later previous v" if "m < v" for v
        using mS that by (auto simp: S_def later_def split: option.splits)
      have gt: "m < v" if "v \<in> S" "v \<noteq> m" for v
        using Min_le [OF finS that(1)] that(2) unfolding m_def [symmetric] by (simp add: order.strict_iff_order)
      have rest: "{v \<in> K. later (Some m) v} = S - {m}"
      proof (rule set_eqI)
        fix v
        have "later (Some m) v \<longleftrightarrow> m < v" by (simp add: later_def)
        moreover have "v \<in> S \<longleftrightarrow> v \<in> K \<and> later previous v" by (simp add: S_def)
        ultimately show "v \<in> {v \<in> K. later (Some m) v} \<longleftrightarrow> v \<in> S - {m}"
          using up [of v] gt [of v] by auto
      qed
      have "card S = Suc (card (S - {m}))" by (rule card_Suc_Diff1 [OF finS mS, symmetric])
      moreover have "sorted_list_of_set S = m # sorted_list_of_set (S - {m})"
        unfolding m_def by (rule sorted_list_of_set_nonempty [OF finS False])
      moreover have "least_of S = Some m" using False by (simp add: least_of_def m_def)
      then have "index_keys cell n (Suc room) previous =
          and_then (index_keys cell n room (Some m)) (\<lambda>rest. Inr (KeyIndex m # rest))"
        using nxS by (subst index_keys.simps) simp
      ultimately show ?thesis unfolding Suc.IH rest by simp
    qed
    then show ?case unfolding S_def .
  }
qed

lemma ordered_keys_filter:
  fixes symbols :: bool
  assumes "table_shape cell" "i + left \<le> table_cap cell"
  defines "wanted \<equiv> \<lambda>k. \<not> is_index_key k \<and> is_symbol_key k = symbols"
  shows "ordered_keys cell symbols i left room =
    (if length (filter wanted (keys_from cell i left)) \<le> room then Inr (filter wanted (keys_from cell i left)) else Inl TooManyKeys)"
  using assms(2)
proof (induction left arbitrary: i room)
  case (Suc left)
  have "read_key cell i = Inr (fst (row (nth_record cell i)))" using Suc.prems by (intro read_key_row assms(1)) simp
  moreover have "i + 1 + left \<le> table_cap cell" using Suc.prems by simp
  ultimately show ?case using Suc.IH [of "i + 1"]
    by (cases room) (simp_all add: keys_from_Suc wanted_def)
qed simp

lemma key_classes:
  assumes "distinct keys"
  shows "card (index_set keys) + length (filter is_name_key keys) + length (filter is_symbol_key keys) = length keys"
  using assms
proof (induction keys)
  case (Cons k keys)
  then have "k = KeyIndex v \<Longrightarrow> v \<notin> index_set keys" for v by (auto simp: index_set_def)
  then show ?case using Cons by (cases k) (simp_all add: index_set_Cons is_name_key_def)
qed (simp add: index_set_def)

text \<open>C21: own keys come out in the order the language prescribes: the integer keys in ascending order, then
  the names and then the symbols in the order they were added, each key once. The call fails exactly when the
  output has no room for all of them.\<close>

theorem own_keys_order:
  assumes "objects_ok h" "is_object_cell h k"
  shows "own_keys h k room =
    (if length (props h k) \<le> room then Inr (ordered_own_keys (map fst (props h k))) else Inl TooManyKeys)"
proof -
  obtain c where c: "store h k = Some (ObjectCell, c)" using assms(2) by (auto simp: is_object_cell_def)
  show ?thesis
  proof (rule object_table_cases [OF assms(1) c])
    assume "handle_read_at c object_TABLE = None" "props h k = []"
    then show ?thesis using object_cell_store [OF assms(1) c]
      by (simp add: own_keys_def table_of_def ordered_own_keys_def index_set_def)
  next
    fix t tc
    assume t: "handle_read_at c object_TABLE = Some t" "store h t = Some (PropertyTableCell, tc)" "table_ok tc" "props h k = rows tc"
    let ?keys = "map fst (rows tc)"
    have shape: "table_shape tc" "table_n tc \<le> table_cap tc" "0 + table_n tc \<le> table_cap tc"
      using t(3) by (auto simp: table_ok_def table_shape_def)
    have later: "{v \<in> index_set ?keys. later None v} = index_set ?keys" by (simp add: later_def)
    have names: "filter (\<lambda>k. \<not> is_index_key k \<and> is_symbol_key k = False) ?keys = filter is_name_key ?keys"
      by (rule filter_cong) (simp_all add: is_name_key_def)
    have symbols: "filter (\<lambda>k. \<not> is_index_key k \<and> is_symbol_key k = True) ?keys = filter is_symbol_key ?keys"
    proof (rule filter_cong)
      fix q
      show "(\<not> is_index_key q \<and> is_symbol_key q = True) = is_symbol_key q" by (cases q) simp_all
    qed simp
    note index = index_keys_sorted [OF shape(1,2), of room None, unfolded keys_from_rows later]
    note names = ordered_keys_filter [OF shape(1,3), of False, unfolded keys_from_rows names]
    note symbols = ordered_keys_filter [OF shape(1,3), of True, unfolded keys_from_rows symbols]
    have len: "card (index_set ?keys) + length (filter is_name_key ?keys) + length (filter is_symbol_key ?keys) = length (rows tc)"
      using key_classes [of ?keys] t(3) by (simp add: table_ok_def)
    have code: "own_keys h k room =
        and_then (index_keys tc (table_n tc) room None) (\<lambda>indices.
        and_then (ordered_keys tc False 0 (table_n tc) (room - length indices)) (\<lambda>names.
        and_then (ordered_keys tc True 0 (table_n tc) (room - length indices - length names)) (\<lambda>symbols.
        Inr (indices @ names @ symbols))))"
      using object_cell_store [OF assms(1) c] t(1) store_reads(2) [OF t(2)]
      by (simp add: own_keys_def table_of_def table_count_def)
    show ?thesis
      unfolding code index names symbols t(4) using len by (auto simp: ordered_own_keys_def)
  qed
qed

end
