(* ===== verification/Object_Safety.thy ===== *)
theory Object_Safety
  imports Object_Keys Object_Slots "HOL-Library.Code_Target_Nat"
begin

text \<open>
  Objects and the heap beneath them: making an object, and what a collection keeps of the objects that are
  left.
\<close>

subsection \<open>Making an object\<close>

lemma fresh_object:
  fixes proto :: jsvalue
  assumes "value_wf proto"
  defines "c \<equiv> handle_write_none_at (put_at (handle_write_none_at (put_at (encode_at proto (replicate 56 0) 0) 9 [1]) 12) 20 [0]) 48"
  shows "length c = 56" "decode_at c 0 = proto" "c ! 9 = 1" "handle_read_at c 12 = None"
proof -
  show len: "length c = 56" by (simp add: c_def)
  let ?c1 = "encode_at proto (replicate 56 0) 0"
  have "decode_at c 0 = decode_at ?c1 0"
    by (rule decode_at_local) (simp_all add: c_def handle_write_none_at_def get_at_put_other field_put_other)
  then show "decode_at c 0 = proto" using decode_encode_at [OF assms(1), of 0 "replicate 56 0"] by (simp add: encoded_def)
  show "c ! 9 = 1"
    unfolding c_def handle_write_none_at_def by (simp add: put_at_nth)
  have "field 8 c 12 = field 8 (handle_write_none_at (put_at ?c1 9 [1]) 12) 12"
    unfolding c_def by (simp add: handle_write_none_at_def [of _ 48] field_put_other)
  then show "handle_read_at c 12 = None"
    using handle_read_write_none_at [of "put_at ?c1 9 [1]" 12] by (simp add: handle_read_at_def)
qed

lemma object_create_spec:
  assumes "objects_ok h" "value_wf proto" "v_tag proto = Object \<Longrightarrow> is_object_cell h (as_handle proto)"
  shows "unless_full (object_create h proto) (\<lambda>(k, h'). objects_ok h' \<and> store h k = None \<and>
    (\<exists>c. store h' = (store h)(k \<mapsto> (ObjectCell, c))) \<and> props h' k = [] \<and> object_proto h' k = proto \<and> object_open h' k)"
proof (cases "heap_allocate h ObjectCell 56")
  case (Inl e)
  have "heap_ok h" using assms(1) by (simp add: objects_ok_def)
  from allocate_error [OF this Inl] show ?thesis using Inl by (auto simp: object_create_def heap_full_def)
next
  case (Inr r)
  then obtain k h1 where a: "heap_allocate h ObjectCell 56 = Inr (k, h1)" by (cases r) simp
  have "heap_ok h" using assms(1) by (simp add: objects_ok_def)
  note law = cells.alloc_law [OF this _ a]
  let ?change = "\<lambda>cell. and_then (set_byte IndexPanic (encode_at proto cell 0) 9 1) (\<lambda>cell.
       and_then (set_byte IndexPanic (handle_write_none_at cell 12) 20 0) (\<lambda>cell.
       Inr (handle_write_none_at cell 48)))"
  define c where "c = handle_write_none_at (put_at (handle_write_none_at (put_at (encode_at proto (replicate 56 0) 0) 9 [1]) 12) 20 [0]) 48"
  note c = fresh_object [OF assms(2), folded c_def]
  have "?change (replicate 56 0) = Inr c" by (simp add: set_byte_def c_def)
  then obtain h' where h': "change_object h1 k ?change = Inr h'" "heap_ok h'" "store h' = (store h)(k \<mapsto> (ObjectCell, c))"
    using with_cell_store [of h1 k ObjectCell "replicate 56 0" ?change c ObjectHeap] law c(1)
    by (auto simp: change_object_def)
  have old: "store h' l = store h l" if "l \<noteq> k" for l using h'(3) that by simp
  have kept: "store h' l = Some x" if "store h l = Some x" for l x using that old [of l] law by (cases "l = k") auto
  have ok: "objects_ok h'"
  proof (rule objects_okI)
    fix l d
    assume l: "store h' l = Some (ObjectCell, d)"
    have d: "store h l = Some (ObjectCell, d)" if "l \<noteq> k" using l old that by simp
    have dc: "d = c" if "l = k" using l h'(3) that by simp
    show "object_SIZE \<le> length d" using d objects_okD(2) [OF assms(1)] dc c(1) by (cases "l = k") auto
    show "\<exists>tc. store h' t = Some (PropertyTableCell, tc) \<and> table_ok tc" if t: "handle_read_at d object_TABLE = Some t" for t
    proof (cases "l = k")
      case True
      then show ?thesis using dc c(4) t by simp
    next
      case False
      then show ?thesis using objects_okD(3) [OF assms(1) d t] kept by blast
    qed
    show "\<exists>pc. store h' (as_handle (decode_at d object_PROTOTYPE)) = Some (ObjectCell, pc)"
      if t: "v_tag (decode_at d object_PROTOTYPE) = Object"
    proof (cases "l = k")
      case True
      then show ?thesis using dc c(2) t assms(3) kept by (auto simp: is_object_cell_def)
    next
      case False
      then show ?thesis using objects_okD(4) [OF assms(1) d t] kept by blast
    qed
    fix m e t
    assume m: "store h' m = Some (ObjectCell, e)" and t: "handle_read_at d object_TABLE = Some t" "handle_read_at e object_TABLE = Some t"
    have ne: "l \<noteq> k" "m \<noteq> k" using dc t c(4) m h'(3) by auto
    then show "l = m" using objects_okD(5) [OF assms(1) d t(1) _ t(2)] m old by simp
  qed (rule h'(2))
  have "object_create h proto = Inr (k, h')" using a h'(1) by (simp add: object_create_def)
  moreover have "props h' k = []" "object_proto h' k = proto" "object_open h' k"
    using h'(3) c by (simp_all add: props_def object_proto_def object_open_def)
  ultimately show ?thesis using ok h'(3) law by auto
qed

lemma empty_objects_ok:
  assumes "length arena + 31 \<le> u32_max" "length slots \<le> u32_max"
  shows "objects_ok (heap_new arena slots)"
proof -
  have "store (heap_new arena slots) k = None" for k
    by (auto simp: store_eq slot_names_def heap_new_def heap_with_worklist_def heap_over_def slot_empty_def)
  moreover have "heap_ok (heap_new arena slots)" unfolding heap_new_def by (rule heap_over_ok [OF assms])
  ultimately show ?thesis by (simp add: objects_ok_def)
qed


subsection \<open>Collection\<close>

lemma object_children_in:
  assumes "object_SIZE \<le> length c"
  shows "handle_read_at c object_TABLE = Some t \<Longrightarrow> t \<in> set (cell_children ObjectCell c)"
    "v_tag (decode_at c object_PROTOTYPE) = Object \<Longrightarrow> as_handle (decode_at c object_PROTOTYPE) \<in> set (cell_children ObjectCell c)"
  using assms by (simp_all add: object_children_def value_handles_def holds_reference_def)

text \<open>What a property refers to, as the language sees it: its name or symbol, its value, its getter and its setter.\<close>

definition property_holds :: "key \<times> descriptor \<Rightarrow> handle \<Rightarrow> bool" where
  "property_holds p r \<longleftrightarrow> fst p = KeyName r \<or> fst p = KeySymbol r \<or>
     (\<exists>v \<in> {d_value (snd p), d_getter (snd p), d_setter (snd p)}. holds_reference v \<and> as_handle v = r)"

lemma records_from_mem:
  assumes "\<And>j. i \<le> j \<Longrightarrow> j < i + n \<Longrightarrow> subrange cell (header + j * width) (header + j * width + width) = Some (rec j)"
    "i \<le> m" "m < i + n" "r \<in> set (g (rec m))"
  shows "r \<in> set (records_from header width g cell n i)"
  using assms
proof (induction n arbitrary: i)
  case (Suc n)
  have here: "subrange cell (header + i * width) (header + i * width + width) = Some (rec i)"
    using Suc.prems(1) [of i] by simp
  show ?case
  proof (cases "m = i")
    case True
    then show ?thesis using here Suc.prems(4) by simp
  next
    case False
    have "r \<in> set (records_from header width g cell n (i + 1))"
      using False Suc.prems by (intro Suc.IH) auto
    then show ?thesis using here by simp
  qed
qed simp

lemma property_holds_refs:
  assumes "length r = 32" "property_holds (row r) l"
  shows "l \<in> set (property_refs r)"
proof -
  have f: "field 8 r 8 = Some (take 8 (drop 8 r))" "get_at r 0 = Some (r ! 0)"
    using assms(1) by (simp_all add: field_def subrange_def get_at_def)
  have undef: "\<not> holds_reference v_undefined" by (simp add: holds_reference_def v_undefined_def)
  have "l \<in> set (property_key r)" if key: "record_key r = KeyName l \<or> record_key r = KeySymbol l"
  proof -
    have k: "r ! 0 \<noteq> 0" using key unfolding record_key_def by (cases "r ! 0 = 0") simp_all
    then have "handle_unpack (read_u64 r 8) = l" using key unfolding record_key_def by (cases "r ! 0 = 1") simp_all
    note k = k this
    then show ?thesis unfolding property_key_def read_u64_def f option.case by simp
  qed
  moreover have "as_handle v \<in> set (value_handles (decode_at r 16)) \<union> set (value_handles (decode_short_at r 25))"
    if "holds_reference v" "v \<in> {d_value (record_descriptor r), d_getter (record_descriptor r), d_setter (record_descriptor r)}" for v
  proof -
    have "v \<noteq> v_undefined" using that(1) undef by blast
    then have "v = decode_at r 16 \<or> v = decode_short_at r 25"
      using that(2) by (cases "r ! 1 = 0") (auto simp: record_descriptor_def descriptor_data_def descriptor_accessor_def)
    then show ?thesis using that(1) by (elim disjE) (simp_all add: value_handles_def)
  qed
  ultimately show ?thesis using assms(2) unfolding property_holds_def property_refs_def row_def by fastforce
qed

lemma table_children_in:
  assumes "table_ok tc" "p \<in> set (rows tc)" "property_holds p l"
  shows "l \<in> set (cell_children PropertyTableCell tc)"
proof -
  obtain m where m: "m < table_n tc" "p = row (nth_record tc m)" using assms(2) by (auto simp: rows_def)
  have shape: "table_shape tc" "table_n tc \<le> table_cap tc" using assms(1) by (simp_all add: table_ok_def table_shape_def)
  have rec: "subrange tc (8 + j * 32) (8 + j * 32 + 32) = Some (nth_record tc j)" if "j < 0 + table_n tc" for j
    using table_record_Some(1) [OF shape(1), of j] that shape(2) by (simp add: table_record_def record_at_def)
  have "l \<in> set (property_refs (nth_record tc m))"
    using property_holds_refs [OF table_record_Some(2) [OF shape(1)]] m shape(2) assms(3) by simp
  then have "l \<in> set (records_from 8 32 property_refs tc (table_n tc) 0)"
    using records_from_mem [of 0 "table_n tc" tc 8 32 "nth_record tc" m l property_refs] rec m(1) by simp
  moreover obtain f where "field 4 tc 0 = Some f" using m(1) by (cases "field 4 tc 0") (simp_all add: read_u32_at_def)
  ultimately show ?thesis by (simp add: counted_records_def read_u32_at_def)
qed

text \<open>C22: a collection is invisible to the objects that are left. From a well-formed object heap it returns a
  well-formed object heap in which every object the roots reach has the cell and the properties it had: its
  property table and its prototypes were kept with it. What its properties refer to, the names and symbols, the
  values, the getters and the setters, is kept as well, with the bytes it had. Everything the roots do not reach
  is gone. The budget of a slice is not zero.\<close>

theorem collect_keeps_objects:
  assumes "objects_ok h" "0 < budget"
  shows "\<exists>h'. collect h roots budget = Some (Inr h') \<and> objects_ok h' \<and>
    (\<forall>k. reachable h roots k \<longrightarrow> store h' k = store h k \<and> props h' k = props h k \<and>
      (\<forall>p l. p \<in> set (props h k) \<and> property_holds p l \<longrightarrow> store h' l = store h l)) \<and>
    (\<forall>k. \<not> reachable h roots k \<longrightarrow> store h' k = None)"
proof -
  obtain cs where "heap_inv h cs" "hp_phase h = Idle" using assms(1) by (auto simp: objects_ok_def elim: heap_okE)
  from collect_correct [OF this assms(2), of roots] obtain h' where h': "collect h roots budget = Some (Inr h')" "heap_ok h'"
    "store h' = (\<lambda>k. if reachable h roots k then store h k else None)"
    using heap_okI by blast
  have live: "store h k = Some (ObjectCell, c)" "reachable h roots k" if "store h' k = Some (ObjectCell, c)" for k c
    using that h'(3) by (simp_all split: if_splits)
  have child: "store h' l = Some x"
    if "reachable h roots k" "store h k = Some (ObjectCell, c)" "l \<in> set (cell_children ObjectCell c)" "store h l = Some x" for k c l x
    using reachable.child [OF that(1-3)] that(4) h'(3) by simp
  have table: "\<exists>tc. store h' t = Some (PropertyTableCell, tc) \<and> store h t = Some (PropertyTableCell, tc) \<and> table_ok tc"
    if "reachable h roots k" "store h k = Some (ObjectCell, c)" "handle_read_at c object_TABLE = Some t" for k c t
    using objects_okD(3) [OF assms(1) that(2,3)] child [OF that(1,2) object_children_in(1) [OF objects_okD(2) [OF assms(1) that(2)] that(3)]]
    by blast
  have "objects_ok h'"
  proof (rule objects_okI)
    fix k c
    assume k: "store h' k = Some (ObjectCell, c)"
    note live = live [OF k]
    note ok = objects_okD [OF assms(1) live(1)]
    show "object_SIZE \<le> length c" by (rule ok)
    show "\<exists>tc. store h' t = Some (PropertyTableCell, tc) \<and> table_ok tc" if "handle_read_at c object_TABLE = Some t" for t
      using table [OF live(2,1) that] by blast
    show "\<exists>pc. store h' (as_handle (decode_at c object_PROTOTYPE)) = Some (ObjectCell, pc)"
      if "v_tag (decode_at c object_PROTOTYPE) = Object"
      using ok(4) [OF that] child [OF live(2,1) object_children_in(2) [OF ok(2) that]] by blast
    fix l d t
    assume "store h' l = Some (ObjectCell, d)" "handle_read_at c object_TABLE = Some t" "handle_read_at d object_TABLE = Some t"
    then show "k = l" using ok(5) h'(3) by (simp split: if_splits)
  qed (rule h'(2))
  moreover have "props h' k = props h k" if r: "reachable h roots k" for k
  proof (cases "\<exists>c. store h k = Some (ObjectCell, c)")
    case True
    then obtain c where c: "store h k = Some (ObjectCell, c)" by blast
    have c': "store h' k = Some (ObjectCell, c)" using r c h'(3) by simp
    show ?thesis
    proof (cases "handle_read_at c object_TABLE")
      case (Some t)
      obtain tc where "store h' t = Some (PropertyTableCell, tc)" "store h t = Some (PropertyTableCell, tc)"
        using table [OF r c Some] by blast
      then show ?thesis using props_table [OF c Some] props_table [OF c' Some] by simp
    qed (simp add: props_none [OF c] props_none [OF c'])
  next
    case False
    then show ?thesis using r h'(3) by (simp add: props_other)
  qed
  moreover have "store h' l = store h l" if r: "reachable h roots k" and p: "p \<in> set (props h k)" "property_holds p l" for k p l
  proof (cases "store h l")
    case stored: (Some x)
    obtain c where c: "store h k = Some (ObjectCell, c)"
      using p(1) props_other [of h k] by (cases "\<exists>c. store h k = Some (ObjectCell, c)") auto
    obtain t tc where t: "handle_read_at c object_TABLE = Some t" "store h t = Some (PropertyTableCell, tc)" "table_ok tc"
      "props h k = rows tc"
      using p(1) by (cases rule: object_table_cases [OF assms(1) c]) auto
    have "reachable h roots t"
      using reachable.child [OF r c object_children_in(1) [OF objects_okD(2) [OF assms(1) c] t(1)]] t(2) by simp
    moreover have "l \<in> set (cell_children PropertyTableCell tc)" using table_children_in [OF t(3)] p t(4) by simp
    ultimately have "reachable h roots l" using reachable.child t(2) stored by blast
    then show ?thesis using h'(3) by simp
  qed (simp add: h'(3))
  moreover have "\<forall>k. reachable h roots k \<longrightarrow> store h' k = store h k" "\<forall>k. \<not> reachable h roots k \<longrightarrow> store h' k = None"
    by (simp_all add: h'(3))
  ultimately show ?thesis using h'(1) by blast
qed

end
