(* ===== verification/Object_Invariant.thy ===== *)
theory Object_Invariant
  imports Object_Safety
begin

text \<open>
  What every sequence of object operations keeps: the well-formedness of the object heap, chains of
  prototypes without a cycle, and the fixed part of a property that is not configurable.
\<close>

lemma both_zero_trans: "a = b \<or> both_zero a b \<Longrightarrow> b = c \<or> both_zero b c \<Longrightarrow> a = c \<or> both_zero a c"
  by (auto simp: both_zero_def)


subsection \<open>The two operations on the object's own fields\<close>

text \<open>An object cell is rewritten with its table left in place and a prototype that is an object.\<close>

lemma object_field_changed:
  assumes "objects_ok h" "store h k = Some (ObjectCell, c)" "heap_ok h'" "store h' = (store h)(k \<mapsto> (ObjectCell, c'))"
    "length c' = length c" "handle_read_at c' object_TABLE = handle_read_at c object_TABLE"
    "v_tag (decode_at c' object_PROTOTYPE) = Object \<Longrightarrow> is_object_cell h (as_handle (decode_at c' object_PROTOTYPE))"
  shows "objects_ok h'" "props h' = props h"
proof -
  have old: "\<exists>d. store h l = Some (ObjectCell, d) \<and> length d' = length d \<and>
      handle_read_at d' object_TABLE = handle_read_at d object_TABLE \<and> (l \<noteq> k \<longrightarrow> d' = d)"
    if "store h' l = Some (ObjectCell, d')" for l d'
    using that assms(2,4-6) by (cases "l = k") auto
  have object: "\<exists>d'. store h' l = Some (ObjectCell, d')" if "store h l = Some (ObjectCell, d)" for l d
    using that assms(4) by (cases "l = k") auto
  have table: "store h' t = Some (PropertyTableCell, tc)" if "store h t = Some (PropertyTableCell, tc)" for t tc
    using that assms(2,4) by (cases "t = k") auto
  show "objects_ok h'"
  proof (rule objects_okI)
    fix l d'
    assume l: "store h' l = Some (ObjectCell, d')"
    from old [OF l] obtain d where d: "store h l = Some (ObjectCell, d)" "length d' = length d"
      "handle_read_at d' object_TABLE = handle_read_at d object_TABLE" "l \<noteq> k \<longrightarrow> d' = d" by blast
    note ok = objects_okD [OF assms(1) d(1)]
    show "object_SIZE \<le> length d'" using ok(2) d(2) by simp
    show "\<exists>tc. store h' t = Some (PropertyTableCell, tc) \<and> table_ok tc" if "handle_read_at d' object_TABLE = Some t" for t
      using ok(3) [of t] that d(3) table by auto
    show "\<exists>pc. store h' (as_handle (decode_at d' object_PROTOTYPE)) = Some (ObjectCell, pc)"
      if t: "v_tag (decode_at d' object_PROTOTYPE) = Object"
    proof (cases "l = k")
      case True
      then have "d' = c'" using l assms(4) by simp
      then show ?thesis using t assms(7) object by (auto simp: is_object_cell_def)
    next
      case False
      then show ?thesis using d(4) ok(4) t object by blast
    qed
    fix m e' t
    assume m: "store h' m = Some (ObjectCell, e')" and t: "handle_read_at d' object_TABLE = Some t" "handle_read_at e' object_TABLE = Some t"
    from old [OF m] obtain e where "store h m = Some (ObjectCell, e)" "handle_read_at e' object_TABLE = handle_read_at e object_TABLE" by blast
    then show "l = m" using ok(5) [of t m e] t d(3) by metis
  qed (rule assms(3))
  show "props h' = props h"
  proof
    fix l
    show "props h' l = props h l"
    proof (cases "\<exists>d. store h l = Some (ObjectCell, d)")
      case True
      then obtain d where d: "store h l = Some (ObjectCell, d)" by blast
      then obtain d' where d': "store h' l = Some (ObjectCell, d')" using object by blast
      then have t: "handle_read_at d' object_TABLE = handle_read_at d object_TABLE" using old [OF d'] d by auto
      show ?thesis
      proof (rule object_table_cases [OF assms(1) d])
        fix u uc
        assume u: "handle_read_at d object_TABLE = Some u" "store h u = Some (PropertyTableCell, uc)" "props h l = rows uc"
        then show ?thesis using props_table [OF d', of u uc] table [OF u(2)] t by simp
      qed (use props_none [OF d'] t in simp)
    next
      case False
      then have "\<nexists>d'. store h' l = Some (ObjectCell, d')" using old by blast
      then show ?thesis using False by (simp add: props_other)
    qed
  qed
qed

lemma change_object_field:
  assumes "objects_ok h" "store h k = Some (ObjectCell, c)" "change c = Inr c'" "length c' = length c"
  obtains h' where "change_object h k change = Inr h'" "heap_ok h'" "store h' = (store h)(k \<mapsto> (ObjectCell, c'))"
  using with_cell_store [OF objects_okD(1) [OF assms(1,2)] assms(2), of change c' ObjectHeap] assms(3,4)
  by (auto simp: change_object_def)

lemma prevent_extensions_spec:
  assumes "objects_ok h" "store h k = Some (ObjectCell, c)"
  shows "\<exists>h'. prevent_extensions h k = Inr h' \<and> objects_ok h' \<and> props h' = props h \<and> object_proto h' = object_proto h \<and>
    is_object_cell h' = is_object_cell h \<and> object_open h' = (object_open h)(k := False)"
proof -
  let ?c = "put_at c 9 [0]"
  have size: "56 \<le> length c" by (rule objects_okD(2) [OF assms])
  then have ch: "set_byte IndexPanic c 9 0 = (Inr ?c :: object_error + byte list)" by (simp add: set_byte_def)
  have len: "length ?c = length c" by simp
  obtain h' where h': "prevent_extensions h k = Inr h'" "heap_ok h'" "store h' = (store h)(k \<mapsto> (ObjectCell, ?c))"
    by (rule change_object_field [OF assms, of "\<lambda>cell. set_byte IndexPanic cell 9 0", OF ch len])
      (simp add: prevent_extensions_def)
  have tab: "handle_read_at ?c 12 = handle_read_at c 12" by (simp add: handle_read_at_def field_put_other)
  have proto: "decode_at ?c 0 = decode_at c 0"
    by (rule decode_at_local) (simp_all add: get_at_put_other field_put_other)
  have "v_tag (decode_at ?c 0) = Object \<Longrightarrow> is_object_cell h (as_handle (decode_at ?c 0))"
    unfolding proto is_object_cell_def by (rule objects_okD(4) [OF assms])
  note ch = object_field_changed [OF assms h'(2,3) len tab this]
  moreover have "object_proto h' = object_proto h" using h'(3) proto assms(2) by (auto simp: object_proto_def fun_eq_iff)
  moreover have "is_object_cell h' = is_object_cell h" using h'(3) assms(2) by (auto simp: is_object_cell_def fun_eq_iff)
  moreover have "object_open h' = (object_open h)(k := False)"
    using h'(3) size by (auto simp: object_open_def fun_eq_iff put_at_nth)
  ultimately show ?thesis using h'(1) by blast
qed

text \<open>The edges of the prototype chains, and what the walk of \<open>set_prototype\<close> rules out.\<close>

definition proto_edges :: "heap \<Rightarrow> (handle \<times> handle) set" where
  "proto_edges h = {(k, as_handle (object_proto h k)) | k. is_object_cell h k \<and> v_tag (object_proto h k) = Object}"

lemma chain_reaches_path:
  assumes "objects_ok h" "chain_reaches h k left walker = Inr False" "v_tag walker = Object"
    "is_object_cell h (as_handle walker)"
  shows "(as_handle walker, k) \<notin> (proto_edges h)\<^sup>*"
  using assms(2-4)
proof (induction left arbitrary: walker)
  case 0
  then show ?case by (subst (asm) chain_reaches.simps) (simp split: if_splits)
next
  case (Suc left)
  let ?w = "as_handle walker"
  obtain c where c: "store h ?w = Some (ObjectCell, c)" using Suc.prems(3) by (auto simp: is_object_cell_def)
  have ne: "?w \<noteq> k" and rest: "chain_reaches h k left (object_proto h ?w) = Inr False"
    using Suc.prems(1,2) prototype_eq [OF assms(1) c] by (subst (asm) chain_reaches.simps, simp split: if_splits)+
  show ?case
  proof
    assume "(?w, k) \<in> (proto_edges h)\<^sup>*"
    with ne obtain m where m: "(?w, m) \<in> proto_edges h" "(m, k) \<in> (proto_edges h)\<^sup>*"
      by (auto elim: converse_rtranclE)
    then have t: "v_tag (object_proto h ?w) = Object" "m = as_handle (object_proto h ?w)" by (auto simp: proto_edges_def)
    have "is_object_cell h m" using parent_object [OF assms(1) c t(1)] t(2) by (auto simp: is_object_cell_def)
    then show False using Suc.IH [OF rest t(1)] t(2) m(2) by simp
  qed
qed

lemma set_prototype_spec:
  assumes "objects_ok h" "store h k = Some (ObjectCell, c)" "value_wf v"
    "v_tag v = Object \<Longrightarrow> is_object_cell h (as_handle v)" "set_prototype h k v = Inr (b, h')"
  shows "h' = h \<or> objects_ok h' \<and> props h' = props h \<and> object_proto h' = (object_proto h)(k := v) \<and>
    is_object_cell h' = is_object_cell h \<and> object_open h' = object_open h \<and>
    (v_tag v = Object \<longrightarrow> (as_handle v, k) \<notin> (proto_edges h)\<^sup>*)"
proof (cases "h' = h")
  case False
  let ?c = "encode_at v c 0"
  have size: "56 \<le> length c" by (rule objects_okD(2) [OF assms(1,2)])
  have "change_object h k (\<lambda>cell. Inr (encode_at v cell 0)) = Inr h'" and walk: "chain_reaches h k 256 v = Inr False"
    using False assms(5) is_extensible_eq [OF assms(1,2)] prototype_eq [OF assms(1,2)]
    by (auto simp: set_prototype_def and_then_Inr split: if_splits)
  moreover have "length ?c = length c" by simp
  ultimately have h': "heap_ok h'" "store h' = (store h)(k \<mapsto> (ObjectCell, ?c))"
    using change_object_field [OF assms(1,2), of "\<lambda>cell. Inr (encode_at v cell 0)" ?c] by auto
  have tab: "handle_read_at ?c 12 = handle_read_at c 12"
    by (simp add: handle_read_at_def field_def encode_at_frame encoded_def)
  have proto: "decode_at ?c 0 = v" using size by (intro decode_encode_at assms(3)) (simp add: encoded_def)
  have byte: "?c ! 9 = c ! 9" using size by (simp add: encode_at_def put_at_nth)
  have "v_tag (decode_at ?c 0) = Object \<Longrightarrow> is_object_cell h (as_handle (decode_at ?c 0))"
    unfolding proto by (rule assms(4))
  note ch = object_field_changed [OF assms(1,2) h' _ tab this]
  moreover have "object_proto h' = (object_proto h)(k := v)" using h'(2) proto by (auto simp: object_proto_def fun_eq_iff)
  moreover have "is_object_cell h' = is_object_cell h" using h'(2) assms(2) by (auto simp: is_object_cell_def fun_eq_iff)
  moreover have "object_open h' = object_open h" using h'(2) byte assms(2) by (auto simp: object_open_def fun_eq_iff)
  ultimately show ?thesis using chain_reaches_path [OF assms(1) walk] assms(4) by simp
qed simp


subsection \<open>Any sequence of operations\<close>

inductive object_step :: "heap \<Rightarrow> heap \<Rightarrow> bool" where
  created: "value_wf proto \<Longrightarrow> (v_tag proto = Object \<longrightarrow> is_object_cell h (as_handle proto)) \<Longrightarrow>
    object_create h proto = Inr (k, h') \<Longrightarrow> object_step h h'"
| defined: "is_object_cell h k \<Longrightarrow> descriptor_wf d \<Longrightarrow> define_own_property h k key d = Inr (b, h') \<Longrightarrow> object_step h h'"
| assigned: "is_object_cell h k \<Longrightarrow> value_wf v \<Longrightarrow> object_set h k key v = Inr (a, h') \<Longrightarrow> object_step h h'"
| deleted: "is_object_cell h k \<Longrightarrow> object_delete h k key = Inr (b, h') \<Longrightarrow> object_step h h'"
| closed: "is_object_cell h k \<Longrightarrow> prevent_extensions h k = Inr h' \<Longrightarrow> object_step h h'"
| reparented: "is_object_cell h k \<Longrightarrow> value_wf v \<Longrightarrow> (v_tag v = Object \<longrightarrow> is_object_cell h (as_handle v)) \<Longrightarrow>
    set_prototype h k v = Inr (b, h') \<Longrightarrow> object_step h h'"

text \<open>
  What a property that is not configurable keeps: it stays unconfigurable, with its enumerability and its kind.
  A data property that is not writable stays so and keeps its value, up to the sign of a zero; an accessor
  keeps its getter and its setter.
\<close>

definition fixed_part :: "descriptor \<Rightarrow> descriptor \<Rightarrow> bool" where
  "fixed_part e d \<longleftrightarrow> \<not> d_has d attr_CONFIGURABLE \<and> d_has d attr_ENUMERABLE = d_has e attr_ENUMERABLE \<and> d_kind d = d_kind e \<and>
     (d_kind e = DataProperty \<and> \<not> d_has e attr_WRITABLE \<longrightarrow>
        \<not> d_has d attr_WRITABLE \<and> (d_value e = d_value d \<or> both_zero (d_value e) (d_value d))) \<and>
     (d_kind e = AccessorProperty \<longrightarrow> d_getter d = d_getter e \<and> d_setter d = d_setter e)"

definition row_stays :: "(key \<times> descriptor) list \<Rightarrow> (key \<times> descriptor) list \<Rightarrow> key \<Rightarrow> bool" where
  "row_stays ps ps' q \<longleftrightarrow> (\<forall>e. map_of ps q = Some e \<and> \<not> d_has e attr_CONFIGURABLE \<longrightarrow>
     (\<exists>d. map_of ps' q = Some d \<and> fixed_part e d))"

text \<open>What later heaps owe to earlier ones: objects stay objects, a closed object stays closed and gains no key,
  and a property that is not configurable keeps its fixed part.\<close>

definition keeps_faith :: "heap \<Rightarrow> heap \<Rightarrow> bool" where
  "keeps_faith h h' \<longleftrightarrow> (\<forall>k. is_object_cell h k \<longrightarrow> is_object_cell h' k \<and>
     (\<not> object_open h k \<longrightarrow> \<not> object_open h' k \<and> fst ` set (props h' k) \<subseteq> fst ` set (props h k)) \<and>
     (\<forall>q. row_stays (props h k) (props h' k) q))"

lemma fixed_part_refl: "\<not> d_has e attr_CONFIGURABLE \<Longrightarrow> fixed_part e e"
  by (simp add: fixed_part_def)

lemma fixed_part_trans:
  assumes "fixed_part a b" "fixed_part b c" shows "fixed_part a c"
proof -
  have "d_value a = d_value c \<or> both_zero (d_value a) (d_value c)" if "d_kind a = DataProperty" "\<not> d_has a attr_WRITABLE"
    using assms that both_zero_trans [of "d_value a" "d_value b" "d_value c"] unfolding fixed_part_def by metis
  then show ?thesis using assms unfolding fixed_part_def by simp
qed

lemma row_stays_refl [simp]: "row_stays ps ps q"
  by (auto simp: row_stays_def fixed_part_refl)

lemma keeps_faith_refl [simp]: "keeps_faith h h"
  by (simp add: keeps_faith_def)

lemma keeps_faith_trans:
  assumes "keeps_faith a b" "keeps_faith b c"
  shows "keeps_faith a c"
proof -
  have rows: "row_stays x z q" if "row_stays x y q" "row_stays y z q" for x y z q
    unfolding row_stays_def
  proof (intro allI impI)
    fix d
    assume "map_of x q = Some d \<and> \<not> d_has d attr_CONFIGURABLE"
    then obtain e where e: "map_of y q = Some e" "fixed_part d e" using \<open>row_stays x y q\<close> unfolding row_stays_def by blast
    then obtain f where "map_of z q = Some f" "fixed_part e f"
      using \<open>row_stays y z q\<close> unfolding row_stays_def fixed_part_def by blast
    then show "\<exists>f. map_of z q = Some f \<and> fixed_part d f" using fixed_part_trans [OF e(2)] by blast
  qed
  show ?thesis
    unfolding keeps_faith_def
  proof (intro allI impI)
    fix k
    assume "is_object_cell a k"
    then have ab: "is_object_cell b k" "\<not> object_open a k \<longrightarrow> \<not> object_open b k \<and> fst ` set (props b k) \<subseteq> fst ` set (props a k)"
      "\<And>q. row_stays (props a k) (props b k) q"
      using assms(1) by (simp_all add: keeps_faith_def)
    then have bc: "is_object_cell c k" "\<not> object_open b k \<longrightarrow> \<not> object_open c k \<and> fst ` set (props c k) \<subseteq> fst ` set (props b k)"
      "\<And>q. row_stays (props b k) (props c k) q"
      using assms(2) by (simp_all add: keeps_faith_def)
    show "is_object_cell c k \<and> (\<not> object_open a k \<longrightarrow> \<not> object_open c k \<and> fst ` set (props c k) \<subseteq> fst ` set (props a k)) \<and>
        (\<forall>q. row_stays (props a k) (props c k) q)"
      using ab(2) bc(1,2) rows [OF ab(3) bc(3)] by (simp only:) blast
  qed
qed

lemma faith_same_rows:
  assumes "props h' = props h" "\<And>k. is_object_cell h k \<Longrightarrow> is_object_cell h' k"
    "\<And>k. is_object_cell h k \<Longrightarrow> object_open h' k \<Longrightarrow> object_open h k"
  shows "keeps_faith h h'"
  using assms unfolding keeps_faith_def by auto

lemma faith_new_rows:
  assumes "objects_ok h" "is_object_cell h k" "props_become h k ps h'"
    "\<not> object_open h k \<Longrightarrow> fst ` set ps \<subseteq> fst ` set (props h k)" "\<And>q. row_stays (props h k) ps q"
  shows "keeps_faith h h'"
  unfolding keeps_faith_def
proof (intro allI impI)
  fix l
  assume l: "is_object_cell h l"
  then obtain c where c: "store h l = Some (ObjectCell, c)" by (auto simp: is_object_cell_def)
  have b: "same_shape h h'" "props h' = (props h)(k := ps)" using assms(3) by (simp_all add: props_become_def)
  note f = same_shape_fields [OF b(1) assms(1) c]
  show "is_object_cell h' l \<and> (\<not> object_open h l \<longrightarrow> \<not> object_open h' l \<and> fst ` set (props h' l) \<subseteq> fst ` set (props h l)) \<and>
      (\<forall>q. row_stays (props h l) (props h' l) q)"
    using f assms(4,5) b(2) by (cases "l = k") simp_all
qed

lemma edges_same_shape:
  assumes "objects_ok h" "same_shape h h'"
  shows "proto_edges h' = proto_edges h"
proof -
  have "is_object_cell h' k \<longleftrightarrow> is_object_cell h k" for k
    unfolding is_object_cell_def using same_shapeD [OF assms(2)] by blast
  moreover have "object_proto h' k = object_proto h k" if "is_object_cell h k" for k
    using that same_shape_fields(1) [OF assms(2,1)] by (auto simp: is_object_cell_def)
  ultimately show ?thesis unfolding proto_edges_def by (metis (no_types, lifting))
qed

lemma row_stays_update:
  assumes "\<And>e. map_of ps key = Some e \<Longrightarrow> \<not> d_has e attr_CONFIGURABLE \<Longrightarrow> fixed_part e d"
  shows "row_stays ps (AList.update key d ps) q"
  using assms fixed_part_refl unfolding row_stays_def by (auto simp: update_conv')

lemma may_redefine_fixed: "may_redefine e d \<Longrightarrow> \<not> d_has e attr_CONFIGURABLE \<Longrightarrow> fixed_part e d"
  by (auto simp: may_redefine_def fixed_part_def equal_values_def)

lemma keys_update: "fst ` set (AList.update key d ps) = insert key (fst ` set ps)"
  by (simp add: dom_update)

lemma key_of_map: "map_of ps q = Some e \<Longrightarrow> q \<in> fst ` set ps"
  by (metis map_of_eq_None_iff option.distinct(1))

lemma define_step:
  assumes "objects_ok h" "store h k = Some (ObjectCell, c)" "descriptor_wf d" "define_own_property h k key d = Inr (b, h')"
  shows "objects_ok h' \<and> proto_edges h' = proto_edges h \<and> keeps_faith h h'"
proof -
  have cell: "is_object_cell h k" using assms(2) by (simp add: is_object_cell_def)
  have same: "props_become h k (props h k) h" using assms(1) by (simp add: props_become_def)
  have ref: "b = (case map_of (props h k) key of Some e \<Rightarrow> may_redefine e d | None \<Rightarrow> object_open h k)"
    "props_become h k (if b then AList.update key d (props h k) else props h k) h'"
    using define_own_property_rows [OF assms(1,2,3), of key] unfolding assms(4) sum.case prod.case by blast+
  have st: "row_stays (props h k) (if b then AList.update key d (props h k) else props h k) q" for q
  proof (cases b)
    case True
    have "fixed_part e d" if "map_of (props h k) key = Some e" "\<not> d_has e attr_CONFIGURABLE" for e
      using that ref(1) True by (simp add: may_redefine_fixed)
    then show ?thesis using row_stays_update True by simp
  qed simp
  have keys: "fst ` set (if b then AList.update key d (props h k) else props h k) \<subseteq> fst ` set (props h k)" if "\<not> object_open h k"
    using that ref(1) key_of_map [of "props h k" key] by (auto simp: keys_update split: option.splits)
  have shape: "same_shape h h'" and "objects_ok h'" using ref(2) by (simp_all add: props_become_def)
  then show ?thesis using faith_new_rows [OF assms(1) cell ref(2) keys st] edges_same_shape [OF assms(1) shape] by blast
qed

lemma object_set_allowed:
  assumes "objects_ok h" "store h k = Some (ObjectCell, c)" "object_set h k key v = Inr (AssignDone, h')"
  shows "case map_of (props h k) key of Some e \<Rightarrow> d_has e attr_WRITABLE | None \<Rightarrow> object_open h k"
proof (cases "map_of (props h k) key")
  case (Some e)
  then show ?thesis using assms(3)
    by (cases "d_kind e") (auto simp: object_set_def get_own_property_eq [OF assms(1,2)] through_setter_def split: if_splits)
next
  case None
  then show ?thesis
    using assms(3) set_chain_decides [of h key 256 "object_proto h k"] is_extensible_eq [OF assms(1,2)]
    by (cases "set_chain h key 256 (object_proto h k)")
      (auto simp: object_set_def get_own_property_eq [OF assms(1,2)] prototype_eq [OF assms(1,2)] split: option.splits if_splits)
qed

lemma assign_step:
  assumes "objects_ok h" "store h k = Some (ObjectCell, c)" "value_wf v" "object_set h k key v = Inr (a, h')"
  shows "objects_ok h' \<and> proto_edges h' = proto_edges h \<and> keeps_faith h h'"
proof (cases "a = AssignDone")
  case True
  have cell: "is_object_cell h k" using assms(2) by (simp add: is_object_cell_def)
  obtain d where d: "props_become h k (AList.update key d (props h k)) h'"
    "\<And>e. map_of (props h k) key = Some e \<Longrightarrow> d_kind e = DataProperty \<and> d_has e attr_WRITABLE \<and> d = e\<lparr>d_value := v\<rparr>"
    using object_set_spec [OF assms] True by auto
  have ok: "case map_of (props h k) key of Some e \<Rightarrow> d_has e attr_WRITABLE | None \<Rightarrow> object_open h k"
    using object_set_allowed [OF assms(1,2)] assms(4) True by simp
  have st: "row_stays (props h k) (AList.update key d (props h k)) q" for q
    by (rule row_stays_update) (use d(2) in \<open>auto simp: fixed_part_def d_has_def\<close>)
  have keys: "fst ` set (AList.update key d (props h k)) \<subseteq> fst ` set (props h k)" if "\<not> object_open h k"
    using that ok key_of_map [of "props h k" key] by (auto simp: keys_update split: option.splits)
  have shape: "same_shape h h'" and "objects_ok h'" using d(1) by (simp_all add: props_become_def)
  then show ?thesis using faith_new_rows [OF assms(1) cell d(1) keys st] edges_same_shape [OF assms(1) shape] by blast
next
  case False
  then have "h' = h" using object_set_spec [OF assms] by simp
  then show ?thesis using assms(1) by simp
qed

lemma delete_step:
  assumes "objects_ok h" "store h k = Some (ObjectCell, c)" "object_delete h k key = Inr (b, h')"
  shows "objects_ok h' \<and> proto_edges h' = proto_edges h \<and> keeps_faith h h'"
proof -
  have cell: "is_object_cell h k" using assms(2) by (simp add: is_object_cell_def)
  let ?ps = "if b then AList.delete key (props h k) else props h k"
  have b: "b = (case map_of (props h k) key of None \<Rightarrow> True | Some e \<Rightarrow> d_has e attr_CONFIGURABLE)"
    "props_become h k ?ps h'"
    using object_delete_spec [OF assms(1,2), of key] assms(3) by auto
  have st: "row_stays (props h k) ?ps q" for q
    using b(1) by (cases "q = key") (auto simp: row_stays_def fixed_part_refl delete_conv')
  have keys: "fst ` set ?ps \<subseteq> fst ` set (props h k)" by (simp add: dom_delete_subset)
  have shape: "same_shape h h'" and "objects_ok h'" using b(2) by (simp_all add: props_become_def)
  then show ?thesis using faith_new_rows [OF assms(1) cell b(2) keys st] edges_same_shape [OF assms(1) shape] by blast
qed

lemma create_step:
  assumes "objects_ok h" "value_wf proto" "v_tag proto = Object \<Longrightarrow> is_object_cell h (as_handle proto)"
    "object_create h proto = Inr (k, h')"
  shows "objects_ok h'" "keeps_faith h h'" "acyclic (proto_edges h) \<Longrightarrow> acyclic (proto_edges h')"
proof -
  obtain c where n: "objects_ok h'" "store h k = None" "store h' = (store h)(k \<mapsto> (ObjectCell, c))"
    "props h' k = []" "object_proto h' k = proto"
    using object_create_spec [OF assms(1-3)] assms(4) by auto
  show "objects_ok h'" by (rule n)
  have other: "l \<noteq> k" "store h' l = store h l" if "is_object_cell h l" for l
    using that n(2,3) by (auto simp: is_object_cell_def)
  have table: "store h' t = store h t" if "store h t = Some (PropertyTableCell, tc)" for t tc
    using that n(2,3) by (cases "t = k") auto
  have rows: "props h' l = props h l" if l: "is_object_cell h l" for l
  proof -
    obtain d where d: "store h l = Some (ObjectCell, d)" using l by (auto simp: is_object_cell_def)
    have d': "store h' l = Some (ObjectCell, d)" using other(2) [OF l] d by simp
    show ?thesis
    proof (rule object_table_cases [OF assms(1) d])
      fix u uc
      assume u: "handle_read_at d object_TABLE = Some u" "store h u = Some (PropertyTableCell, uc)" "props h l = rows uc"
      then show ?thesis using props_table [OF d' u(1)] table [OF u(2)] by simp
    qed (use props_none [OF d'] in simp)
  qed
  show "keeps_faith h h'"
  proof -
    have "is_object_cell h' l" "object_open h' l = object_open h l" if "is_object_cell h l" for l
      using that other(2) [OF that] by (simp_all add: is_object_cell_def object_open_def)
    then show ?thesis unfolding keeps_faith_def using rows row_stays_refl by (metis order_refl)
  qed
  show "acyclic (proto_edges h')" if "acyclic (proto_edges h)"
  proof -
    have obj: "is_object_cell h' l \<longleftrightarrow> l = k \<or> is_object_cell h l" for l
      using n(2,3) by (auto simp: is_object_cell_def)
    have fresh: "\<not> is_object_cell h k" using n(2) by (simp add: is_object_cell_def)
    have pr: "object_proto h' l = object_proto h l" if "is_object_cell h l" for l
      using other(2) [OF that] by (simp add: object_proto_def)
    have nin: "(l, k) \<notin> proto_edges h" for l
    proof
      assume "(l, k) \<in> proto_edges h"
      then have "is_object_cell h k" using parent_object [OF assms(1)] by (auto simp: proto_edges_def is_object_cell_def)
      then show False using fresh by simp
    qed
    show ?thesis
    proof (cases "v_tag proto = Object")
      case True
      have "proto_edges h' = insert (k, as_handle proto) (proto_edges h)"
        using obj pr n(5) True fresh unfolding proto_edges_def by auto
      moreover have "(as_handle proto, k) \<notin> (proto_edges h)\<^sup>*"
        using nin assms(3) [OF True] fresh by (metis rtranclE)
      ultimately show ?thesis using that by simp
    next
      case False
      then have "proto_edges h' = proto_edges h" using obj pr n(5) fresh unfolding proto_edges_def by auto
      then show ?thesis using that by simp
    qed
  qed
qed

lemma edges_reparented:
  assumes "is_object_cell h k" "object_proto h' = (object_proto h)(k := v)" "is_object_cell h' = is_object_cell h"
    "v_tag v = Object \<Longrightarrow> (as_handle v, k) \<notin> (proto_edges h)\<^sup>*" "acyclic (proto_edges h)"
  shows "acyclic (proto_edges h')"
proof -
  let ?r = "{e \<in> proto_edges h. fst e \<noteq> k}"
  have sub: "?r \<subseteq> proto_edges h" by blast
  have r: "acyclic ?r" by (rule acyclic_subset [OF assms(5) sub])
  have e: "(l, m) \<in> proto_edges h' \<longleftrightarrow> (l, m) \<in> ?r \<or> v_tag v = Object \<and> l = k \<and> m = as_handle v" for l m
    unfolding proto_edges_def assms(2,3) using assms(1) by (cases "l = k") auto
  show ?thesis
  proof (cases "v_tag v = Object")
    case True
    have eq: "proto_edges h' = insert (k, as_handle v) ?r" using e True by auto
    have "(as_handle v, k) \<notin> ?r\<^sup>*" using assms(4) [OF True] rtrancl_mono [OF sub] by blast
    then show ?thesis unfolding eq acyclic_insert using r by blast
  next
    case False
    have "proto_edges h' = ?r" using e False by auto
    then show ?thesis using r by simp
  qed
qed

lemma reparent_step:
  assumes "objects_ok h" "store h k = Some (ObjectCell, c)" "value_wf v"
    "v_tag v = Object \<Longrightarrow> is_object_cell h (as_handle v)" "set_prototype h k v = Inr (b, h')"
  shows "objects_ok h' \<and> keeps_faith h h' \<and> (acyclic (proto_edges h) \<longrightarrow> acyclic (proto_edges h'))"
proof (cases "h' = h")
  case False
  have cell: "is_object_cell h k" using assms(2) by (simp add: is_object_cell_def)
  have s: "objects_ok h'" "props h' = props h" "object_proto h' = (object_proto h)(k := v)"
    "is_object_cell h' = is_object_cell h" "object_open h' = object_open h"
    "v_tag v = Object \<Longrightarrow> (as_handle v, k) \<notin> (proto_edges h)\<^sup>*"
    using set_prototype_spec [OF assms] False by blast+
  have "keeps_faith h h'" by (rule faith_same_rows) (simp_all only: s)
  then show ?thesis using s(1) edges_reparented [OF cell s(3,4,6)] by blast
qed (use assms(1) in simp)

lemma object_step_safe:
  assumes "object_step h h'" "objects_ok h" "acyclic (proto_edges h)"
  shows "objects_ok h' \<and> acyclic (proto_edges h') \<and> keeps_faith h h'"
  using assms
proof cases
  case (created proto k)
  then show ?thesis using create_step [OF assms(2)] assms(3) by simp
next
  case (defined k d key b)
  then obtain c where "store h k = Some (ObjectCell, c)" by (auto simp: is_object_cell_def)
  then show ?thesis using define_step [OF assms(2)] defined assms(3) by simp
next
  case (assigned k v key a)
  then obtain c where "store h k = Some (ObjectCell, c)" by (auto simp: is_object_cell_def)
  then show ?thesis using assign_step [OF assms(2)] assigned assms(3) by simp
next
  case (deleted k key b)
  then obtain c where "store h k = Some (ObjectCell, c)" by (auto simp: is_object_cell_def)
  then show ?thesis using delete_step [OF assms(2)] deleted assms(3) by simp
next
  case (closed k)
  then obtain c where "store h k = Some (ObjectCell, c)" by (auto simp: is_object_cell_def)
  from prevent_extensions_spec [OF assms(2) this] closed
  have p: "objects_ok h'" "props h' = props h" "object_proto h' = object_proto h" "is_object_cell h' = is_object_cell h"
    "object_open h' = (object_open h)(k := False)" by auto
  then have "proto_edges h' = proto_edges h" by (simp add: proto_edges_def)
  then show ?thesis using p assms(3) faith_same_rows [of h' h] by (auto split: if_splits)
next
  case (reparented k v b)
  then obtain c where "store h k = Some (ObjectCell, c)" by (auto simp: is_object_cell_def)
  then show ?thesis using reparent_step [OF assms(2)] reparented assms(3) by blast
qed

text \<open>C17: whatever sequence of object operations a program runs, the object heap stays well formed, no prototype
  chain becomes a cycle, an object stays an object, and a non-extensible object stays so and gains no key. A
  property that is not configurable stays, unconfigurable, with the same enumerability and kind; an accessor
  keeps its getter and its setter, and a data property that is not writable stays so and keeps its value up to
  the sign of a zero, since redefining it compares with strict equality. Definitions are of descriptors that
  records can hold.\<close>

theorem object_steps_safe:
  assumes "objects_ok h" "acyclic (proto_edges h)" "object_step\<^sup>*\<^sup>* h h'"
  shows "objects_ok h' \<and> acyclic (proto_edges h') \<and>
    (\<forall>k. is_object_cell h k \<longrightarrow> is_object_cell h' k \<and>
      (\<not> object_open h k \<longrightarrow> \<not> object_open h' k \<and> fst ` set (props h' k) \<subseteq> fst ` set (props h k)) \<and>
      (\<forall>q e. map_of (props h k) q = Some e \<and> \<not> d_has e attr_CONFIGURABLE \<longrightarrow>
        (\<exists>d. map_of (props h' k) q = Some d \<and> \<not> d_has d attr_CONFIGURABLE \<and>
          d_has d attr_ENUMERABLE = d_has e attr_ENUMERABLE \<and> d_kind d = d_kind e \<and>
          (d_kind e = DataProperty \<and> \<not> d_has e attr_WRITABLE \<longrightarrow>
             \<not> d_has d attr_WRITABLE \<and> (d_value e = d_value d \<or> both_zero (d_value e) (d_value d))) \<and>
          (d_kind e = AccessorProperty \<longrightarrow> d_getter d = d_getter e \<and> d_setter d = d_setter e))))"
proof -
  have "objects_ok h' \<and> acyclic (proto_edges h') \<and> keeps_faith h h'"
    using assms(3)
  proof (induction rule: rtranclp_induct)
    case (step y z)
    then show ?case using object_step_safe [OF step.hyps(2)] keeps_faith_trans by blast
  qed (use assms in simp)
  then show ?thesis unfolding keeps_faith_def row_stays_def fixed_part_def by simp
qed

end
