(* ===== verification/Object_Samples.thy ===== *)
theory Object_Samples
  imports Object_Invariant
begin

text \<open>
  A small object heap, on which the theorems about objects are applied, and two places where the object
  module does not do what it says.
\<close>

subsection \<open>An object in a heap of 208 bytes\<close>

definition blank_heap :: heap where
  "blank_heap = heap_new (replicate 208 0) (replicate 2 slot_empty)"

lemma blank_heap_ok: "objects_ok blank_heap"
  unfolding blank_heap_def by (rule empty_objects_ok) simp_all

lemma blank_created:
  assumes "object_create blank_heap v_null = Inr (k, h)"
  shows "objects_ok h" "is_object_cell h k" "props h k = []" "object_open h k" "object_proto h k = v_null"
    "acyclic (proto_edges h)"
proof -
  have "value_wf v_null" by code_simp
  then have c: "objects_ok h" "\<exists>c. store h = (store blank_heap)(k \<mapsto> (ObjectCell, c))" "props h k = []"
    "object_open h k" "object_proto h k = v_null"
    using object_create_spec [OF blank_heap_ok, of v_null] assms by (auto simp: v_null_def)
  then show "objects_ok h" "is_object_cell h k" "props h k = []" "object_open h k" "object_proto h k = v_null"
    by (auto simp: is_object_cell_def)
  have "store blank_heap l = None" for l
    by (auto simp: blank_heap_def store_eq slot_names_def heap_new_def heap_with_worklist_def heap_over_def slot_empty_def)
  then have "proto_edges blank_heap = {}" by (simp add: proto_edges_def is_object_cell_def)
  then have "acyclic (proto_edges blank_heap)" by (simp add: acyclic_def)
  then show "acyclic (proto_edges h)"
    using create_step(3) [OF blank_heap_ok \<open>value_wf v_null\<close> _ assms] by (simp add: v_null_def)
qed

lemma blank_create_runs:
  "case object_create blank_heap v_null of Inl _ \<Rightarrow> False | Inr (k, h) \<Rightarrow>
    table_of h k = Inr None \<and> (case heap_allocate h PropertyTableCell 136 of Inl _ \<Rightarrow> False | Inr _ \<Rightarrow> True)"
  by code_simp

lemma blank_object:
  obtains k h where "object_create blank_heap v_null = Inr (k, h)"
    "\<And>key d. descriptor_wf d \<Longrightarrow> \<exists>h'. append_property h k key d = Inr h'"
proof -
  obtain k h where kh: "object_create blank_heap v_null = Inr (k, h)"
    using blank_create_runs by (cases "object_create blank_heap v_null") auto
  then obtain r where run: "object_create blank_heap v_null = Inr (k, h)" "table_of h k = Inr None"
      "heap_allocate h PropertyTableCell 136 = Inr r"
    using blank_create_runs by (cases "heap_allocate h PropertyTableCell 136") auto
  note b = blank_created [OF run(1)]
  obtain c where c: "store h k = Some (ObjectCell, c)" using b(2) by (auto simp: is_object_cell_def)
  have "handle_read_at c object_TABLE = None" using run(2) object_cell_store [OF b(1) c] by (simp add: table_of_def)
  from append_first_property [OF b(1) c this _ run(3)] show ?thesis using that run(1) by blast
qed

lemma blank_define:
  assumes "object_create blank_heap v_null = Inr (k, h)" "append_property h k key d = Inr h'"
  shows "define_own_property h k key d = Inr (True, h')"
    "d = descriptor_data v attr_DEFAULT \<Longrightarrow> object_set h k key v = Inr (AssignDone, h')"
proof -
  note b = blank_created [OF assms(1)]
  obtain c where c: "store h k = Some (ObjectCell, c)" using b(2) by (auto simp: is_object_cell_def)
  have none: "map_of (props h k) key = None" using b(3) by simp
  show "define_own_property h k key d = Inr (True, h')"
    using find_property_None [OF b(1) c none] is_extensible_eq [OF b(1) c] b(4) assms(2) by (simp add: define_own_property_def)
  show "object_set h k key v = Inr (AssignDone, h')" if "d = descriptor_data v attr_DEFAULT"
    using get_own_property_eq [OF b(1) c] none prototype_eq [OF b(1) c] is_extensible_eq [OF b(1) c] b(4,5) assms(2) that
    by (simp add: object_set_def set_chain.simps [of _ _ 256] v_null_def)
qed

abbreviation (input) sample_descriptor :: descriptor where
  "sample_descriptor \<equiv> descriptor_data v_null 0"

lemma sample_descriptor_wf: "descriptor_wf sample_descriptor"
  by (simp add: descriptor_wf_def descriptor_data_def)

subsection \<open>The theorems at work\<close>

theorem define_own_property_refines_witness:
  "case object_create blank_heap v_null of Inl _ \<Rightarrow> False | Inr (k, h) \<Rightarrow>
    (case define_own_property h k (KeyIndex 7) sample_descriptor of Inl _ \<Rightarrow> False | Inr (admitted, h') \<Rightarrow>
      admitted \<and> props h' k = [(KeyIndex 7, sample_descriptor)])"
proof -
  obtain k h h' where run: "object_create blank_heap v_null = Inr (k, h)" "append_property h k (KeyIndex 7) sample_descriptor = Inr h'"
    using blank_object sample_descriptor_wf by metis
  note b = blank_created [OF run(1)] and d = blank_define(1) [OF run]
  show ?thesis
    using define_own_property_refines [OF b(1,2) sample_descriptor_wf, of "KeyIndex 7"] b(3) run(1) d
    by (simp add: props_become_def)
qed

theorem object_get_first_owner_witness:
  "case object_create blank_heap v_null of Inl _ \<Rightarrow> False | Inr (k, h) \<Rightarrow> object_get h k (KeyIndex 7) = Inr Absent"
proof -
  obtain k h where run: "object_create blank_heap v_null = Inr (k, h)" using blank_object by metis
  note b = blank_created [OF run]
  have "owner h (KeyIndex 7) k 0 None" by (rule owner.nowhere) (simp_all add: b(3,5) v_null_def)
  then show ?thesis using object_get_first_owner [OF b(1,2), of "KeyIndex 7"] run by (auto simp: found_at_def)
qed

theorem object_set_then_get_witness:
  "case object_create blank_heap v_null of Inl _ \<Rightarrow> False | Inr (k, h) \<Rightarrow>
    (case object_set h k (KeyIndex 7) v_null of Inl _ \<Rightarrow> False | Inr (a, h') \<Rightarrow>
      a = AssignDone \<and> object_get h' k (KeyIndex 7) = Inr (LookupValue v_null))"
proof -
  have v: "value_wf v_null" by code_simp
  then have "descriptor_wf (descriptor_data v_null attr_DEFAULT)" by (simp add: descriptor_wf_def descriptor_data_def)
  then obtain k h h' where run: "object_create blank_heap v_null = Inr (k, h)"
      "append_property h k (KeyIndex 7) (descriptor_data v_null attr_DEFAULT) = Inr h'"
    using blank_object by metis
  note b = blank_created [OF run(1)] and set = blank_define(2) [OF run refl]
  show ?thesis using object_set_then_get [OF b(1,2) v set] run(1) set by simp
qed

theorem object_delete_refines_witness:
  "case object_create blank_heap v_null of Inl _ \<Rightarrow> False | Inr (k, h) \<Rightarrow>
    (case define_own_property h k (KeyIndex 7) sample_descriptor of Inl _ \<Rightarrow> False | Inr (_, h') \<Rightarrow>
    (case object_delete h' k (KeyIndex 7) of Inl _ \<Rightarrow> False | Inr (b, h'') \<Rightarrow>
      \<not> b \<and> props h'' k = [(KeyIndex 7, sample_descriptor)]))"
proof -
  obtain k h h' where run: "object_create blank_heap v_null = Inr (k, h)" "append_property h k (KeyIndex 7) sample_descriptor = Inr h'"
    using blank_object sample_descriptor_wf by metis
  note b = blank_created [OF run(1)] and def = blank_define(1) [OF run]
  obtain c where c: "store h k = Some (ObjectCell, c)" using b(2) by (auto simp: is_object_cell_def)
  have p: "props h' k = [(KeyIndex 7, sample_descriptor)]" "objects_ok h'" "same_shape h h'"
    using define_own_property_rows [OF b(1) c sample_descriptor_wf, of "KeyIndex 7"] def b(3) by (simp_all add: props_become_def)
  have "is_object_cell h' k" by (rule same_shape_fields(3) [OF p(3) b(1) c])
  moreover have "\<not> d_has sample_descriptor attr_CONFIGURABLE" by (simp add: d_has_def descriptor_data_def)
  ultimately show ?thesis
    using object_delete_refines [OF p(2), of k "KeyIndex 7"] run(1) def p(1) by auto
qed

theorem own_keys_order_witness:
  "case object_create blank_heap v_null of Inl _ \<Rightarrow> False | Inr (k, h) \<Rightarrow>
    (case append_property h k (KeyIndex 7) sample_descriptor of Inl _ \<Rightarrow> False | Inr h' \<Rightarrow>
      own_keys h' k 1 = Inr [KeyIndex 7] \<and> own_keys h' k 0 = Inl TooManyKeys)"
proof -
  obtain k h h' where run: "object_create blank_heap v_null = Inr (k, h)" "append_property h k (KeyIndex 7) sample_descriptor = Inr h'"
    using blank_object sample_descriptor_wf by metis
  note b = blank_created [OF run(1)]
  obtain c where c: "store h k = Some (ObjectCell, c)" using b(2) by (auto simp: is_object_cell_def)
  have "props_become h k [(KeyIndex 7, sample_descriptor)] h'"
    using append_property_spec [OF b(1) c _ sample_descriptor_wf, of "KeyIndex 7"] b(3) run(2) by simp
  then have h': "objects_ok h'" "props h' k = [(KeyIndex 7, sample_descriptor)]" "same_shape h h'"
    by (simp_all add: props_become_def)
  have "is_object_cell h' k" by (rule same_shape_fields(3) [OF h'(3) b(1) c])
  then have "own_keys h' k room = (if 1 \<le> room then Inr [KeyIndex 7] else Inl TooManyKeys)" for room
    using own_keys_order [OF h'(1), of k room] h'(2) by (simp add: ordered_own_keys_def index_set_def is_name_key_def)
  then show ?thesis using run by simp
qed

text \<open>An object with a property that is named by a string.\<close>

definition named_heap :: heap where
  "named_heap = heap_new (replicate 224 0) (replicate 3 slot_empty)"

lemma named_runs:
  "case object_create named_heap v_null of Inl _ \<Rightarrow> False | Inr (k, h) \<Rightarrow>
    (case heap_allocate h StringCell 4 of Inl _ \<Rightarrow> False | Inr (s, h1) \<Rightarrow>
      table_of h1 k = Inr None \<and> (case heap_allocate h1 PropertyTableCell 136 of Inl _ \<Rightarrow> False | Inr _ \<Rightarrow> True))"
  by code_simp

lemma string_objects_ok:
  assumes "objects_ok h" "heap_allocate h StringCell n = Inr (s, h')"
  shows "objects_ok h'" "store h s = None" "store h' = (store h)(s \<mapsto> (StringCell, replicate n 0))"
proof -
  have hk: "heap_ok h" using assms(1) by (simp add: objects_ok_def)
  note law = cells.alloc_law [OF hk _ assms(2)]
  show fresh: "store h s = None" and st: "store h' = (store h)(s \<mapsto> (StringCell, replicate n 0))" using law by simp_all
  have obj: "store h k = Some (ObjectCell, c)" if "store h' k = Some (ObjectCell, c)" for k c
    using that st by (cases "k = s") simp_all
  have kept: "store h' k = Some x" if "store h k = Some x" for k x using that st fresh by (cases "k = s") auto
  show "objects_ok h'"
  proof (rule objects_okI)
    fix k c
    assume k: "store h' k = Some (ObjectCell, c)"
    note ok = objects_okD [OF assms(1) obj [OF k]]
    show "object_SIZE \<le> length c" by (rule ok)
    show "\<exists>tc. store h' t = Some (PropertyTableCell, tc) \<and> table_ok tc" if "handle_read_at c object_TABLE = Some t" for t
      using ok(3) [OF that] kept by blast
    show "\<exists>pc. store h' (as_handle (decode_at c object_PROTOTYPE)) = Some (ObjectCell, pc)"
      if "v_tag (decode_at c object_PROTOTYPE) = Object"
      using ok(4) [OF that] kept by blast
    fix l d t
    assume "store h' l = Some (ObjectCell, d)" "handle_read_at c object_TABLE = Some t" "handle_read_at d object_TABLE = Some t"
    then show "k = l" using ok(5) obj by blast
  qed (use law in simp)
qed

lemma named_object:
  obtains k s h c where "objects_ok h" "store h k = Some (ObjectCell, c)" "handle_read_at c object_TABLE = None"
    "store h s = Some (StringCell, replicate 4 0)" "\<exists>r. heap_allocate h PropertyTableCell 136 = Inr r"
proof -
  obtain k h0 where create: "object_create named_heap v_null = Inr (k, h0)"
    using named_runs by (cases "object_create named_heap v_null") auto
  then obtain s h where string: "heap_allocate h0 StringCell 4 = Inr (s, h)"
    using named_runs by (cases "heap_allocate h0 StringCell 4") auto
  with create have run: "table_of h k = Inr None" "\<exists>r. heap_allocate h PropertyTableCell 136 = Inr r"
    using named_runs by (auto split: sum.splits)
  have "value_wf v_null" by code_simp
  moreover have "objects_ok named_heap" unfolding named_heap_def by (rule empty_objects_ok) simp_all
  ultimately obtain c where ok: "objects_ok h0" "store h0 k = Some (ObjectCell, c)"
    using object_create_spec [of named_heap v_null] create by (auto simp: v_null_def)
  note one = string_objects_ok [OF ok(1) string]
  then have k: "store h k = Some (ObjectCell, c)" using ok(2) by auto
  have "handle_read_at c object_TABLE = None" using run(1) object_cell_store [OF one(1) k] by (simp add: table_of_def)
  then show ?thesis using that [OF one(1) k, of s] one(3) run(2) by simp
qed

theorem collect_keeps_objects_witness:
  "\<exists>h k s h'. objects_ok h \<and> map fst (props h k) = [KeyName s] \<and> collect h [k] 1 = Some (Inr h') \<and>
    map fst (props h' k) = [KeyName s] \<and> store h' s = Some (StringCell, replicate 4 0)"
proof -
  obtain k s h c where h: "objects_ok h" "store h k = Some (ObjectCell, c)" "handle_read_at c object_TABLE = None"
    "store h s = Some (StringCell, replicate 4 0)" "\<exists>r. heap_allocate h PropertyTableCell 136 = Inr r"
    by (rule named_object) blast
  obtain h1 where a: "append_property h k (KeyName s) sample_descriptor = Inr h1"
    using append_first_property [OF h(1-3) sample_descriptor_wf] h(5) by blast
  have p: "props h k = []" by (rule props_none [OF h(2,3)])
  have b: "props_become h k [(KeyName s, sample_descriptor)] h1"
    using append_property_spec [OF h(1,2) _ sample_descriptor_wf, of "KeyName s"] p a by simp
  then have ok: "objects_ok h1" "props h1 k = [(KeyName s, sample_descriptor)]" "same_shape h h1" by (simp_all add: props_become_def)
  obtain c1 where c1: "store h1 k = Some (ObjectCell, c1)" using same_shapeD(1) [OF ok(3) h(2)] by blast
  obtain s1 where s1: "store h1 s = Some (StringCell, s1)" "kept StringCell (replicate 4 0) s1" using same_shapeD(1) [OF ok(3) h(4)] by blast
  have "reachable h1 [k] k" using c1 by (auto intro!: reachable.root)
  moreover have "property_holds (KeyName s, sample_descriptor) s" by (simp add: property_holds_def)
  ultimately obtain h' where "collect h1 [k] 1 = Some (Inr h')" "props h' k = props h1 k" "store h' s = store h1 s"
    using collect_keeps_objects [OF ok(1), of 1 "[k]"] ok(2) by auto
  then show ?thesis using ok s1 by (intro exI [of _ h1] exI [of _ k] exI [of _ s] exI [of _ h']) (simp add: kept_def)
qed

theorem object_steps_safe_witness:
  "case object_create blank_heap v_null of Inl _ \<Rightarrow> False | Inr (k, h) \<Rightarrow>
    (case define_own_property h k (KeyIndex 7) sample_descriptor of Inl _ \<Rightarrow> False | Inr (_, h') \<Rightarrow>
    (case prevent_extensions h' k of Inl _ \<Rightarrow> False | Inr h'' \<Rightarrow>
      objects_ok h'' \<and> acyclic (proto_edges h'') \<and>
      (\<exists>d. map_of (props h'' k) (KeyIndex 7) = Some d \<and> \<not> d_has d attr_WRITABLE \<and> d_value d = v_null)))"
proof -
  obtain k h h' where run: "object_create blank_heap v_null = Inr (k, h)" "append_property h k (KeyIndex 7) sample_descriptor = Inr h'"
    using blank_object sample_descriptor_wf by metis
  note b = blank_created [OF run(1)] and def = blank_define(1) [OF run]
  obtain c where c: "store h k = Some (ObjectCell, c)" using b(2) by (auto simp: is_object_cell_def)
  have h': "objects_ok h'" "acyclic (proto_edges h')" "is_object_cell h' k"
    using define_step [OF b(1) c sample_descriptor_wf def] b(2,6) by (simp_all add: keeps_faith_def)
  have m: "map_of (props h' k) (KeyIndex 7) = Some sample_descriptor"
    using define_own_property_rows [OF b(1) c sample_descriptor_wf, of "KeyIndex 7"] def b(3) by (simp add: props_become_def)
  have nz: "\<not> both_zero v_null d" for d by (simp add: both_zero_def v_null_def v_number_def)
  obtain h'' where h'': "prevent_extensions h' k = Inr h''"
    using prevent_extensions_spec [OF h'(1)] h'(3) by (auto simp: is_object_cell_def)
  have "object_step\<^sup>*\<^sup>* h' h''" using object_step.closed [OF h'(3) h''] by simp
  note safe = object_steps_safe [OF h'(1,2) this]
  have "\<exists>d. map_of (props h'' k) (KeyIndex 7) = Some d \<and> \<not> d_has d attr_WRITABLE \<and> d_value d = v_null"
  proof -
    have e: "\<not> d_has sample_descriptor attr_CONFIGURABLE" "\<not> d_has sample_descriptor attr_WRITABLE"
      "d_kind sample_descriptor = DataProperty" "d_value sample_descriptor = v_null"
      by (simp_all add: d_has_def descriptor_data_def)
    from safe h'(3) m e show ?thesis using nz by metis
  qed
  then show ?thesis using safe run(1) def h'' by simp
qed

subsection \<open>Where the module departs from its comments\<close>

text \<open>Redefining a frozen property with what it already is should be admitted, and with another value
  refused. The comparison is strict equality: a frozen NaN may not be redefined as itself, and a frozen zero
  may change its sign.\<close>

lemma frozen_nan_refused:
  "is_compatible (descriptor_data (v_number 0x7FF8000000000000) 0) (descriptor_data (v_number 0x7FF8000000000000) 0) = False"
  by code_simp

lemma frozen_zero_changes_sign:
  "is_compatible (descriptor_data (v_number 0) 0) (descriptor_data (v_number 0x8000000000000000) 0)"
  by code_simp

text \<open>A settled promise answers that it is a constructor: the flag byte holds the state of a promise.\<close>

lemma fulfilled_promise_constructs:
  "case object_create (heap_new (replicate 64 0) [slot_empty]) v_null of Inl _ \<Rightarrow> False | Inr (k, h) \<Rightarrow>
    (case make_promise h k of Inl _ \<Rightarrow> False | Inr h \<Rightarrow>
    (case settle_promise h k 1 v_null of Inl _ \<Rightarrow> False | Inr (_, h) \<Rightarrow> is_constructor h k = Inr True))"
  by code_simp

end
