(* ===== verification/Promise_Samples.thy ===== *)
theory Promise_Samples
  imports Promises Object_Samples
begin

text \<open>
  A promise in a small heap with one reaction and a queue of one slot or of none, on which the theorems about
  promises are applied.
\<close>

lemma make_promise_spec:
  assumes "objects_ok h" "store h p = Some (ObjectCell, c)"
  shows "\<exists>h'. make_promise h p = Inr h' \<and> promise_ok h' p \<and> reactions h' p = [] \<and> state_of h' p = PENDING \<and>
    promise_reactions h' p = Inr None"
proof -
  have size: "56 \<le> length c" by (rule objects_okD(2) [OF assms])
  let ?c = "handle_write_none_at (encode_at v_undefined (put_at (put_at c 20 [3]) 21 [0]) 28) 40"
  let ?change = "\<lambda>cell. and_then (set_byte IndexPanic cell 20 3) (\<lambda>cell. and_then (set_byte IndexPanic cell 21 0) (\<lambda>cell.
      Inr (handle_write_none_at (encode_at v_undefined cell 28) 40))) :: object_error + byte list"
  have ch: "?change c = Inr ?c" using size by (simp add: set_byte_def)
  have len: "length ?c = length c" by simp
  obtain h' where h': "make_promise h p = Inr h'" "heap_ok h'" "store h' = (store h)(p \<mapsto> (ObjectCell, ?c))"
    using change_object_field [OF assms, of ?change, OF ch len] by (auto simp: make_promise_def)
  have bytes: "?c ! 20 = 3" "?c ! 21 = 0" using size by (simp_all add: handle_write_none_at_def encode_at_def put_at_nth)
  have none: "handle_read_at ?c 40 = None" using handle_read_write_none_at [of "encode_at v_undefined (put_at (put_at c 20 [3]) 21 [0]) 28" 40] size by simp
  have s: "store h' p = Some (ObjectCell, ?c)" "56 \<le> length ?c" using h'(3) size by simp_all
  have "promise_ok h' p" using h'(2) s bytes none by (simp add: promise_ok_def)
  moreover have "reactions h' p = []" "state_of h' p = PENDING" using s none bytes by (simp_all add: reactions_def state_of_def)
  moreover have "promise_reactions h' p = Inr None" using promise_reads(5) [OF s] none by simp
  ultimately show ?thesis using h'(1) by blast
qed

lemma sample_promise_runs:
  "case promise_create blank_heap v_null of Inl _ \<Rightarrow> False | Inr (p, h) \<Rightarrow>
    (case heap_allocate h ElementsCell 136 of Inl _ \<Rightarrow> False | Inr _ \<Rightarrow> True)"
  by code_simp

text \<open>The reaction has a handler for the fulfilled case only.\<close>

abbreviation (input) sample_reaction :: reaction where
  "sample_reaction \<equiv> (v_object (handle_new 5 1), v_undefined, v_undefined)"

lemma sample_promise:
  obtains p h h1 where "promise_create blank_heap v_null = Inr (p, h)" "promise_ok h p" "reactions h p = []" "state_of h p = PENDING"
    "\<And>q. attach_all h q p [sample_reaction] = Inr (h1, q)"
proof -
  obtain p h where run: "promise_create blank_heap v_null = Inr (p, h)"
    using sample_promise_runs by (cases "promise_create blank_heap v_null") auto
  then obtain r where alloc: "heap_allocate h ElementsCell 136 = Inr r"
    using sample_promise_runs by (cases "heap_allocate h ElementsCell 136") auto
  obtain h0 where h0: "object_create blank_heap v_null = Inr (p, h0)" "make_promise h0 p = Inr h"
    using run by (auto simp: promise_create_def and_then_Inr)
  note b = blank_created [OF h0(1)]
  obtain c where c: "store h0 p = Some (ObjectCell, c)" using b(2) by (auto simp: is_object_cell_def)
  have p: "promise_ok h p" "reactions h p = []" "state_of h p = PENDING" "promise_reactions h p = Inr None"
    using make_promise_spec [OF b(1) c] h0(2) by auto
  have "reaction_wf sample_reaction" by (simp add: reaction_wf_def)
  from append_first_reaction [OF p(1) this p(4) alloc] obtain h1 where
    "promise_append h p (v_object (handle_new 5 1)) v_undefined v_undefined = Inr h1" by blast
  then have "attach_all h q p [sample_reaction] = Inr (h1, q)" for q using react_pending [OF p(1,3)] by simp
  then show ?thesis using that run p by blast
qed

lemma sample_jobs:
  "jobs_of FULFILLED v_null sample_reaction =
    [\<lparr>j_kind = Reaction, j_target = v_object (handle_new 5 1), j_argument = v_null, j_derived = v_undefined\<rparr>]"
  by (simp add: jobs_of_def v_object_def)

theorem promise_reactions_run_witness:
  "case promise_create blank_heap v_null of Inl _ \<Rightarrow> False | Inr (p, h) \<Rightarrow>
    (case attach_all h (queue_new [job_empty]) p [sample_reaction] of Inl _ \<Rightarrow> False | Inr (h1, q1) \<Rightarrow>
      (\<exists>h2 q2. settle h1 q1 p FULFILLED v_null = (Inr True, h2, q2) \<and>
        queue_contents q2 =
          [\<lparr>j_kind = Reaction, j_target = v_object (handle_new 5 1), j_argument = v_null, j_derived = v_undefined\<rparr>]))"
proof (rule sample_promise)
  fix p h h1
  assume run: "promise_create blank_heap v_null = Inr (p, h)" and p: "promise_ok h p" "reactions h p = []" "state_of h p = PENDING"
    and attach: "\<And>q. attach_all h q p [sample_reaction] = Inr (h1, q)"
  let ?q = "queue_new [job_empty]"
  have q: "queue_wf ?q" "queue_contents ?q = []" using queue_new_wf [of "[job_empty]"] by simp_all
  have room: "room_in ?q = 1" using q(2) by (simp add: room_in_def queue_capacity_def queue_new_def)
  have wf: "\<forall>x \<in> set [sample_reaction]. reaction_wf x" by (simp add: reaction_wf_def)
  have fit: "length (concat (map (jobs_of FULFILLED v_null) [sample_reaction])) \<le> room_in ?q"
    using room by (simp add: sample_jobs)
  from promise_reactions_run [OF p(1,3,2) wf attach q(1) value_wf_constructors(2) _ fit]
  show ?thesis using run attach q(2) by (auto simp: sample_jobs)
qed

theorem settle_full_queue_drops_witness:
  "case promise_create blank_heap v_null of Inl _ \<Rightarrow> False | Inr (p, h) \<Rightarrow>
    (case attach_all h (queue_new []) p [sample_reaction] of Inl _ \<Rightarrow> False | Inr (h1, q1) \<Rightarrow>
      (\<exists>h2 q2. settle h1 q1 p FULFILLED v_null = (Inl (PromiseQueue Full), h2, q2) \<and> state_of h2 p = FULFILLED \<and>
        queue_contents q2 = []))"
proof (rule sample_promise)
  fix p h h1
  assume run: "promise_create blank_heap v_null = Inr (p, h)" and p: "promise_ok h p" "reactions h p = []" "state_of h p = PENDING"
    and attach: "\<And>q. attach_all h q p [sample_reaction] = Inr (h1, q)"
  let ?q = "queue_new []"
  have q: "queue_wf ?q" "queue_contents ?q = []" using queue_new_wf [of "[]"] by simp_all
  have room: "room_in ?q = 0" by (simp add: room_in_def queue_capacity_def queue_new_def)
  have wf: "\<forall>x \<in> set [sample_reaction]. reaction_wf x" by (simp add: reaction_wf_def)
  have h1: "promise_ok h1 p" "state_of h1 p = PENDING" "reactions h1 p = [sample_reaction]"
    using attach_all_waits [OF p(1,3) wf attach] p(2) by simp_all
  have over: "room_in ?q < length (concat (map (jobs_of FULFILLED v_null) (reactions h1 p)))"
    using room h1(3) by (simp add: sample_jobs)
  from settle_full_queue_drops [OF h1(1,2) value_wf_constructors(2) q(1) _ over]
  show ?thesis using run attach q(2) room by auto
qed

end
