(* ===== verification/Env_Cells.thy ===== *)
theory Env_Cells
  imports Object_Cells
begin

text \<open>
  Lexical environments, from \<^verbatim>\<open>modules/common/env.rs\<close>: a record with a kind, a parent, \<open>this\<close>, \<open>new.target\<close> and a
  flat array of bindings of 24 bytes, each with flags, a name and a value. Names of operations that other
  components have too carry the prefix \<open>env\<close>. \<open>EnvIndexPanic\<close> is no variant of the source's enumeration: it
  stands for an index out of range.
\<close>

unbundle bit_operations_syntax

datatype environment_kind = DeclarativeEnv | FunctionEnv | ObjectEnv | ArrowEnv

abbreviation (input) binding_MUTABLE :: byte where "binding_MUTABLE \<equiv> 1"
abbreviation (input) binding_INITIALISED :: byte where "binding_INITIALISED \<equiv> 2"

datatype environment_error =
  EnvHeap heap_error | Unresolvable | Uninitialised | Immutable | EnvFull | ChainTooDeep | EnvIndexPanic

abbreviation (input) max_scope_depth :: nat where "max_scope_depth \<equiv> 256"
abbreviation (input) environment_KIND :: nat where "environment_KIND \<equiv> 0"
abbreviation (input) environment_CAPACITY :: nat where "environment_CAPACITY \<equiv> 8"
abbreviation (input) environment_THIS_UNINITIALISED :: nat where "environment_THIS_UNINITIALISED \<equiv> 30"
abbreviation (input) binding_FLAGS :: nat where "binding_FLAGS \<equiv> 0"

fun environment_kind_byte :: "environment_kind \<Rightarrow> byte" where
  "environment_kind_byte DeclarativeEnv = 0"
| "environment_kind_byte FunctionEnv = 1"
| "environment_kind_byte ObjectEnv = 2"
| "environment_kind_byte ArrowEnv = 3"

subsection \<open>Access\<close>

definition environment_cell :: "heap \<Rightarrow> handle \<Rightarrow> environment_error + byte list" where
  "environment_cell h e =
     and_then (map_err EnvHeap (heap_kind h e)) (\<lambda>kind.
     if kind \<noteq> EnvironmentCell then Inl (EnvHeap StaleHandle)
     else
       and_then (map_err EnvHeap (heap_cell h e)) (\<lambda>cell.
       if length cell < environment_HEADER then Inl (EnvHeap StaleHandle) else Inr cell))"

definition change_environment ::
  "heap \<Rightarrow> handle \<Rightarrow> (byte list \<Rightarrow> environment_error + byte list) \<Rightarrow> environment_error + heap" where
  "change_environment h e change = with_cell EnvHeap h e change"

definition env_count :: "heap \<Rightarrow> handle \<Rightarrow> environment_error + nat" where
  "env_count h e = and_then (environment_cell h e) (\<lambda>cell. Inr (read_u32_at cell environment_COUNT))"

definition env_capacity :: "heap \<Rightarrow> handle \<Rightarrow> environment_error + nat" where
  "env_capacity h e = and_then (environment_cell h e) (\<lambda>cell. Inr (read_u32_at cell environment_CAPACITY))"

definition binding_at :: "nat \<Rightarrow> nat" where
  "binding_at index = environment_HEADER + index * environment_BINDING"

definition binding_bytes :: "byte list \<Rightarrow> nat \<Rightarrow> byte list option" where
  "binding_bytes cell index = subrange cell (binding_at index) (binding_at index + environment_BINDING)"

definition binding_record :: "heap \<Rightarrow> handle \<Rightarrow> nat \<Rightarrow> environment_error + byte list" where
  "binding_record h e index =
     and_then (env_count h e) (\<lambda>n.
     if n \<le> index then Inl Unresolvable
     else
       and_then (environment_cell h e) (\<lambda>cell.
       ok_or Unresolvable (binding_bytes cell index)))"

text \<open>The record of one binding is a sub-slice of the cell: it is changed and put back at its place.\<close>

definition change_binding ::
  "environment_error \<Rightarrow> byte list \<Rightarrow> nat \<Rightarrow> (byte list \<Rightarrow> environment_error + byte list) \<Rightarrow> environment_error + byte list" where
  "change_binding missing cell index change =
     and_then (ok_or missing (binding_bytes cell index)) (\<lambda>record.
     and_then (change record) (\<lambda>record.
     Inr (put_at cell (binding_at index) record)))"

subsection \<open>The record's own fields\<close>

definition env_create :: "heap \<Rightarrow> environment_kind \<Rightarrow> jsvalue \<Rightarrow> nat \<Rightarrow> environment_error + handle \<times> heap" where
  "env_create h kind parent capacity =
     (let n = environment_HEADER + capacity * environment_BINDING in
      if u32_max < n then Inl (EnvHeap ArenaFull)
      else
        and_then (map_err EnvHeap (heap_allocate h EnvironmentCell n)) (\<lambda>(e, h).
        and_then (change_environment h e (\<lambda>cell.
          and_then (set_byte EnvIndexPanic cell environment_KIND (environment_kind_byte kind)) (\<lambda>cell.
            let cell = write_u32 cell environment_COUNT 0;
                cell = write_u32 cell environment_CAPACITY capacity;
                cell = encode_at parent cell environment_PARENT;
                cell = encode_at v_undefined cell environment_THIS
            in and_then (set_byte EnvIndexPanic cell environment_THIS_UNINITIALISED 0) (\<lambda>cell.
               let cell = encode_at v_undefined cell environment_NEW_TARGET
               in Inr (encode_at v_undefined cell environment_FUNCTION))))) (\<lambda>h.
        Inr (e, h))))"

definition env_value :: "heap \<Rightarrow> handle \<Rightarrow> nat \<Rightarrow> environment_error + jsvalue" where
  "env_value h e i = and_then (environment_cell h e) (\<lambda>cell. Inr (decode_at cell i))"

definition set_env_value :: "heap \<Rightarrow> handle \<Rightarrow> nat \<Rightarrow> jsvalue \<Rightarrow> environment_error + heap" where
  "set_env_value h e i v = change_environment h e (\<lambda>cell. Inr (encode_at v cell i))"

definition env_function :: "heap \<Rightarrow> handle \<Rightarrow> environment_error + jsvalue" where
  "env_function h e = env_value h e environment_FUNCTION"

definition set_function :: "heap \<Rightarrow> handle \<Rightarrow> jsvalue \<Rightarrow> environment_error + heap" where
  "set_function h e v = set_env_value h e environment_FUNCTION v"

definition this_uninitialised :: "heap \<Rightarrow> handle \<Rightarrow> environment_error + bool" where
  "this_uninitialised h e =
     and_then (environment_cell h e) (\<lambda>cell.
     and_then (byte_at EnvIndexPanic cell environment_THIS_UNINITIALISED) (\<lambda>b. Inr (b \<noteq> 0)))"

definition mark_this_uninitialised :: "heap \<Rightarrow> handle \<Rightarrow> environment_error + heap" where
  "mark_this_uninitialised h e =
     change_environment h e (\<lambda>cell. set_byte EnvIndexPanic cell environment_THIS_UNINITIALISED 1)"

definition create_object_environment :: "heap \<Rightarrow> jsvalue \<Rightarrow> handle \<Rightarrow> environment_error + handle \<times> heap" where
  "create_object_environment h parent k =
     and_then (env_create h ObjectEnv parent 0) (\<lambda>(e, h).
     and_then (set_env_value h e environment_THIS (v_object k)) (\<lambda>h. Inr (e, h)))"

definition env_kind :: "heap \<Rightarrow> handle \<Rightarrow> environment_error + environment_kind" where
  "env_kind h e =
     and_then (environment_cell h e) (\<lambda>cell.
     and_then (byte_at EnvIndexPanic cell environment_KIND) (\<lambda>b.
     Inr (if b = 1 then FunctionEnv else if b = 2 then ObjectEnv else if b = 3 then ArrowEnv else DeclarativeEnv)))"

definition env_parent :: "heap \<Rightarrow> handle \<Rightarrow> environment_error + jsvalue" where
  "env_parent h e = env_value h e environment_PARENT"

definition binding_object :: "heap \<Rightarrow> handle \<Rightarrow> environment_error + jsvalue" where
  "binding_object h e = env_value h e environment_THIS"

definition this_value :: "heap \<Rightarrow> handle \<Rightarrow> environment_error + jsvalue" where
  "this_value h e = env_value h e environment_THIS"

definition set_this :: "heap \<Rightarrow> handle \<Rightarrow> jsvalue \<Rightarrow> environment_error + heap" where
  "set_this h e v =
     change_environment h e (\<lambda>cell.
       set_byte EnvIndexPanic (encode_at v cell environment_THIS) environment_THIS_UNINITIALISED 0)"

definition new_target :: "heap \<Rightarrow> handle \<Rightarrow> environment_error + jsvalue" where
  "new_target h e = env_value h e environment_NEW_TARGET"

definition set_new_target :: "heap \<Rightarrow> handle \<Rightarrow> jsvalue \<Rightarrow> environment_error + heap" where
  "set_new_target h e v = set_env_value h e environment_NEW_TARGET v"

definition set_parent :: "heap \<Rightarrow> handle \<Rightarrow> jsvalue \<Rightarrow> environment_error + heap" where
  "set_parent h e v = set_env_value h e environment_PARENT v"

subsection \<open>Bindings\<close>

definition env_declare :: "heap \<Rightarrow> handle \<Rightarrow> handle \<Rightarrow> byte \<Rightarrow> environment_error + nat \<times> heap" where
  "env_declare h e name flags =
     and_then (env_count h e) (\<lambda>n.
     and_then (env_capacity h e) (\<lambda>capacity.
     if capacity \<le> n then Inl EnvFull
     else
       and_then (change_environment h e (\<lambda>cell.
         and_then (change_binding EnvFull cell n (\<lambda>record.
           and_then (set_byte EnvIndexPanic record binding_FLAGS (flags AND NOT binding_INITIALISED)) (\<lambda>record.
           Inr (encode_at v_undefined (handle_write_at name record binding_NAME) binding_VALUE)))) (\<lambda>cell.
         Inr (write_u32 cell environment_COUNT (wadd32 n 1))))) (\<lambda>h.
       Inr (n, h))))"

definition initialise :: "heap \<Rightarrow> handle \<Rightarrow> nat \<Rightarrow> jsvalue \<Rightarrow> environment_error + heap" where
  "initialise h e index v =
     change_environment h e (\<lambda>cell.
       change_binding Unresolvable cell index (\<lambda>record.
         and_then (byte_at EnvIndexPanic record binding_FLAGS) (\<lambda>flags.
         and_then (set_byte EnvIndexPanic record binding_FLAGS (flags OR binding_INITIALISED)) (\<lambda>record.
         Inr (encode_at v record binding_VALUE)))))"

definition declare_initialised ::
  "heap \<Rightarrow> handle \<Rightarrow> handle \<Rightarrow> byte \<Rightarrow> jsvalue \<Rightarrow> environment_error + nat \<times> heap" where
  "declare_initialised h e name flags v =
     and_then (env_declare h e name flags) (\<lambda>(index, h).
     and_then (initialise h e index v) (\<lambda>h. Inr (index, h)))"

definition slot_name :: "byte list \<Rightarrow> handle" where
  "slot_name record =
     handle_new (of_nat (of_le [record ! 4, record ! 5, record ! 6, record ! 7]))
       (of_nat (of_le [record ! 8, record ! 9, record ! 10, record ! 11]))"

fun scan_bindings :: "byte list \<Rightarrow> handle \<Rightarrow> nat \<Rightarrow> nat \<Rightarrow> environment_error + nat option" where
  "scan_bindings cell name index 0 = Inr None"
| "scan_bindings cell name index (Suc left) =
     and_then (ok_or Unresolvable (binding_bytes cell index)) (\<lambda>record.
       if slot_name record = name then Inr (Some index) else scan_bindings cell name (index + 1) left)"

definition index_of :: "heap \<Rightarrow> handle \<Rightarrow> handle \<Rightarrow> environment_error + nat option" where
  "index_of h e name =
     and_then (env_count h e) (\<lambda>n.
     and_then (environment_cell h e) (\<lambda>cell. scan_bindings cell name 0 n))"

definition binding_flags :: "heap \<Rightarrow> handle \<Rightarrow> nat \<Rightarrow> environment_error + byte" where
  "binding_flags h e index = and_then (binding_record h e index) (\<lambda>record. byte_at EnvIndexPanic record 0)"

definition slot_value :: "heap \<Rightarrow> handle \<Rightarrow> nat \<Rightarrow> environment_error + jsvalue" where
  "slot_value h e index =
     and_then (binding_record h e index) (\<lambda>record.
     and_then (byte_at EnvIndexPanic record binding_FLAGS) (\<lambda>flags.
     if flags AND binding_INITIALISED = 0 then Inl Uninitialised
     else Inr (decode_at record binding_VALUE)))"

definition set_slot :: "heap \<Rightarrow> handle \<Rightarrow> nat \<Rightarrow> jsvalue \<Rightarrow> environment_error + heap" where
  "set_slot h e index v =
     and_then (binding_record h e index) (\<lambda>record.
     and_then (byte_at EnvIndexPanic record 0) (\<lambda>flags.
     if flags AND binding_INITIALISED = 0 then Inl Uninitialised
     else if flags AND binding_MUTABLE = 0 then Inl Immutable
     else
       change_environment h e (\<lambda>cell.
         change_binding Unresolvable cell index (\<lambda>record. Inr (encode_at v record binding_VALUE)))))"

definition env_remove :: "heap \<Rightarrow> handle \<Rightarrow> nat \<Rightarrow> environment_error + heap" where
  "env_remove h e index =
     and_then (env_count h e) (\<lambda>n.
     if n \<le> index then Inl Unresolvable
     else
       change_environment h e (\<lambda>cell.
         change_binding Unresolvable cell index (\<lambda>record.
           and_then (set_byte EnvIndexPanic record binding_FLAGS binding_MUTABLE) (\<lambda>record.
           Inr (encode_at v_undefined (handle_write_at (handle_new 0 0) record binding_NAME) binding_VALUE)))))"

subsection \<open>Resolution\<close>

record resolution =
  r_environment :: handle
  r_index :: nat
  r_depth :: nat

text \<open>What one environment of the chain answers: where it binds the name, if it does.\<close>

definition resolve_here :: "heap \<Rightarrow> handle \<Rightarrow> handle \<Rightarrow> environment_error + nat option" where
  "resolve_here h current name =
     and_then (env_kind h current) (\<lambda>kind.
     case kind of
       ObjectEnv \<Rightarrow>
         and_then (binding_object h current) (\<lambda>k.
         if v_tag k = Object
         then and_then (map_err (\<lambda>_. Unresolvable) (has_property h (as_handle k) (KeyName name)))
           (\<lambda>present. Inr (if present then Some u32_max else None))
         else Inr None)
     | _ \<Rightarrow> index_of h current name)"

fun resolve_chain :: "heap \<Rightarrow> handle \<Rightarrow> nat \<Rightarrow> nat \<Rightarrow> handle \<Rightarrow> environment_error + resolution option" where
  "resolve_chain h name left depth current =
     and_then (resolve_here h current name) (\<lambda>found.
     case found of
       Some index \<Rightarrow> Inr (Some \<lparr>r_environment = current, r_index = index, r_depth = depth\<rparr>)
     | None \<Rightarrow>
         and_then (env_parent h current) (\<lambda>parent.
         if v_tag parent \<noteq> Object then Inr None
         else
           (case left of
              0 \<Rightarrow> Inl ChainTooDeep
            | Suc left \<Rightarrow> resolve_chain h name left (depth + 1) (as_handle parent))))"

declare resolve_chain.simps [simp del]

definition env_resolve :: "heap \<Rightarrow> handle \<Rightarrow> handle \<Rightarrow> environment_error + resolution option" where
  "env_resolve h e name = resolve_chain h name max_scope_depth 0 e"

end
