(* ===== verification/Environments.thy ===== *)
theory Environments
  imports Env_Cells Record_Array Object_Safety
begin

text \<open>
  Environments over the heap. \<open>envs_ok\<close> is the invariant: an environment cell is a counted array of bindings and
  its parent is an environment. \<open>bindings h\<close> is the abstract state, the list of bindings of every environment.
  The theory shows every outcome of the operations on bindings, and that a name resolves to the innermost
  scope that binds it.
\<close>

unbundle bit_operations_syntax

interpretation env: record_array environment_HEADER environment_BINDING environment_COUNT environment_CAPACITY
  by unfold_locales simp_all

subsection \<open>The invariant and the abstract state\<close>

record scope_binding =
  b_name :: handle
  b_flags :: byte
  b_value :: jsvalue

definition binding_of :: "byte list \<Rightarrow> scope_binding" where
  "binding_of r = \<lparr>b_name = slot_name r, b_flags = r ! 0, b_value = decode_at r 12\<rparr>"

definition is_environment :: "heap \<Rightarrow> handle \<Rightarrow> bool" where
  "is_environment h e \<longleftrightarrow> (\<exists>c. store h e = Some (EnvironmentCell, c))"

definition bindings :: "heap \<Rightarrow> handle \<Rightarrow> scope_binding list" where
  "bindings h e = (case store h e of Some (_, c) \<Rightarrow> map binding_of (env.elems c) | None \<Rightarrow> [])"

definition scope_room :: "heap \<Rightarrow> handle \<Rightarrow> nat" where
  "scope_room h e = (case store h e of Some (_, c) \<Rightarrow> read_u32_at c environment_CAPACITY | None \<Rightarrow> 0)"

definition scope_parent :: "heap \<Rightarrow> handle \<Rightarrow> jsvalue" where
  "scope_parent h e = (case store h e of Some (_, c) \<Rightarrow> decode_at c environment_PARENT | None \<Rightarrow> v_undefined)"

definition scope_tag :: "heap \<Rightarrow> handle \<Rightarrow> byte" where
  "scope_tag h e = (case store h e of Some (_, c) \<Rightarrow> c ! environment_KIND | None \<Rightarrow> 0)"

definition scope_object :: "heap \<Rightarrow> handle \<Rightarrow> jsvalue" where
  "scope_object h e = (case store h e of Some (_, c) \<Rightarrow> decode_at c environment_THIS | None \<Rightarrow> v_undefined)"

definition envs_ok :: "heap \<Rightarrow> bool" where
  "envs_ok h \<longleftrightarrow> heap_ok h \<and>
     (\<forall>e c. store h e = Some (EnvironmentCell, c) \<longrightarrow> env.ok c \<and>
        (v_tag (decode_at c environment_PARENT) = Object \<longrightarrow> is_environment h (as_handle (decode_at c environment_PARENT))))"

lemma envs_okD:
  assumes "envs_ok h" "store h e = Some (EnvironmentCell, c)"
  shows "heap_ok h" "env.ok c" "56 \<le> length c"
    "v_tag (decode_at c environment_PARENT) = Object \<Longrightarrow> is_environment h (as_handle (decode_at c environment_PARENT))"
  using assms by (auto simp: envs_ok_def array_ok_def)

lemma environment_cell_store:
  assumes "envs_ok h" "store h e = Some (EnvironmentCell, c)"
  shows "environment_cell h e = Inr c" "env_count h e = Inr (length (bindings h e))" "env_capacity h e = Inr (scope_room h e)"
proof -
  show "environment_cell h e = Inr c"
    using envs_okD(3) [OF assms] store_reads [OF assms(2)] by (simp add: environment_cell_def)
  then show "env_count h e = Inr (length (bindings h e))" "env_capacity h e = Inr (scope_room h e)"
    using assms(2) by (simp_all add: env_count_def env_capacity_def bindings_def scope_room_def)
qed

lemma env_place: "binding_at i = 56 + i * 24"
  by (simp add: binding_at_def)

lemma bindings_bound:
  assumes "envs_ok h" "store h e = Some (EnvironmentCell, c)"
  shows "length (bindings h e) \<le> read_u32_at c 8"
  using envs_okD(2) [OF assms] assms(2) by (simp add: bindings_def array_ok_def)

lemma binding_bytes_nth:
  assumes "env.ok c" "i < read_u32_at c 8"
  shows "binding_bytes c i = Some (nth_of 56 24 c i)" "length (nth_of 56 24 c i) = 24"
  using env.record_get [OF assms] by (simp_all add: binding_bytes_def env_place)

lemma binding_record_eq:
  assumes "envs_ok h" "store h e = Some (EnvironmentCell, c)"
  shows "length (bindings h e) \<le> i \<Longrightarrow> binding_record h e i = Inl Unresolvable"
    "i < length (bindings h e) \<Longrightarrow> binding_record h e i = Inr (nth_of 56 24 c i)"
    "i < length (bindings h e) \<Longrightarrow> length (nth_of 56 24 c i) = 24"
    "i < length (bindings h e) \<Longrightarrow> bindings h e ! i = binding_of (nth_of 56 24 c i)"
proof -
  note e = environment_cell_store [OF assms]
  show "binding_record h e i = Inl Unresolvable" if "length (bindings h e) \<le> i" using that e by (simp add: binding_record_def)
  assume i: "i < length (bindings h e)"
  note b = binding_bytes_nth [OF envs_okD(2) [OF assms], of i]
  have cap: "i < read_u32_at c 8" using i bindings_bound [OF assms] by simp
  then show "binding_record h e i = Inr (nth_of 56 24 c i)" "length (nth_of 56 24 c i) = 24"
    using i e b by (simp_all add: binding_record_def)
  show "bindings h e ! i = binding_of (nth_of 56 24 c i)" using i assms(2) by (simp add: bindings_def nth_array_elems)
qed

subsection \<open>Changing a binding\<close>

text \<open>One environment is given a cell of the same size whose header keeps its parent.\<close>

definition env_becomes :: "heap \<Rightarrow> handle \<Rightarrow> scope_binding list \<Rightarrow> heap \<Rightarrow> bool" where
  "env_becomes h e bs h' \<longleftrightarrow> envs_ok h' \<and> is_environment h' = is_environment h \<and> bindings h' = (bindings h)(e := bs) \<and> scope_room h' = scope_room h \<and>
     scope_parent h' = scope_parent h \<and> scope_tag h' = scope_tag h \<and> scope_object h' = scope_object h \<and> (\<forall>k. k \<noteq> e \<longrightarrow> store h' k = store h k)"

definition same_header :: "byte list \<Rightarrow> byte list \<Rightarrow> bool" where
  "same_header c c' \<longleftrightarrow> c' ! 0 = c ! 0 \<and> read_u32_at c' 8 = read_u32_at c 8 \<and> decode_at c' 12 = decode_at c 12 \<and>
     decode_at c' 21 = decode_at c 21"

lemma same_header_put:
  assumes "i + length bytes \<le> length c" "56 \<le> i \<or> i = 4 \<and> length bytes = 4"
  shows "same_header c (put_at c i bytes)"
proof -
  have "decode_at (put_at c i bytes) 12 = decode_at c 12" "decode_at (put_at c i bytes) 21 = decode_at c 21"
    using assms(2) by (auto intro!: decode_at_local get_at_put_other field_put_other)
  moreover have "read_u32_at (put_at c i bytes) 8 = read_u32_at c 8"
    using assms(2) field_put_other [of 8 4 i bytes c] by (auto simp: read_u32_at_def)
  moreover have "put_at c i bytes ! 0 = c ! 0" using assms by (cases c) (auto simp: put_at_nth)
  ultimately show ?thesis by (simp add: same_header_def)
qed

lemma same_header_trans: "same_header a b \<Longrightarrow> same_header b c \<Longrightarrow> same_header a c"
  by (simp add: same_header_def)

lemma env_cell_changed:
  assumes "envs_ok h" "store h e = Some (EnvironmentCell, c)" "change c = Inr c'" "length c' = length c" "env.ok c'"
    "same_header c c'"
  shows "\<exists>h'. change_environment h e change = Inr h' \<and> env_becomes h e (map binding_of (env.elems c')) h'"
proof -
  obtain h' where h': "change_environment h e change = Inr h'" "heap_ok h'" "store h' = (store h)(e \<mapsto> (EnvironmentCell, c'))"
    using with_cell_store [OF envs_okD(1) [OF assms(1,2)] assms(2), of change c' EnvHeap] assms(3,4)
    by (auto simp: change_environment_def)
  have env: "is_environment h' k = is_environment h k" for k using h'(3) assms(2) by (auto simp: is_environment_def)
  have "envs_ok h'"
    unfolding envs_ok_def
  proof (intro conjI allI impI)
    fix k d
    assume k: "store h' k = Some (EnvironmentCell, d)"
    have cases: "k = e \<and> d = c' \<or> k \<noteq> e \<and> store h k = Some (EnvironmentCell, d)" using k h'(3) by (cases "k = e") auto
    then show "env.ok d" using assms(5) envs_okD(2) [OF assms(1)] by auto
    assume "v_tag (decode_at d environment_PARENT) = Object"
    then show "is_environment h' (as_handle (decode_at d environment_PARENT))"
      using cases envs_okD(4) [OF assms(1)] assms(2,6) unfolding env by (auto simp: same_header_def)
  qed (rule h'(2))
  moreover have "bindings h' = (bindings h)(e := map binding_of (env.elems c'))" using h'(3) by (auto simp: bindings_def fun_eq_iff)
  moreover have "scope_room h' = scope_room h" "scope_parent h' = scope_parent h" "scope_tag h' = scope_tag h" "scope_object h' = scope_object h"
    using h'(3) assms(2,6) by (auto simp: scope_room_def scope_parent_def scope_tag_def scope_object_def same_header_def fun_eq_iff)
  ultimately show ?thesis using h'(1,3) env by (auto simp: env_becomes_def)
qed

lemma change_one_binding:
  assumes "envs_ok h" "store h e = Some (EnvironmentCell, c)" "i < length (bindings h e)"
    "\<And>r. length r = 24 \<Longrightarrow> binding_of r = bindings h e ! i \<Longrightarrow> \<exists>r'. f r = Inr r' \<and> length r' = 24 \<and> binding_of r' = b"
  shows "\<exists>h'. change_environment h e (\<lambda>cell. change_binding missing cell i f) = Inr h' \<and>
    env_becomes h e ((bindings h e)[i := b]) h'"
proof -
  note r = binding_record_eq [OF assms(1,2), of i]
  have cap: "i < read_u32_at c 8" using assms(3) bindings_bound [OF assms(1,2)] by simp
  obtain r' where r': "f (nth_of 56 24 c i) = Inr r'" "length r' = 24" "binding_of r' = b"
    using assms(4) [OF r(3)] r(4) assms(3) by auto
  note put = env.record_put [OF envs_okD(2) [OF assms(1,2)] cap r'(2)]
  have ch: "change_binding missing c i f = Inr (put_at c (56 + i * 24) r')"
    using binding_bytes_nth(1) [OF envs_okD(2) [OF assms(1,2)] cap] r'(1) by (simp add: change_binding_def env_place)
  have par: "same_header c (put_at c (56 + i * 24) r')"
    using env.room [OF envs_okD(2) [OF assms(1,2)] cap] r'(2) by (intro same_header_put) simp_all
  have rows: "map binding_of (env.elems (put_at c (56 + i * 24) r')) = (bindings h e)[i := b]"
    using put(7) r'(3) assms(2) by (simp add: bindings_def map_update)
  show ?thesis
    using env_cell_changed [OF assms(1,2), of "\<lambda>cell. change_binding missing cell i f", OF ch put(1,4) par] unfolding rows .
qed

lemma four_nth: "a + 4 \<le> length xs \<Longrightarrow> [xs ! a, xs ! (a + 1), xs ! (a + 2), xs ! (a + 3)] = take 4 (drop a xs)"
  by (rule nth_equalityI) (auto simp: nth_Cons' less_Suc_eq numeral_eq_Suc)

lemma binding_name_fields:
  "length r = 24 \<Longrightarrow> slot_name r = handle_new (of_nat (of_le (take 4 (drop 4 r)))) (of_nat (of_le (take 4 (drop 8 r))))"
  using four_nth [of 4 r] four_nth [of 8 r] by (simp add: slot_name_def)

lemma binding_name_write:
  assumes "length r = 24"
  shows "slot_name (handle_write_at k r 4) = k"
proof -
  let ?i = "le_bytes 4 (unat (h_index k))" and ?g = "le_bytes 4 (unat (h_generation k))"
  have w: "handle_write_at k r 4 = take 4 r @ ?i @ ?g @ drop 12 r"
    using assms by (simp add: handle_write_at_def put_at_def)
  have "take 4 (drop 4 (handle_write_at k r 4)) = ?i" "take 4 (drop 8 (handle_write_at k r 4)) = ?g"
    unfolding w using assms by simp_all
  then show ?thesis using assms binding_name_fields [of "handle_write_at k r 4"] by (simp add: handle_new_def)
qed

lemma binding_name_encode: "length r = 24 \<Longrightarrow> slot_name (encode_at v r 12) = slot_name r"
  by (simp add: slot_name_def encode_at_def put_at_nth)

lemma binding_name_flags: "length r = 24 \<Longrightarrow> slot_name (put_at r 0 [f]) = slot_name r"
  by (simp add: slot_name_def put_at_nth)

lemma binding_of_encode:
  "length r = 24 \<Longrightarrow> value_wf v \<Longrightarrow> binding_of (encode_at v r 12) = (binding_of r)\<lparr>b_value := v\<rparr>"
  by (simp add: binding_of_def binding_name_encode decode_encode_at encoded_def) (simp add: encode_at_def put_at_nth)

lemma binding_of_flags:
  "length r = 24 \<Longrightarrow> binding_of (put_at r 0 [f]) = (binding_of r)\<lparr>b_flags := f\<rparr>"
  using decode_at_local [of "put_at r 0 [f]" 12 r]
  by (simp add: binding_of_def binding_name_flags put_at_nth get_at_put_other field_put_other)

lemma binding_of_name:
  assumes "length r = 24"
  shows "binding_of (handle_write_at k r 4) = (binding_of r)\<lparr>b_name := k\<rparr>"
proof -
  have "decode_at (handle_write_at k r 4) 12 = decode_at r 12"
    by (rule decode_at_local) (simp_all add: handle_write_at_def get_at_put_other field_put_other)
  moreover have "handle_write_at k r 4 ! 0 = r ! 0" using assms by (simp add: handle_write_at_def put_at_nth)
  ultimately show ?thesis using assms by (simp add: binding_of_def binding_name_write)
qed

lemmas binding_updates = binding_of_encode binding_of_flags binding_of_name


subsection \<open>Every outcome of the operations on bindings\<close>

lemma byte_at_first: "length r = 24 \<Longrightarrow> byte_at p r 0 = Inr (r ! 0)"
  by (cases r) (simp_all add: byte_at_def get_at_def)

lemma set_byte_first: "length r = 24 \<Longrightarrow> set_byte p r 0 b = Inr (put_at r 0 [b])"
  by (cases r) (simp_all add: set_byte_def)

lemma b_flags_nth: "b_flags (binding_of r) = r ! 0" "b_value (binding_of r) = decode_at r 12"
  by (simp_all add: binding_of_def)

lemma slot_value_spec:
  assumes "envs_ok h" "store h e = Some (EnvironmentCell, c)"
  shows "slot_value h e i = (if length (bindings h e) \<le> i then Inl Unresolvable
    else if b_flags (bindings h e ! i) AND binding_INITIALISED = 0 then Inl Uninitialised
    else Inr (b_value (bindings h e ! i)))"
  using binding_record_eq [OF assms, of i]
  by (cases "i < length (bindings h e)") (simp_all add: slot_value_def byte_at_first b_flags_nth)

lemma set_slot_spec:
  fixes i :: nat
  assumes "envs_ok h" "store h e = Some (EnvironmentCell, c)" "value_wf v"
  defines "b \<equiv> bindings h e ! i"
  shows "if length (bindings h e) \<le> i then set_slot h e i v = Inl Unresolvable
    else if b_flags b AND binding_INITIALISED = 0 then set_slot h e i v = Inl Uninitialised
    else if b_flags b AND binding_MUTABLE = 0 then set_slot h e i v = Inl Immutable
    else \<exists>h'. set_slot h e i v = Inr h' \<and> env_becomes h e ((bindings h e)[i := b\<lparr>b_value := v\<rparr>]) h'"
proof (cases "i < length (bindings h e)")
  case True
  note r = binding_record_eq [OF assms(1,2), of i]
  have ch: "\<exists>h'. change_environment h e (\<lambda>cell. change_binding Unresolvable cell i (\<lambda>record. Inr (encode_at v record 12))) = Inr h' \<and>
      env_becomes h e ((bindings h e)[i := b\<lparr>b_value := v\<rparr>]) h'"
    by (rule change_one_binding [OF assms(1,2) True]) (use assms(3) in \<open>simp add: binding_updates b_def\<close>)
  have "b_flags b = nth_of 56 24 c i ! 0" using r(4) [OF True] by (simp add: b_def binding_of_def)
  then have "set_slot h e i v = (if b_flags b AND binding_INITIALISED = 0 then Inl Uninitialised
    else if b_flags b AND binding_MUTABLE = 0 then Inl Immutable
    else change_environment h e (\<lambda>cell. change_binding Unresolvable cell i (\<lambda>record. Inr (encode_at v record 12))))"
    using r(2,3) [OF True] by (simp add: set_slot_def byte_at_first)
  then show ?thesis using ch True by simp
qed (use binding_record_eq(1) [OF assms(1,2), of i] in \<open>simp add: set_slot_def\<close>)

lemma initialise_spec:
  fixes i :: nat
  assumes "envs_ok h" "store h e = Some (EnvironmentCell, c)" "value_wf v" "i < length (bindings h e)"
  defines "b \<equiv> bindings h e ! i"
  shows "\<exists>h'. initialise h e i v = Inr h' \<and>
    env_becomes h e ((bindings h e)[i := b\<lparr>b_flags := b_flags b OR binding_INITIALISED, b_value := v\<rparr>]) h'"
  unfolding initialise_def
proof (rule change_one_binding [OF assms(1,2,4)])
  fix r :: "byte list"
  assume "length r = 24" "binding_of r = bindings h e ! i"
  then show "\<exists>r'. and_then (byte_at EnvIndexPanic r 0) (\<lambda>flags. and_then (set_byte EnvIndexPanic r 0 (flags OR 2))
      (\<lambda>record. Inr (encode_at v record 12))) = Inr r' \<and> length r' = 24 \<and>
      binding_of r' = b\<lparr>b_flags := b_flags b OR 2, b_value := v\<rparr>"
    using assms(3) b_flags_nth(1) [of r] by (simp add: byte_at_first set_byte_def binding_updates b_def)
qed

text \<open>A removed binding keeps its place with a blank name, so that the other indices stay what they were.\<close>

lemma remove_spec:
  fixes i :: nat
  assumes "envs_ok h" "store h e = Some (EnvironmentCell, c)" "i < length (bindings h e)"
  shows "\<exists>h'. env_remove h e i = Inr h' \<and>
    env_becomes h e ((bindings h e)[i := \<lparr>b_name = handle_new 0 0, b_flags = binding_MUTABLE, b_value = v_undefined\<rparr>]) h'"
proof -
  have "\<exists>h'. change_environment h e (\<lambda>cell. change_binding Unresolvable cell i (\<lambda>record.
      and_then (set_byte EnvIndexPanic record 0 1) (\<lambda>record.
      Inr (encode_at v_undefined (handle_write_at (handle_new 0 0) record 4) 12)))) = Inr h' \<and>
    env_becomes h e ((bindings h e)[i := \<lparr>b_name = handle_new 0 0, b_flags = 1, b_value = v_undefined\<rparr>]) h'"
    by (rule change_one_binding [OF assms]) (simp add: set_byte_first binding_updates)
  then show ?thesis using assms(3) environment_cell_store(2) [OF assms(1,2)] by (simp add: env_remove_def)
qed

lemma declare_spec:
  assumes "envs_ok h" "store h e = Some (EnvironmentCell, c)"
  shows "if scope_room h e \<le> length (bindings h e) then env_declare h e name flags = Inl EnvFull
    else \<exists>h'. env_declare h e name flags = Inr (length (bindings h e), h') \<and>
      env_becomes h e (bindings h e @ [\<lparr>b_name = name, b_flags = flags AND NOT binding_INITIALISED, b_value = v_undefined\<rparr>]) h'"
proof (cases "scope_room h e \<le> length (bindings h e)")
  case True
  then show ?thesis using environment_cell_store(2,3) [OF assms] by (simp add: env_declare_def)
next
  case False
  let ?n = "length (bindings h e)" and ?b = "\<lparr>b_name = name, b_flags = flags AND NOT binding_INITIALISED, b_value = v_undefined\<rparr>"
  have n: "?n = read_u32_at c 4" "scope_room h e = read_u32_at c 8" using assms(2) by (simp_all add: bindings_def scope_room_def)
  then have lt: "read_u32_at c 4 < read_u32_at c 8" using False by simp
  note b = binding_bytes_nth [OF envs_okD(2) [OF assms], of "read_u32_at c 4", OF lt]
  define r where "r = encode_at v_undefined (handle_write_at name (put_at (nth_of 56 24 c (read_u32_at c 4)) 0 [flags AND NOT 2]) 4) 12"
  have len: "length r = 24" using b(2) by (simp add: r_def)
  have r: "binding_of r = ?b" using b(2) by (simp add: r_def binding_updates)
  note push = env.record_push [OF envs_okD(2) [OF assms] lt len]
  have wrap: "wadd32 (read_u32_at c 4) 1 = read_u32_at c 4 + 1"
    using lt read_u32_at_le [of c 8] by (simp add: wadd32_def)
  let ?c = "write_u32 (put_at c (56 + read_u32_at c 4 * 24) r) 4 (read_u32_at c 4 + 1)"
  let ?change = "\<lambda>cell. and_then (change_binding EnvFull cell ?n (\<lambda>record.
      and_then (set_byte EnvIndexPanic record 0 (flags AND NOT 2)) (\<lambda>record.
      Inr (encode_at v_undefined (handle_write_at name record 4) 12)))) (\<lambda>cell. Inr (write_u32 cell 4 (wadd32 ?n 1)))"
  have ch: "?change c = Inr ?c"
    using b n(1) wrap by (simp add: change_binding_def set_byte_first env_place r_def)
  have "same_header c (put_at c (56 + read_u32_at c 4 * 24) r)"
    using env.room [OF envs_okD(2) [OF assms] lt] len by (intro same_header_put) simp_all
  moreover have "same_header (put_at c (56 + read_u32_at c 4 * 24) r) ?c"
    unfolding write_u32_def using envs_okD(3) [OF assms] by (intro same_header_put) simp_all
  ultimately have par: "same_header c ?c" by (rule same_header_trans)
  obtain h' where "change_environment h e ?change = Inr h'" "env_becomes h e (map binding_of (env.elems ?c)) h'"
    using env_cell_changed [OF assms, of ?change, OF ch push(1,2) par] by blast
  moreover have "map binding_of (env.elems ?c) = bindings h e @ [?b]" using push(3) r assms(2) by (simp add: bindings_def)
  ultimately show ?thesis using False environment_cell_store(2,3) [OF assms] by (simp add: env_declare_def)
qed

text \<open>C24: a binding's life, on every path. Declaring adds it to the end, uninitialised, and fails exactly when the
  record is full; reading it before it is initialised is the error of the temporal dead zone; initialising gives
  it its value; an assignment is refused in the dead zone and for an immutable binding, and otherwise replaces the
  value and nothing else. No operation touches another binding, another environment or the parent.\<close>

theorem binding_life:
  assumes "envs_ok h" "is_environment h e" "value_wf v" "bs = bindings h e"
  shows "(if scope_room h e \<le> length bs then env_declare h e name flags = Inl EnvFull
      else \<exists>h'. env_declare h e name flags = Inr (length bs, h') \<and>
        env_becomes h e (bs @ [\<lparr>b_name = name, b_flags = flags AND NOT binding_INITIALISED, b_value = v_undefined\<rparr>]) h') \<and>
    slot_value h e i =
      (if length bs \<le> i then Inl Unresolvable
       else if b_flags (bs ! i) AND binding_INITIALISED = 0 then Inl Uninitialised else Inr (b_value (bs ! i))) \<and>
    (i < length bs \<longrightarrow> (\<exists>h'. initialise h e i v = Inr h' \<and>
      env_becomes h e (bs[i := (bs ! i)\<lparr>b_flags := b_flags (bs ! i) OR binding_INITIALISED, b_value := v\<rparr>]) h')) \<and>
    (if length bs \<le> i then set_slot h e i v = Inl Unresolvable
      else if b_flags (bs ! i) AND binding_INITIALISED = 0 then set_slot h e i v = Inl Uninitialised
      else if b_flags (bs ! i) AND binding_MUTABLE = 0 then set_slot h e i v = Inl Immutable
      else \<exists>h'. set_slot h e i v = Inr h' \<and> env_becomes h e (bs[i := (bs ! i)\<lparr>b_value := v\<rparr>]) h')"
proof -
  obtain c where c: "store h e = Some (EnvironmentCell, c)" using assms(2) by (auto simp: is_environment_def)
  show ?thesis
    unfolding assms(4)
    using declare_spec [OF assms(1) c, of name flags] slot_value_spec [OF assms(1) c, of i]
      initialise_spec [OF assms(1) c assms(3), of i] set_slot_spec [OF assms(1) c assms(3), of i] by blast
qed


subsection \<open>Resolution\<close>

definition first_bound :: "handle \<Rightarrow> scope_binding list \<Rightarrow> nat option" where
  "first_bound name bs = (if name \<in> b_name ` set bs then Some (LEAST i. i < length bs \<and> b_name (bs ! i) = name) else None)"

lemma first_bound_Cons:
  "first_bound name (b # bs) = (if b_name b = name then Some 0 else map_option Suc (first_bound name bs))"
proof (cases "b_name b = name")
  case True
  then have "(LEAST i. i < length (b # bs) \<and> b_name ((b # bs) ! i) = name) = 0" by (intro Least_equality) auto
  then show ?thesis using True by (simp add: first_bound_def)
next
  case False
  show ?thesis
  proof (cases "name \<in> b_name ` set bs")
    case True
    then obtain i where i: "i < length bs" "b_name (bs ! i) = name" by (auto simp: in_set_conv_nth)
    have "(LEAST i. i < length (b # bs) \<and> b_name ((b # bs) ! i) = name) = Suc (LEAST i. i < length bs \<and> b_name (bs ! i) = name)"
      using Least_Suc [of "\<lambda>i. i < length (b # bs) \<and> b_name ((b # bs) ! i) = name" "Suc i"] i False by simp
    then show ?thesis using True False by (simp add: first_bound_def)
  qed (use False in \<open>auto simp: first_bound_def\<close>)
qed

lemma scan_bindings_first:
  assumes "env.ok c" "i + left \<le> read_u32_at c 8"
  shows "scan_bindings c name i left =
    Inr (map_option ((+) i) (first_bound name (map (\<lambda>j. binding_of (nth_of 56 24 c j)) [i..<i + left])))"
  using assms(2)
proof (induction left arbitrary: i)
  case (Suc left)
  have "binding_bytes c i = Some (nth_of 56 24 c i)" using binding_bytes_nth(1) [OF assms(1), of i] Suc.prems by simp
  moreover have "[i..<i + Suc left] = i # [i + 1..<i + 1 + left]" by (simp add: upt_conv_Cons)
  moreover have "i + 1 + left \<le> read_u32_at c 8" using Suc.prems by simp
  ultimately show ?case using Suc.IH [of "i + 1"]
    by (simp add: first_bound_Cons binding_of_def option.map_comp o_def)
qed (simp add: first_bound_def)

lemma index_of_first:
  assumes "envs_ok h" "store h e = Some (EnvironmentCell, c)"
  shows "index_of h e name = Inr (first_bound name (bindings h e))"
proof -
  have n: "length (bindings h e) = read_u32_at c 4" using assms(2) by (simp add: bindings_def)
  have "bindings h e = map (\<lambda>j. binding_of (nth_of 56 24 c j)) [0..<0 + length (bindings h e)]"
    unfolding n using assms(2) by (simp add: bindings_def array_elems_def o_def)
  then have "scan_bindings c name 0 (length (bindings h e)) = Inr (map_option ((+) 0) (first_bound name (bindings h e)))"
    using scan_bindings_first [OF envs_okD(2) [OF assms], of 0 "length (bindings h e)" name] bindings_bound [OF assms] by simp
  moreover have "((+) 0) = (id :: nat \<Rightarrow> nat)" by auto
  ultimately show ?thesis using environment_cell_store [OF assms] by (simp add: index_of_def option.map_id)
qed

text \<open>What one scope answers for a name. An object environment asks the object and its prototypes.\<close>

inductive scope_answers :: "heap \<Rightarrow> handle \<Rightarrow> handle \<Rightarrow> nat option \<Rightarrow> bool" for h name where
  declared: "scope_tag h e \<noteq> 2 \<Longrightarrow> scope_answers h name e (first_bound name (bindings h e))"
| bare: "scope_tag h e = 2 \<Longrightarrow> v_tag (scope_object h e) \<noteq> Object \<Longrightarrow> scope_answers h name e None"
| object: "scope_tag h e = 2 \<Longrightarrow> v_tag (scope_object h e) = Object \<Longrightarrow> is_object_cell h (as_handle (scope_object h e)) \<Longrightarrow>
    owner h (KeyName name) (as_handle (scope_object h e)) n r \<Longrightarrow> n \<le> 256 \<Longrightarrow>
    scope_answers h name e (map_option (\<lambda>_. u32_max) r)"

inductive scope_owner :: "heap \<Rightarrow> handle \<Rightarrow> handle \<Rightarrow> nat \<Rightarrow> (handle \<times> nat) option \<Rightarrow> bool" for h name where
  here: "scope_answers h name e (Some i) \<Longrightarrow> scope_owner h name e 0 (Some (e, i))"
| nowhere: "scope_answers h name e None \<Longrightarrow> v_tag (scope_parent h e) \<noteq> Object \<Longrightarrow> scope_owner h name e 0 None"
| above: "scope_answers h name e None \<Longrightarrow> v_tag (scope_parent h e) = Object \<Longrightarrow>
    scope_owner h name (as_handle (scope_parent h e)) n r \<Longrightarrow> scope_owner h name e (Suc n) r"

lemma has_property_owner:
  assumes "objects_ok h" "is_object_cell h k" "owner h key k n r" "n \<le> 256"
  shows "has_property h k key = Inr (r \<noteq> None)"
proof -
  obtain c where c: "store h k = Some (ObjectCell, c)" using assms(2) by (auto simp: is_object_cell_def)
  have "object_get h k key = Inr (found_at h key r)"
    using get_chain_owner [OF assms(1) c, of 256 key] owner_unique [OF assms(3)] assms(3,4) unfolding object_get_def by blast
  moreover have "found_at h key r \<noteq> Absent \<longleftrightarrow> r \<noteq> None"
    by (cases r) (auto simp: found_at_def lookup_of_def split: descriptor_kind.splits)
  ultimately show ?thesis by (simp add: has_property_def)
qed

lemma resolve_here_answers:
  assumes "objects_ok h" "envs_ok h" "is_environment h e" "scope_answers h name e r"
  shows "resolve_here h e name = Inr r"
proof -
  obtain c where c: "store h e = Some (EnvironmentCell, c)" using assms(3) by (auto simp: is_environment_def)
  note cell = environment_cell_store(1) [OF assms(2) c]
  have "0 < length c" using envs_okD(3) [OF assms(2) c] by linarith
  then have kind: "env_kind h e = Inr (if c ! 0 = 1 then FunctionEnv else if c ! 0 = 2 then ObjectEnv
      else if c ! 0 = 3 then ArrowEnv else DeclarativeEnv)" and k: "scope_tag h e = c ! 0"
    using cell c by (simp_all add: env_kind_def byte_at_def get_at_def scope_tag_def)
  have obj: "binding_object h e = Inr (scope_object h e)"
    using cell c by (simp add: binding_object_def env_value_def scope_object_def)
  from assms(4) show ?thesis
  proof cases
    case declared
    then show ?thesis using kind k index_of_first [OF assms(2) c, of name] by (simp add: resolve_here_def)
  next
    case bare
    then show ?thesis using kind k obj by (simp add: resolve_here_def)
  next
    case (object n s)
    then show ?thesis using kind k obj has_property_owner [OF assms(1) object(4,5,6)]
      by (cases s) (simp_all add: resolve_here_def)
  qed
qed

lemma resolve_chain_owner:
  assumes "objects_ok h" "envs_ok h" "scope_owner h name e n r" "is_environment h e"
  shows "resolve_chain h name left depth e =
    (if n \<le> left then Inr (map_option (\<lambda>(f, i). \<lparr>r_environment = f, r_index = i, r_depth = depth + n\<rparr>) r) else Inl ChainTooDeep)"
  using assms(3,4)
proof (induction arbitrary: left depth rule: scope_owner.induct)
  case (here e i)
  then show ?case using resolve_here_answers [OF assms(1,2) here(2,1)] by (subst resolve_chain.simps) simp
next
  case (nowhere e)
  then obtain c where c: "store h e = Some (EnvironmentCell, c)" by (auto simp: is_environment_def)
  have "env_parent h e = Inr (scope_parent h e)"
    using environment_cell_store(1) [OF assms(2) c] c by (simp add: env_parent_def env_value_def scope_parent_def)
  then show ?case using resolve_here_answers [OF assms(1,2) nowhere(3,1)] nowhere(2) by (subst resolve_chain.simps) simp
next
  case (above e n r)
  then obtain c where c: "store h e = Some (EnvironmentCell, c)" by (auto simp: is_environment_def)
  have p: "env_parent h e = Inr (scope_parent h e)"
    using environment_cell_store(1) [OF assms(2) c] c by (simp add: env_parent_def env_value_def scope_parent_def)
  have "is_environment h (as_handle (scope_parent h e))"
    using envs_okD(4) [OF assms(2) c] above.hyps(2) c by (simp add: scope_parent_def)
  note ih = above.IH [OF this]
  have here: "resolve_here h e name = Inr None" by (rule resolve_here_answers [OF assms(1,2) above.prems above.hyps(1)])
  show ?case
  proof (cases left)
    case 0
    then show ?thesis using here p above.hyps(2) by (subst resolve_chain.simps) simp
  next
    case (Suc m)
    have "resolve_chain h name left depth e = resolve_chain h name m (depth + 1) (as_handle (scope_parent h e))"
      using here p above.hyps(2) Suc by (subst resolve_chain.simps) simp
    then show ?thesis unfolding ih using Suc by simp
  qed
qed

text \<open>C25: a name resolves to the innermost scope that binds it: the first binding of that name in the nearest
  record, or the object of an object environment that has it as a property, own or inherited, with the number
  of scopes between; to nothing where the chain ends without it; and a chain of more than 256 scopes is reported.\<close>

theorem resolve_innermost:
  assumes "objects_ok h" "envs_ok h" "is_environment h e" "scope_owner h name e n r"
  shows "env_resolve h e name =
    (if n \<le> 256 then Inr (map_option (\<lambda>(f, i). \<lparr>r_environment = f, r_index = i, r_depth = n\<rparr>) r) else Inl ChainTooDeep)"
  using resolve_chain_owner [OF assms(1,2,4,3), of 256 0] by (simp add: env_resolve_def)


subsection \<open>A new environment\<close>

lemma fresh_environment:
  fixes parent :: jsvalue and kind :: byte
  assumes "value_wf parent" "capacity \<le> u32_max"
  defines "c1 \<equiv> put_at (replicate (56 + capacity * 24) 0) 0 [kind]"
  defines "c2 \<equiv> write_u32 (write_u32 c1 4 0) 8 capacity"
  defines "c \<equiv> encode_at v_undefined (encode_at v_undefined (put_at (encode_at v_undefined (encode_at parent c2 12) 21) 30 [0]) 32) 41"
  shows "length c = 56 + capacity * 24" "c ! 0 = kind" "read_u32_at c 4 = 0" "read_u32_at c 8 = capacity" "decode_at c 12 = parent"
proof -
  show len: "length c = 56 + capacity * 24" by (simp add: c_def c2_def c1_def)
  have low: "c ! 0 = c1 ! 0" by (simp add: c_def c2_def c1_def encode_at_def write_u32_def put_at_nth)
  then show "c ! 0 = kind" by (simp add: c1_def put_at_nth)
  have f: "field 4 c i = field 4 c2 i" if "i + 4 \<le> 12" for i
    using that by (simp add: c_def field_def encode_at_frame encoded_def subrange_put_other)
  have "read_u32_at c 4 = read_u32_at c2 4" "read_u32_at c 8 = read_u32_at c2 8" by (simp_all add: read_u32_at_def f)
  moreover have "read_u32_at c2 4 = read_u32_at (write_u32 c1 4 0) 4"
    by (simp add: c2_def write_u32_def read_u32_at_def field_put_other)
  moreover have "read_u32_at (write_u32 c1 4 0) 4 = 0" by (rule read_write_u32) (simp_all add: c1_def)
  moreover have "read_u32_at c2 8 = capacity" unfolding c2_def by (rule read_write_u32) (use assms(2) in \<open>simp_all add: c1_def\<close>)
  ultimately show "read_u32_at c 4 = 0" "read_u32_at c 8 = capacity" by simp_all
  have "decode_at c 12 = decode_at (encode_at parent c2 12) 12"
    by (rule decode_at_local) (simp_all add: c_def encode_at_def get_at_put_other field_put_other)
  also have "\<dots> = parent" by (rule decode_encode_at [OF assms(1)]) (simp add: c2_def c1_def encoded_def)
  finally show "decode_at c 12 = parent" .
qed

lemma env_create_spec:
  assumes "envs_ok h" "value_wf parent" "v_tag parent = Object \<Longrightarrow> is_environment h (as_handle parent)"
    "env_create h kind parent capacity = Inr (e, h')"
  shows "envs_ok h'" "is_environment h' e" "bindings h' e = []" "scope_room h' e = capacity" "scope_parent h' e = parent"
    "scope_tag h' e = environment_kind_byte kind" "\<exists>c. store h' = (store h)(e \<mapsto> (EnvironmentCell, c))"
proof -
  let ?n = "56 + capacity * 24"
  have heap: "heap_ok h" using assms(1) by (simp add: envs_ok_def)
  have n: "?n \<le> u32_max" using assms(4) by (auto simp: env_create_def Let_def split: if_splits)
  define c where "c = encode_at v_undefined (encode_at v_undefined (put_at (encode_at v_undefined (encode_at parent
    (write_u32 (write_u32 (put_at (replicate ?n 0) 0 [environment_kind_byte kind]) 4 0) 8 capacity) 12) 21) 30 [0]) 32) 41"
  have cap: "capacity \<le> u32_max" using n by simp
  note f = fresh_environment [OF assms(2) cap, of "environment_kind_byte kind", folded c_def]
  let ?change = "\<lambda>cell. and_then (set_byte EnvIndexPanic cell 0 (environment_kind_byte kind)) (\<lambda>cell.
    let cell = write_u32 cell 4 0; cell = write_u32 cell 8 capacity; cell = encode_at parent cell 12; cell = encode_at v_undefined cell 21
    in and_then (set_byte EnvIndexPanic cell 30 0) (\<lambda>cell. let cell = encode_at v_undefined cell 32 in Inr (encode_at v_undefined cell 41)))"
  obtain h1 where a: "heap_allocate h EnvironmentCell ?n = Inr (e, h1)" and p: "change_environment h1 e ?change = Inr h'"
    using assms(4) n by (auto simp: env_create_def Let_def and_then_Inr)
  note law = cells.alloc_law [OF heap _ a]
  have "?change (replicate ?n 0) = Inr c" by (simp add: set_byte_def c_def)
  then have h': "heap_ok h'" "store h' = (store h)(e \<mapsto> (EnvironmentCell, c))" "store h e = None"
    using with_cell_store [of h1 e EnvironmentCell "replicate ?n 0" ?change c EnvHeap] law f(1) p
    by (auto simp: change_environment_def)
  show "\<exists>c. store h' = (store h)(e \<mapsto> (EnvironmentCell, c))" using h'(2) by blast
  show "is_environment h' e" using h'(2) by (simp add: is_environment_def)
  show "bindings h' e = []" "scope_room h' e = capacity" "scope_parent h' e = parent" "scope_tag h' e = environment_kind_byte kind"
    using h'(2) f by (simp_all add: bindings_def array_elems_def scope_room_def scope_parent_def scope_tag_def)
  have old: "is_environment h' k" if "is_environment h k" for k using that h'(2,3) by (auto simp: is_environment_def)
  show "envs_ok h'"
    unfolding envs_ok_def
  proof (intro conjI allI impI)
    fix k d
    assume k: "store h' k = Some (EnvironmentCell, d)"
    have cases: "k = e \<and> d = c \<or> store h k = Some (EnvironmentCell, d)" using k h'(2) by (cases "k = e") auto
    then show "env.ok d" using f envs_okD(2) [OF assms(1)] by (auto simp: array_ok_def)
    assume "v_tag (decode_at d environment_PARENT) = Object"
    then show "is_environment h' (as_handle (decode_at d environment_PARENT))"
      using cases envs_okD(4) [OF assms(1)] f(5) assms(3) old by auto
  qed (rule h'(1))
qed

subsection \<open>The theorems at work\<close>

abbreviation (input) scope_heap :: heap where
  "scope_heap \<equiv> heap_new (replicate 96 0) [slot_empty]"

lemma scope_heap_store: "store scope_heap k = None"
  by (auto simp: store_eq slot_names_def heap_new_def heap_with_worklist_def heap_over_def slot_empty_def)

lemma scope_heap_runs: "case env_create scope_heap DeclarativeEnv v_null 1 of Inl _ \<Rightarrow> False | Inr _ \<Rightarrow> True"
  by code_simp

lemma scope_created:
  obtains e h where "env_create scope_heap DeclarativeEnv v_null 1 = Inr (e, h)" "envs_ok h" "objects_ok h" "is_environment h e"
    "bindings h e = []" "scope_room h e = 1" "scope_tag h e = 0" "\<And>k c. store h k \<noteq> Some (ObjectCell, c)"
proof -
  obtain e h where run: "env_create scope_heap DeclarativeEnv v_null 1 = Inr (e, h)"
    using scope_heap_runs by (cases "env_create scope_heap DeclarativeEnv v_null 1") auto
  have "heap_ok scope_heap" unfolding heap_new_def by (rule heap_over_ok) simp_all
  then have ok: "envs_ok scope_heap" by (simp add: envs_ok_def scope_heap_store)
  have wf: "value_wf v_null" by simp
  have null: "v_tag v_null = Object \<Longrightarrow> is_environment scope_heap (as_handle v_null)" by (simp add: v_null_def)
  note spec = env_create_spec [OF ok wf null run]
  have none: "store h k \<noteq> Some (ObjectCell, c)" for k c using spec(7) scope_heap_store by (auto split: if_splits)
  then have "objects_ok h" using spec(1) by (simp add: objects_ok_def envs_ok_def)
  then show ?thesis using that [OF run] spec none by simp
qed

theorem binding_life_witness:
  "case env_create scope_heap DeclarativeEnv v_null 1 of Inl _ \<Rightarrow> False | Inr (e, h) \<Rightarrow>
    (\<exists>h'. env_declare h e (handle_new 3 1) 1 = Inr (0, h') \<and> slot_value h' e 0 = Inl Uninitialised \<and>
      set_slot h' e 0 v_null = Inl Uninitialised)"
proof (rule scope_created)
  fix e h
  assume run: "env_create scope_heap DeclarativeEnv v_null 1 = Inr (e, h)" and h: "envs_ok h" "is_environment h e"
    "bindings h e = []" "scope_room h e = 1"
  obtain h' where h': "env_declare h e (handle_new 3 1) 1 = Inr (0, h')"
      "env_becomes h e [\<lparr>b_name = handle_new 3 1, b_flags = 1 AND NOT 2, b_value = v_undefined\<rparr>] h'"
    using binding_life [OF h(1,2) value_wf_constructors(2) refl, of "handle_new 3 1" 1 0] h(3,4) by auto
  then have e: "envs_ok h'" "bindings h' e = [\<lparr>b_name = handle_new 3 1, b_flags = 1 AND NOT 2, b_value = v_undefined\<rparr>]"
    "is_environment h' e"
    using h(2) by (simp_all add: env_becomes_def)
  from binding_life [OF e(1,3) value_wf_constructors(2) refl, of "handle_new 3 1" 1 0] e(2)
  show ?thesis using run h'(1) by simp
qed

theorem resolve_innermost_witness:
  "case env_create scope_heap DeclarativeEnv v_null 1 of Inl _ \<Rightarrow> False | Inr (e, h) \<Rightarrow>
    (case env_declare h e (handle_new 3 1) 1 of Inl _ \<Rightarrow> False | Inr (_, h) \<Rightarrow>
      env_resolve h e (handle_new 3 1) = Inr (Some \<lparr>r_environment = e, r_index = 0, r_depth = 0\<rparr>))"
proof (rule scope_created)
  fix e h
  assume run: "env_create scope_heap DeclarativeEnv v_null 1 = Inr (e, h)" and h: "envs_ok h" "is_environment h e"
    "bindings h e = []" "scope_room h e = 1" "scope_tag h e = 0" "\<And>k c. store h k \<noteq> Some (ObjectCell, c)"
  obtain c where c: "store h e = Some (EnvironmentCell, c)" using h(2) by (auto simp: is_environment_def)
  let ?b = "\<lparr>b_name = handle_new 3 1, b_flags = 1 AND NOT 2, b_value = v_undefined\<rparr>"
  obtain h' where h': "env_declare h e (handle_new 3 1) 1 = Inr (0, h')" "env_becomes h e [?b] h'"
    using declare_spec [OF h(1) c, of "handle_new 3 1" 1] h(3,4) by auto
  then have e: "envs_ok h'" "bindings h' e = [?b]" "is_environment h' e" "\<And>k. k \<noteq> e \<Longrightarrow> store h' k = store h k"
    using h(2) by (simp_all add: env_becomes_def)
  have "store h' k \<noteq> Some (ObjectCell, d)" for k d using e(3,4) h(6) by (cases "k = e") (auto simp: is_environment_def)
  then have o: "objects_ok h'" using e(1) by (simp add: objects_ok_def envs_ok_def)
  have "scope_tag h' e \<noteq> 2" using h'(2) h(5) by (simp add: env_becomes_def)
  then have "scope_owner h' (handle_new 3 1) e 0 (Some (e, 0))"
    using scope_answers.declared [of h' e "handle_new 3 1"] e(2) by (intro scope_owner.here) (simp add: first_bound_Cons)
  from resolve_innermost [OF o e(1,3) this] show ?thesis using run h'(1) by simp
qed

end
