(* ===== verification/Spec2Isabelle.thy ===== *)
theory Spec2Isabelle
  imports Job_Queue Sample_Unit Code_Assembly Big_Int_Text Big_Int_Bits Heap_Safety Promise_Samples Environments
begin

text \<open>
  A verification library for the Phasor JavaScript engine, whose core is the Rust code under
  \<^verbatim>\<open>src/modules/common\<close>. File names below are relative to that directory.

  \<^bold>\<open>The program.\<close> Source text is lexed, parsed and lowered to bytecode, which the emitter writes as a unit
  image. An isolate admits an image only through the verifier and then interprets it. At run time values are
  tagged words; strings, objects, property tables, environments, big integers and promise reactions are cells of
  a garbage-collected arena, named by handles with generations; jobs wait in a bounded ring. Everything is
  \<^verbatim>\<open>no_std\<close>: storage is lent by the caller, and running out of it is an error value.

  \<^bold>\<open>How the model reads.\<close> A slice is a list, a byte an \<open>8 word\<close>, a floating-point number its 64 bits.
  \<^verbatim>\<open>u32\<close> and \<^verbatim>\<open>usize\<close> quantities are naturals with the wrapping, saturating and checked operations of the
  source written out (\<open>wadd32\<close>, \<open>sadd32\<close>, \<open>checked_add32\<close>). \<^verbatim>\<open>Result\<close> is a sum with the error on the left and
  \<open>and_then\<close> is the question mark operator. A mutable borrow of a cell is \<open>with_cell\<close>: read the cell, change the copy,
  put it back. An index out of range, which panics in Rust, is an error value of its own. Loops over a known
  number of items recurse over that number; the two loops whose end depends on the data (\<open>collect_loop\<close> and
  \<open>compact_loop\<close>) are partial functions into \<open>option\<close>, with theorems that they return. The hash of an
  image and the width of \<^verbatim>\<open>usize\<close> are parameters of the definitions that use them.

  \<^bold>\<open>The theories.\<close>

  \<^item> \<open>Phasor_Prelude\<close>: slices, little-endian fields, 32-bit arithmetic, \<open>and_then\<close>.
  \<^item> \<open>Js_Value\<close>, \<open>Js_Number\<close> (\<^verbatim>\<open>value.rs\<close>, the comparison of \<^verbatim>\<open>softfloat.rs\<close>): tagged values and handles, their
    encodings in cells, equality and comparison of numbers, conversion to integers. Encodings round trip, the
    short encoding exactly when the generation fits sixteen bits; for every bit pattern comparison is
    the order of the reals, undefined on NaN, and \<open>to_uint32\<close> and \<open>to_int32\<close> are the integer part modulo \<open>2 ^ 32\<close>.
  \<^item> \<open>Job_Queue\<close> (\<^verbatim>\<open>job.rs\<close>): the ring of jobs is a bounded queue, and its roots are what the jobs hold. The locale
    \<open>bounded_fifo\<close> is the contract.
  \<^item> \<open>Diagnostics\<close> (\<^verbatim>\<open>diagnostic.rs\<close>): codes and the 32-byte frame.
  \<^item> \<open>Bytecode\<close>, \<open>Bytecode_Unit\<close> (\<^verbatim>\<open>bytecode.rs\<close>, \<^verbatim>\<open>feature.rs\<close>): the instruction format and the unit image, with its
    layout checks and accessors.
  \<^item> \<open>Verify\<close>, \<open>Verify_Sound\<close>, \<open>Control_Flow\<close> (\<^verbatim>\<open>verify.rs\<close>, the control flow of \<^verbatim>\<open>vm.rs\<close>): the verifier's two passes, the
    certificate an accepted function has, and the steps of a frame as an inductive relation. This theory joins
    them: a frame of an admitted image leaves its instructions only for a handler that lies past the end of its
    code, where it can do nothing more.
  \<^item> \<open>Byte_Sink\<close>, \<open>Unit_Writer\<close>, \<open>Code_Builder\<close>, \<open>Code_Assembly\<close> (\<^verbatim>\<open>emit.rs\<close>): the encoders over a sink with a sticky
    failure (locale \<open>byte_sink\<close>), the writer as the inverse of the parser, and the builder as an assembler of
    labelled code.
  \<^item> \<open>Big_Int\<close>, \<open>Big_Int_Exact\<close>, \<open>Big_Int_Divide\<close>, \<open>Big_Int_Bits\<close>, \<open>Big_Int_Text\<close> (\<^verbatim>\<open>bigint.rs\<close>, \<^verbatim>\<open>vm/bigints.rs\<close>): limb
    arithmetic is integer arithmetic, bitwise operations are those of two's complement, numerals round trip.
  \<^item> \<open>Heap_Cells\<close>, \<open>Heap_Store\<close>, \<open>Heap_Compact\<close>, \<open>Heap_Interface\<close> (\<^verbatim>\<open>heap.rs\<close>): slots, allocation, access, retirement and
    compaction, refining a map from handles to cells. The locale \<open>cell_store\<close> is what clients rely on.
  \<^item> \<open>Gc\<close>, \<open>Gc_Trace\<close>, \<open>Gc_Collect\<close>, \<open>Heap_Safety\<close> (\<^verbatim>\<open>gc.rs\<close>): tracing every kind of cell, marking in slices, and the whole
    collection: it keeps exactly the reachable cells, where \<open>cell_children\<close> reads what a cell refers to off its layout
    and the tracer is proved to shade exactly that; stale handles stay stale below the maximum generation.
  \<^item> \<open>Cell_Access\<close>, \<open>Object_Cells\<close>, \<open>Object_Slots\<close> (\<^verbatim>\<open>object.rs\<close>): every operation on objects, byte for byte.
  \<^item> \<open>Object_Table\<close>, \<open>Object_Store\<close>, \<open>Object_Refines\<close>, \<open>Object_Keys\<close>, \<open>Object_Safety\<close>, \<open>Object_Invariant\<close>: property tables as
    association lists in insertion order, the operations as updates of them, reads through the prototype
    chain, the order of own keys, objects under collection, and what any sequence of operations keeps. When a
    property may be redefined is the rule \<open>may_redefine\<close>, which the code is proved to follow. Descriptors are those
    a record can hold (\<open>descriptor_wf\<close>): a setter of generation 65536 or more does not fit the short form.
  \<^item> \<open>Record_Array\<close>: the locale of a cell that is a counted array of records, interpreted for environments and for
    reaction lists: reading, replacing and adding a record are list operations.
  \<^item> \<open>Env_Cells\<close>, \<open>Environments\<close> (\<^verbatim>\<open>env.rs\<close>): every operation on environments; bindings with their dead zone and
    mutability on every path, and resolution to the innermost scope.
  \<^item> \<open>Promise_Cells\<close>, \<open>Promises\<close> (\<^verbatim>\<open>promise.rs\<close>): reactions and settling, over the heap, the objects and the job queue
    together: every reaction becomes a job, once and in order, when the queue has room.
  \<^item> \<open>Sample_Unit\<close>, \<open>Object_Samples\<close>, \<open>Promise_Samples\<close>: concrete images and heaps on which the theorems are applied.

  \<^bold>\<open>Bounds.\<close> The only limits are those of the source: prototype chains are followed for 256 steps
  (\<^verbatim>\<open>MAX_PROTOTYPE_DEPTH\<close>), scope chains for 256 (\<^verbatim>\<open>MAX_SCOPE_DEPTH\<close>), big integers
  have the capacity of their buffers, \<open>u32\<close> offsets bound arenas and images.
  The theorems say what happens at each: an error, never a wrong answer, except where a theorem or a lemma of
  its own shows the code to fall short: a handler outside the code is admitted, a full generation is handed out again, a
  slot reused before a compaction loses its cell, the free count can wrap after a compaction, a short reference
  loses the high half of its generation, and settling into a full queue drops jobs.

  \<^bold>\<open>Not modelled.\<close> The front end (lexer, parser, lowering), regular expressions, string cells and number
  formatting, the realm's tables of intrinsics, linking of modules, and the semantics of the individual
  instructions are large and are left out; of the interpreter only control flow is here. Soft
  floating-point arithmetic and the conversions between big integers and numbers are left out, as are
  policy, wire framing, replay, entropy, capability tables and the application modules, which are
  glue around the core or talk to the platform. Test fixtures and generated tables have no model.
\<close>

section \<open>Admission of a unit image\<close>

lemma admit_with_certified:
  assumes "admit_with sha256 usize_max bytes capacity refused = Inr u"
    "unit_function u index = Some f" "unit_code u f = Some code"
  shows "length code \<le> u32_max" "\<exists>S. certified u f code refused S"
proof -
  have ok: "verify_functions u capacity refused [0..<hd_function_count (u_header u)] = None"
    using assms(1) by (auto simp: admit_with_def verify_with_def split: sum.splits option.splits)
  show "length code \<le> u32_max"
    using unit_code_length [OF assms(3)] unit_function_bounds(1) [OF assms(2)] by simp
  have "index \<in> set [0..<hd_function_count (u_header u)]"
    using unit_function_bounds(3) [OF assms(2)] by simp
  from verify_functions_None [OF ok this] show "\<exists>S. certified u f code refused S"
    using assms(2,3) by auto
qed

lemmas admit_certified = admit_with_certified [where refused = "[]", folded admit_def]

text \<open>
  C1: once an image is admitted, a position a frame can reach in one of its functions, by falling
  through, by jumping or by unwinding into a handler, is of one of two kinds. It is the start of an
  instruction that decodes inside the code, with every register, constant and depth operand in range,
  with a context count inside the function's declared depth, with no context left open at a
  return, and with a next instruction to fall through to unless it is a terminator. Or it is the
  handler of one of the function's regions, entered by unwinding with that region's context
  count, which lies at or past the end of the code because the verifier does not bound handlers;
  then decoding fails, and the frame takes no further step.
\<close>

theorem admitted_frame_safe:
  assumes "admit sha256 usize_max bytes capacity = Inr u"
    "unit_function u index = Some f" "unit_code u f = Some code"
    "reaches u f code (pc, d)"
  shows "(\<exists>i. decode code pc = Inr i \<and> operands_ok (hd_constant_count (u_header u)) f i \<and>
      0 \<le> d \<and> d \<le> int (fn_context_depth f) \<and>
      (i_opcode i = Op_Return \<longrightarrow> d = 0) \<and>
      (\<not> is_terminator (i_opcode i) \<longrightarrow> pc + i_length i < length code)) \<or>
    (wild_handler u f code pc d \<and> decode code pc = Inl TruncatedOperand \<and>
      (\<forall>t. \<not> flow u f code (pc, d) t))"
proof (cases "wild_handler u f code pc d")
  case True
  then show ?thesis using wild_handler_stuck by (auto simp: wild_handler_def decode_past_end)
next
  case False
  obtain S where S: "certified u f code [] S" using admit_certified [OF assms(1-3)] by blast
  show ?thesis
    using reaches_instruction [OF S admit_certified(1) [OF assms(1-3)] assms(4) False]
    by (auto simp: flow_ok_def Let_def context_effect_def)
qed

lemma sample_reaches: "reaches u f sample_code (4, 0)"
proof -
  have "flow u f sample_code (0, 0) (2, context_effect Op_Star)"
    using flow_next [of sample_code 0 _ u f 0] by (simp add: is_terminator_def)
  then have "reaches u f sample_code (2, 0)"
    using reaches_step [OF reaches_entry] by (simp add: context_effect_def)
  moreover have "flow u f sample_code (2, 0) (2 + 2, 0 + context_effect Op_JumpIfToBooleanFalse)"
    using flow_next [of sample_code 2 _ u f 0] by (simp add: is_terminator_def)
  ultimately show ?thesis using reaches_step by (simp add: context_effect_def)
qed

theorem admitted_frame_safe_witness:
  "\<exists>i. decode sample_code 4 = Inr i \<and> operands_ok 0 sample_function i \<and>
    (0 :: int) \<le> 0 \<and> 0 \<le> int (fn_context_depth sample_function) \<and>
    (i_opcode i = Op_Return \<longrightarrow> (0 :: int) = 0) \<and>
    (\<not> is_terminator (i_opcode i) \<longrightarrow> 4 + i_length i < length sample_code)"
  using admitted_frame_safe [OF sample_admit(1) sample_functions sample_reaches] by simp

text \<open>
  C2: inside the code, the context count is a function of the position. Whatever path a frame took to a
  position of an admitted function that lies in its code, it arrives with the same number of
  contexts entered. Two wild handlers past the end of the code may disagree, and only they.
\<close>

theorem admitted_depth_unique:
  assumes "admit sha256 usize_max bytes capacity = Inr u"
    "unit_function u index = Some f" "unit_code u f = Some code"
    "pc < length code" "reaches u f code (pc, d)" "reaches u f code (pc, d')"
  shows "d = d'"
proof -
  obtain S where S: "certified u f code [] S" using admit_certified [OF assms(1-3)] by blast
  note r = reaches_certified [OF S admit_certified(1) [OF assms(1-3)]]
  show ?thesis using r [OF assms(5)] r [OF assms(6)] assms(4) by (auto simp: wild_handler_def)
qed

theorem admitted_depth_unique_witness:
  "{d. reaches (sample_unit 6) sample_function sample_code (4, d)} = {0}"
proof -
  have "4 < length sample_code" by simp
  from admitted_depth_unique [OF sample_admit(1) sample_functions this _ sample_reaches]
  show ?thesis using sample_reaches by blast
qed

text \<open>
  C3: a loop cannot avoid the safe points. A jump that goes back, or to itself, from any position a
  frame can reach lands on a declared safe point, where cancellation and the deadline are observed.
\<close>

theorem admitted_backward_jump_safe_point:
  assumes "admit sha256 usize_max bytes capacity = Inr u"
    "unit_function u index = Some f" "unit_code u f = Some code" "reaches u f code (pc, d)"
    "decode code pc = Inr i" "is_branch (i_opcode i)" "jump_target pc (i_signed i ! 0) \<le> pc"
  shows "is_safe_point u f (jump_target pc (i_signed i ! 0))"
proof -
  obtain S where S: "certified u f code [] S" using admit_certified [OF assms(1-3)] by blast
  note len = admit_certified(1) [OF assms(1-3)]
  have "\<not> wild_handler u f code pc d"
    using assms(5) by (auto simp: wild_handler_def decode_past_end)
  from reaches_instruction [OF S len assms(4) this] have "flow_ok u f code S pc i"
    using assms(5) by fastforce
  from flow_ok_jump(4) [OF this assms(6) len assms(7)] show ?thesis .
qed

theorem admitted_backward_jump_safe_point_witness:
  "is_safe_point (sample_unit 6) sample_function (jump_target 4 (-4))"
  using admitted_backward_jump_safe_point [OF sample_admit(1) sample_functions
      sample_reaches sample_decode(3)]
  by (simp add: is_branch_def jump_target_def u32_or_def)

text \<open>
  C4: in an admitted function, the handler found for a throw covers the throwing instruction and
  lies inside every other region that covers it; when none is found, none covers it. The search
  is a single pass that keeps the last better region, so this rests on the nesting the verifier
  checks.
\<close>

theorem admitted_handler_innermost:
  assumes "admit sha256 usize_max bytes capacity = Inr u"
    "unit_function u index = Some f" "unit_code u f = Some code"
  shows "case handler_for u f pc of
      Some r \<Rightarrow> covers r (pc - 1) \<and>
        (\<forall>slot < fn_exception_count f. \<forall>q. region_at u f slot = Some q \<longrightarrow> covers q (pc - 1) \<longrightarrow>
           x_start q \<le> x_start r \<and> x_end r \<le> x_end q)
    | None \<Rightarrow> \<forall>slot < fn_exception_count f. \<forall>q. region_at u f slot = Some q \<longrightarrow> \<not> covers q (pc - 1)"
proof (cases "handler_for u f pc")
  case (Some r)
  then show ?thesis using admit_certified(2) [OF assms] handler_for_region by fastforce
next
  case None
  obtain S where "certified u f code [] S" using admit_certified [OF assms] by blast
  then have "sorted_wrt nests (regions_of u f [0..<fn_exception_count f])"
    and "\<forall>slot \<in> set [0..<fn_exception_count f]. region_at u f slot \<noteq> None"
    unfolding certified_def by fastforce+
  with handler_search_None [OF None [unfolded handler_for_def]] None show ?thesis
    by (fastforce simp: set_regions_of)
qed

theorem admitted_handler_innermost_witness:
  "covers \<lparr>x_start = 2, x_end = 6, x_handler = 6, x_register = 0, x_context_depth = 0\<rparr> (4 - 1)"
  using admitted_handler_innermost [OF sample_admit(1) sample_functions, of 4]
  by (simp add: handler_for_def covers_def)

text \<open>
  C36: the verifier lets a handler lie outside the code. The sample image whose handler is at 200,
  in a function of nine bytes, is admitted; a throw then takes the frame to a position with no
  instruction.
\<close>

theorem admitted_wild_handler:
  "admit sample_digest u64_max (sample_image 200) 9 = Inr (sample_unit 200) \<and>
   unit_function (sample_unit 200) 0 = Some sample_function \<and>
   unit_code (sample_unit 200) sample_function = Some sample_code \<and>
   reaches (sample_unit 200) sample_function sample_code (200, 0) \<and>
   decode sample_code 200 = Inl TruncatedOperand"
proof -
  have "handler_for (sample_unit 200) sample_function (4 + 2) =
      Some \<lparr>x_start = 2, x_end = 6, x_handler = 200, x_register = 0, x_context_depth = 0\<rparr>"
    by (simp add: handler_for_def covers_def)
  then have "flow (sample_unit 200) sample_function sample_code (4, 0) (200, 0)"
    using flow_throw [OF sample_decode(3), of "sample_unit 200" sample_function _ 0] by (simp add: unwound_def)
  then show ?thesis
    using sample_admit(2) reaches_step [OF sample_reaches] by (simp add: decode_def get_at_def)
qed

text \<open>
  C29: an opcode the embedder refuses is in no admitted function: none of the instructions of its
  code, reachable or not, carries it.
\<close>

theorem admitted_without_refused:
  assumes "admit_with sha256 usize_max bytes capacity refused = Inr u"
    "unit_function u index = Some f" "unit_code u f = Some code"
    "scan code 0 pc" "(oc, feature) \<in> set refused"
  shows "\<exists>i. decode code pc = Inr i \<and> i_opcode i \<noteq> oc"
proof -
  obtain S where "certified u f code refused S" using admit_with_certified [OF assms(1-3)] by blast
  then have "\<exists>i. decode code pc = Inr i \<and> i_opcode i \<notin> fst ` set refused"
    using assms(4) unfolding certified_def by blast
  then show ?thesis using assms(5) by force
qed

theorem admitted_without_refused_witness: "\<exists>i. decode sample_code 0 = Inr i \<and> i_opcode i \<noteq> Op_Throw"
  using admitted_without_refused [OF sample_admit(3) sample_functions, of 0 Op_Throw 7]
  by (simp add: scan_here)


text \<open>The sample image also instantiates the property of parsed tables.\<close>

theorem parsed_tables_readable_witness:
  "(\<exists>f. unit_function (sample_unit 6) (hd_entry_function (u_header (sample_unit 6))) = Some f) \<and>
   (\<exists>r. unit_exception_region (sample_unit 6) 0 = Some r)"
proof -
  have "0 < hd_exception_count (u_header (sample_unit 6))" by (simp add: sample_unit_def)
  then show ?thesis using parsed_tables_readable [OF sample_parse(1), of 0] by blast
qed

end
